(* ===== verification/Prelude.thy ===== *)
theory Prelude
  imports Main "HOL-Library.Word"
begin

unbundle bit_operations_syntax

text \<open>
  Shared vocabulary of the development: Go's sized integers and byte slices, what the sources
  use of \<open>encoding/binary\<close>, \<open>io.ReadFull\<close> and slice expressions, the interface of fixed-width
  encodings, and the lemma collections of the component theories.
  \<open>wire\<close> collects the round trips of the fixed-width encodings, \<open>byte_len\<close> the lengths of
  encoded byte strings, \<open>layout\<close> the definitions that lay bytes out, so that a component
  proof evaluates an encoder with one simplifier call.
\<close>

section \<open>Types of the Go program\<close>

type_synonym u8 = "8 word"
type_synonym u16 = "16 word"
type_synonym u32 = "32 word"
type_synonym u64 = "64 word"
type_synonym bytes = "u8 list"

named_theorems wire \<open>round trips of fixed-width integer encodings\<close>
named_theorems byte_len \<open>lengths of encoded byte strings\<close>
named_theorems layout \<open>definitions that lay out bytes\<close>

section \<open>encoding/binary\<close>

text \<open>\<open>PutUint16/32/64\<close> of the big- and little-endian byte orders.\<close>

definition be16 :: "u16 \<Rightarrow> bytes" where
  [layout]: "be16 v = [ucast (drop_bit 8 v), ucast v]"

definition be32 :: "u32 \<Rightarrow> bytes" where
  [layout]: "be32 v =
     [ucast (drop_bit 24 v), ucast (drop_bit 16 v), ucast (drop_bit 8 v), ucast v]"

definition be64 :: "u64 \<Rightarrow> bytes" where
  "be64 v = be32 (ucast (drop_bit 32 v)) @ be32 (ucast v)"

definition le32 :: "u32 \<Rightarrow> bytes" where
  [layout]: "le32 v =
     [ucast v, ucast (drop_bit 8 v), ucast (drop_bit 16 v), ucast (drop_bit 24 v)]"

text \<open>The bytes of an integer joined again, most significant byte first.\<close>

definition join16 :: "u8 \<Rightarrow> u8 \<Rightarrow> u16" where
  "join16 a b = push_bit 8 (ucast a) OR ucast b"

definition join24 :: "u8 \<Rightarrow> u8 \<Rightarrow> u8 \<Rightarrow> u32" where
  "join24 a b c = push_bit 16 (ucast a) OR push_bit 8 (ucast b) OR ucast c"

definition join32 :: "u8 \<Rightarrow> u8 \<Rightarrow> u8 \<Rightarrow> u8 \<Rightarrow> u32" where
  "join32 a b c d =
     push_bit 24 (ucast a) OR push_bit 16 (ucast b) OR push_bit 8 (ucast c) OR ucast d"

definition join64 :: "u32 \<Rightarrow> u32 \<Rightarrow> u64" where
  "join64 hi lo = push_bit 32 (ucast hi) OR ucast lo"

text \<open>\<open>Uint16/32/64\<close> on the front of a slice; \<open>None\<close> where the slice is too short.\<close>

fun get_be16 :: "bytes \<Rightarrow> u16 option" where
  "get_be16 (a # b # _) = Some (join16 a b)"
| "get_be16 _ = None"

fun get_be32 :: "bytes \<Rightarrow> u32 option" where
  "get_be32 (a # b # c # d # _) = Some (join32 a b c d)"
| "get_be32 _ = None"

fun get_be64 :: "bytes \<Rightarrow> u64 option" where
  "get_be64 (a # b # c # d # e # f # g # h # _) = Some (join64 (join32 a b c d) (join32 e f g h))"
| "get_be64 _ = None"

fun get_le32 :: "bytes \<Rightarrow> u32 option" where
  "get_le32 (a # b # c # d # _) = Some (join32 d c b a)"
| "get_le32 _ = None"

text \<open>The same reads at an offset of a buffer whose length the caller has checked.\<close>

definition u16_at :: "bytes \<Rightarrow> nat \<Rightarrow> u16" where
  "u16_at b i = join16 (b ! i) (b ! (i + 1))"

definition u32_at :: "bytes \<Rightarrow> nat \<Rightarrow> u32" where
  "u32_at b i = join32 (b ! i) (b ! (i + 1)) (b ! (i + 2)) (b ! (i + 3))"

lemma join16_split [wire, simp]: "join16 (ucast (drop_bit 8 v)) (ucast v) = v"
  unfolding join16_def
  by (rule bit_word_eqI, simp add: bit_simps cong: conj_cong, arith)

lemma join32_split [wire, simp]:
  "join32 (ucast (drop_bit 24 v)) (ucast (drop_bit 16 v)) (ucast (drop_bit 8 v)) (ucast v) = v"
  unfolding join32_def
  by (rule bit_word_eqI, simp add: bit_simps cong: conj_cong, arith)

lemma join64_split [wire, simp]: "join64 (ucast (drop_bit 32 v)) (ucast v) = v"
  unfolding join64_def
  by (rule bit_word_eqI, simp add: bit_simps cong: conj_cong, arith)

lemma bit_beyond [simp]: "LENGTH('a) \<le> n \<Longrightarrow> \<not> bit (w :: 'a::len word) n"
  using bit_imp_le_length [of w n] by auto

lemma split_join16: "ucast (drop_bit 8 (join16 a b)) = a" "ucast (join16 a b) = b"
  unfolding join16_def
  by (auto intro!: bit_word_eqI simp: bit_simps)

lemma split_join32:
  "ucast (drop_bit 24 (join32 a b c d)) = a" "ucast (drop_bit 16 (join32 a b c d)) = b"
  "ucast (drop_bit 8 (join32 a b c d)) = c" "ucast (join32 a b c d) = d"
  unfolding join32_def
  by (auto intro!: bit_word_eqI simp: bit_simps)

lemma split_join64: "ucast (drop_bit 32 (join64 a b)) = a" "ucast (join64 a b) = b"
  unfolding join64_def
  by (auto intro!: bit_word_eqI simp: bit_simps)

text \<open>Words whose value fits in fewer bits than their width.\<close>

lemma take_bit_id: "(w :: 'a::len word) < 2 ^ n \<Longrightarrow> n < LENGTH('a) \<Longrightarrow> take_bit n w = w"
  by (metis less_mask_eq take_bit_eq_mask and.commute)

lemma bit_small: "(w :: 'a::len word) < 2 ^ n \<Longrightarrow> n < LENGTH('a) \<Longrightarrow> n \<le> i \<Longrightarrow> \<not> bit w i"
  by (metis bit_take_bit_iff leD take_bit_id)

lemma ucast_u8_u32: "(w :: u32) < 256 \<Longrightarrow> ucast (ucast w :: u8) = w"
  using take_bit_id [of w 8] by (simp add: bit_eq_iff bit_simps)

lemma join24_split:
  assumes "w < 2 ^ 24"
  shows "join24 (ucast (drop_bit 16 w)) (ucast (drop_bit 8 w)) (ucast w) = w"
proof -
  have b: "bit w i \<Longrightarrow> i < 24" for i using bit_small [of w 24 i] assms by fastforce
  show ?thesis unfolding join24_def
    by (rule bit_word_eqI, simp add: bit_simps cong: conj_cong) (use b in \<open>fastforce\<close>)
qed

section \<open>The interface of a fixed-width encoding\<close>

text \<open>
  What every reader relies on: the writer emits \<open>width\<close> bytes, the reader takes them off the
  front of whatever follows, fails on anything shorter and loses nothing.
\<close>

locale fixed_codec =
  fixes enc :: "'v \<Rightarrow> bytes"
    and dec :: "bytes \<Rightarrow> 'v option"
    and width :: nat
  assumes enc_len: "length (enc v) = width"
    and dec_enc: "dec (enc v @ r) = Some v"
    and enc_dec: "dec b = Some v \<Longrightarrow> enc v = take width b"
    and dec_short: "dec b = None \<longleftrightarrow> length b < width"
begin

lemma dec_exact: "dec (enc v) = Some v"
  using dec_enc [of v "[]"] by simp

lemma enc_eq_iff: "enc v = enc w \<longleftrightarrow> v = w"
  by (metis dec_exact option.inject)

lemma enc_prefix: "enc v @ r = enc w @ s \<longleftrightarrow> v = w \<and> r = s"
  by (metis append_eq_append_conv dec_enc enc_len option.inject)

lemma dec_total: "width \<le> length b \<Longrightarrow> \<exists>v. dec b = Some v \<and> b = enc v @ drop width b"
  using dec_short [of b] enc_dec [of b] by (cases "dec b") (auto simp: not_less)

lemma dec_Some_len: "dec b = Some v \<Longrightarrow> width \<le> length b"
  using dec_short [of b] by (cases "length b < width") auto

lemma dec_take: "width \<le> n \<Longrightarrow> dec (take n b) = dec b"
proof (cases "width \<le> length b")
  case True
  assume n: "width \<le> n"
  obtain v where v: "dec b = Some v" "b = enc v @ drop width b"
    using dec_total [OF True] by blast
  then have "take n b = enc v @ take (n - width) (drop width b)"
    using n enc_len by (metis take_all take_append)
  with v show ?thesis by (simp add: dec_enc)
next
  case False
  then show ?thesis using dec_short [of b] dec_short [of "take n b"] by simp
qed

end

interpretation be16: fixed_codec be16 get_be16 2
proof
  fix b v assume "get_be16 b = Some v"
  then show "be16 v = take 2 b"
    by (cases b rule: get_be16.cases) (auto simp: be16_def split_join16)
next
  fix b show "get_be16 b = None \<longleftrightarrow> length b < 2"
    by (cases b rule: get_be16.cases) auto
qed (simp_all add: be16_def)

interpretation be32: fixed_codec be32 get_be32 4
proof
  fix b v assume "get_be32 b = Some v"
  then show "be32 v = take 4 b"
    by (cases b rule: get_be32.cases) (auto simp: be32_def split_join32)
next
  fix b show "get_be32 b = None \<longleftrightarrow> length b < 4"
    by (cases b rule: get_be32.cases) auto
qed (simp_all add: be32_def)

interpretation le32: fixed_codec le32 get_le32 4
proof
  fix b v assume "get_le32 b = Some v"
  then show "le32 v = take 4 b"
    by (cases b rule: get_le32.cases) (auto simp: le32_def split_join32)
next
  fix b show "get_le32 b = None \<longleftrightarrow> length b < 4"
    by (cases b rule: get_le32.cases) auto
qed (simp_all add: le32_def)

interpretation be64: fixed_codec be64 get_be64 8
proof
  fix b v assume "get_be64 b = Some v"
  then show "be64 v = take 8 b"
    by (cases b rule: get_be64.cases) (auto simp: be64_def be32_def split_join32 split_join64)
next
  fix b show "get_be64 b = None \<longleftrightarrow> length b < 8"
    by (cases b rule: get_be64.cases) auto
next
  fix v r show "get_be64 (be64 v @ r) = Some v"
    by (simp add: be64_def be32_def)
qed (simp_all add: be64_def be32_def)

lemmas [wire, simp] = be16.dec_enc be32.dec_enc le32.dec_enc be64.dec_enc
  be16.dec_exact be32.dec_exact le32.dec_exact be64.dec_exact
lemmas [byte_len, simp] = be16.enc_len be32.enc_len le32.enc_len be64.enc_len

text \<open>Reading a field of a header at its offset skips the fields in front of it.\<close>

lemma u32_at_skip [wire]: "length a \<le> n \<Longrightarrow> u32_at (a @ r) n = u32_at r (n - length a)"
  by (simp add: u32_at_def nth_append Suc_diff_le)

lemma u16_at_skip [wire]: "length a \<le> n \<Longrightarrow> u16_at (a @ r) n = u16_at r (n - length a)"
  by (simp add: u16_at_def nth_append Suc_diff_le)

lemma u32_at_be32 [wire, simp]: "u32_at (be32 v @ r) 0 = v"
  by (simp add: u32_at_def be32_def)

lemma u16_at_be16 [wire, simp]: "u16_at (be16 v @ r) 0 = v"
  by (simp add: u16_at_def be16_def)

lemma be32_u32_at: "n + 4 \<le> length b \<Longrightarrow> be32 (u32_at b n) = take 4 (drop n b)"
proof (rule be32.enc_dec)
  assume "n + 4 \<le> length b"
  then have "drop n b = b ! n # b ! (n + 1) # b ! (n + 2) # b ! (n + 3) # drop (n + 4) b"
    by (simp add: Cons_nth_drop_Suc eval_nat_numeral)
  then show "get_be32 (drop n b) = Some (u32_at b n)" by (simp add: u32_at_def)
qed

text \<open>Single bits of a mask.\<close>

lemma bit_exp_word: "bit (2 ^ m :: 'a::len word) n \<longleftrightarrow> n = m \<and> m < LENGTH('a)"
  by (auto simp: bit_exp_iff)

section \<open>Readers, slices and results\<close>

text \<open>
  A connection is the bytes it will still deliver. \<open>io.ReadFull\<close> either fills its buffer or
  reports the end of the stream.
\<close>

definition read_full :: "nat \<Rightarrow> bytes \<Rightarrow> (bytes \<times> bytes) option" where
  "read_full n s = (if n \<le> length s then Some (take n s, drop n s) else None)"

lemma read_full_append [wire, simp]: "length b = n \<Longrightarrow> read_full n (b @ r) = Some (b, r)"
  by (simp add: read_full_def)

lemma read_full_Some_iff:
  "read_full n s = Some (b, r) \<longleftrightarrow> s = b @ r \<and> length b = n"
  by (auto simp: read_full_def)

text \<open>
  The slice expression \<open>xs[lo:hi]\<close> on a slice whose capacity is its length: \<open>None\<close> is the
  run-time panic for bounds out of range.
\<close>

definition go_slice :: "int \<Rightarrow> int \<Rightarrow> 'a list \<Rightarrow> 'a list option" where
  "go_slice lo hi xs =
     (if 0 \<le> lo \<and> lo \<le> hi \<and> hi \<le> int (length xs)
      then Some (take (nat (hi - lo)) (drop (nat lo) xs)) else None)"

lemma go_slice_None_iff:
  "go_slice lo hi xs = None \<longleftrightarrow> lo < 0 \<or> hi < lo \<or> int (length xs) < hi"
  by (auto simp: go_slice_def)

text \<open>Sequencing of fallible steps: the early return of an \<open>if err != nil\<close>.\<close>

fun and_then :: "'e + 'a \<Rightarrow> ('a \<Rightarrow> 'e + 'b) \<Rightarrow> 'e + 'b" where
  "and_then (Inl e) f = Inl e"
| "and_then (Inr x) f = f x"

lemma and_then_Inr_iff:
  "and_then m f = Inr y \<longleftrightarrow> (\<exists>x. m = Inr x \<and> f x = Inr y)"
  by (cases m) auto

lemma and_then_Inl_iff:
  "and_then m f = Inl e \<longleftrightarrow> m = Inl e \<or> (\<exists>x. m = Inr x \<and> f x = Inl e)"
  by (cases m) auto

text \<open>A string literal of the source as its bytes.\<close>

definition lit :: "string \<Rightarrow> bytes" where
  "lit s = map of_char s"

lemma length_lit [byte_len, simp]: "length (lit s) = length s"
  by (simp add: lit_def)

lemma unat_of_nat_small:
  "n < 2 ^ LENGTH('a) \<Longrightarrow> unat (of_nat n :: 'a::len word) = n"
  by (simp add: unat_of_nat take_bit_nat_eq_self)

lemma join16_of_nat:
  assumes "n < 65536"
  shows "join16 (of_nat (n div 256)) (of_nat (n mod 256)) = of_nat n"
proof -
  have u: "unat (of_nat n :: u16) = n" using assms by (simp add: unat_of_nat_small)
  have "(of_nat (n div 256) :: u8) = ucast (drop_bit 8 (of_nat n :: u16))"
    using assms by (simp add: word_unat_eq_iff unsigned_ucast_eq unsigned_of_nat unsigned_drop_bit_eq
        take_bit_eq_mod drop_bit_eq_div unat_div_distrib)
  moreover have "(of_nat (n mod 256) :: u8) = ucast (of_nat n :: u16)"
    using assms by (simp add: word_unat_eq_iff unsigned_ucast_eq unsigned_of_nat take_bit_eq_mod mod_mod_cancel)
  ultimately show ?thesis by simp
qed

end
