(* ===== verification/RtmpAmf.thy ===== *)
theory RtmpAmf
  imports Prelude
begin

text \<open>
  AMF0, the value encoding of RTMP commands (\<open>pkg/protocol/rtmp/message.go\<close>): the reader
  \<open>amfReader\<close>, \<open>DecodeAMF0\<close> and the writer \<open>amfWriter\<close>. A reader is the unread part
  \<open>buf[pos:]\<close> of its buffer, a \<open>float64\<close> its IEEE 754 bit pattern (the only operations are
  \<open>math.Float64bits\<close> and \<open>math.Float64frombits\<close>), a property map the list of its entries in
  the order the \<open>range\<close> loop visits them. The lemmas show that decoding inverts encoding and
  that decoding ends on every input.
\<close>

section \<open>Values\<close>

datatype AMFValue = AMFValue
  (amf_type: nat) (amf_number_bits: u64) (amf_bool_val: bool) (amf_str: bytes)
  (amf_obj: "(bytes \<times> AMFValue) list") (amf_arr: "AMFValue list")

abbreviation (input) AMFTypeNumber :: nat where "AMFTypeNumber \<equiv> 0"
abbreviation (input) AMFTypeBoolean :: nat where "AMFTypeBoolean \<equiv> 1"
abbreviation (input) AMFTypeString :: nat where "AMFTypeString \<equiv> 2"
abbreviation (input) AMFTypeObject :: nat where "AMFTypeObject \<equiv> 3"
abbreviation (input) AMFTypeNull :: nat where "AMFTypeNull \<equiv> 5"
abbreviation (input) AMFTypeEcmaArray :: nat where "AMFTypeEcmaArray \<equiv> 8"

text \<open>The composite literals of the source; fields not named have their zero value.\<close>

abbreviation VNumber :: "u64 \<Rightarrow> AMFValue" where
  "VNumber n \<equiv> AMFValue AMFTypeNumber n False [] [] []"
abbreviation VBoolean :: "bool \<Rightarrow> AMFValue" where
  "VBoolean b \<equiv> AMFValue AMFTypeBoolean 0 b [] [] []"
abbreviation VString :: "bytes \<Rightarrow> AMFValue" where
  "VString s \<equiv> AMFValue AMFTypeString 0 False s [] []"
abbreviation VObject :: "(bytes \<times> AMFValue) list \<Rightarrow> AMFValue" where
  "VObject ps \<equiv> AMFValue AMFTypeObject 0 False [] ps []"
abbreviation VNull :: AMFValue where
  "VNull \<equiv> AMFValue AMFTypeNull 0 False [] [] []"
abbreviation VEcmaArray :: "(bytes \<times> AMFValue) list \<Rightarrow> AMFValue" where
  "VEcmaArray ps \<equiv> AMFValue AMFTypeEcmaArray 0 False [] ps []"
abbreviation VStrictArray :: "AMFValue list \<Rightarrow> AMFValue" where
  "VStrictArray vs \<equiv> AMFValue AMFTypeEcmaArray 0 False [] [] vs"

text \<open>\<open>obj[name] = v\<close> on a map.\<close>

fun map_put :: "'k \<Rightarrow> 'v \<Rightarrow> ('k \<times> 'v) list \<Rightarrow> ('k \<times> 'v) list" where
  "map_put k v [] = [(k, v)]"
| "map_put k v ((k', v') # ps) = (if k = k' then (k, v) # ps else (k', v') # map_put k v ps)"

section \<open>The reader\<close>

datatype amf_error = UnexpectedEOF | UnsupportedMarker u8 | ExpectedObjectEnd u8 | OutOfFuel

fun amf_readByte :: "bytes \<Rightarrow> amf_error + u8 \<times> bytes" where
  "amf_readByte [] = Inl UnexpectedEOF"
| "amf_readByte (b # r) = Inr (b, r)"

definition amf_readBytes :: "nat \<Rightarrow> bytes \<Rightarrow> amf_error + bytes \<times> bytes" where
  "amf_readBytes n r = (if n > length r then Inl UnexpectedEOF else Inr (take n r, drop n r))"

definition amf_readUint16 :: "bytes \<Rightarrow> amf_error + u16 \<times> bytes" where
  "amf_readUint16 r =
     and_then (amf_readBytes 2 r) (\<lambda>(b, r'). Inr (u16_at b 0, r'))"

definition amf_readUint32 :: "bytes \<Rightarrow> amf_error + u32 \<times> bytes" where
  "amf_readUint32 r =
     and_then (amf_readBytes 4 r) (\<lambda>(b, r'). Inr (u32_at b 0, r'))"

definition amf_readFloat64 :: "bytes \<Rightarrow> amf_error + u64 \<times> bytes" where
  "amf_readFloat64 r =
     and_then (amf_readBytes 8 r) (\<lambda>(b, r'). Inr (join64 (u32_at b 0) (u32_at b 4), r'))"

definition amf_readString :: "bytes \<Rightarrow> amf_error + bytes \<times> bytes" where
  "amf_readString r = and_then (amf_readUint16 r) (\<lambda>(n, r'). amf_readBytes (unat n) r')"

text \<open>
  \<open>readValue\<close>, \<open>readObject\<close>, \<open>readObjectAsArray\<close> and the strict array loop of \<open>readValue\<close>.
  \<open>ty\<close> is the \<open>Type\<close> the object loop gives its result, the only difference between the two
  object readers. Each call spends one unit of fuel.
\<close>

fun amf_readValue :: "nat \<Rightarrow> bytes \<Rightarrow> amf_error + AMFValue \<times> bytes"
  and amf_readProps :: "nat \<Rightarrow> nat \<Rightarrow> (bytes \<times> AMFValue) list \<Rightarrow> bytes \<Rightarrow> amf_error + AMFValue \<times> bytes"
  and amf_readStrict :: "nat \<Rightarrow> nat \<Rightarrow> AMFValue list \<Rightarrow> bytes \<Rightarrow> amf_error + AMFValue \<times> bytes"
where
  "amf_readValue 0 r = Inl OutOfFuel"
| "amf_readValue (Suc f) r =
     and_then (amf_readByte r) (\<lambda>(marker, r).
       if marker = 0x00 then and_then (amf_readFloat64 r) (\<lambda>(v, r). Inr (VNumber v, r))
       else if marker = 0x01 then and_then (amf_readByte r) (\<lambda>(b, r). Inr (VBoolean (b \<noteq> 0), r))
       else if marker = 0x02 then and_then (amf_readString r) (\<lambda>(s, r). Inr (VString s, r))
       else if marker = 0x03 then amf_readProps f AMFTypeObject [] r
       else if marker = 0x05 then Inr (VNull, r)
       else if marker = 0x06 then Inr (VNull, r)
       else if marker = 0x08 then
         and_then (amf_readUint32 r) (\<lambda>(_, r). amf_readProps f AMFTypeEcmaArray [] r)
       else if marker = 0x0a then
         and_then (amf_readUint32 r) (\<lambda>(count, r). amf_readStrict f (unat count) [] r)
       else if marker = 0x0c \<or> marker = 0x0f then
         and_then (amf_readUint32 r) (\<lambda>(n, r).
           and_then (amf_readBytes (unat n) r) (\<lambda>(b, r). Inr (VString b, r)))
       else if marker = 0x0b then
         and_then (amf_readFloat64 r) (\<lambda>(_, r).
           and_then (amf_readUint16 r) (\<lambda>(_, r). Inr (VNull, r)))
       else Inl (UnsupportedMarker marker))"
| "amf_readProps 0 ty obj r = Inl OutOfFuel"
| "amf_readProps (Suc f) ty obj r =
     and_then (amf_readString r) (\<lambda>(name, r).
       if length name = 0 then
         and_then (amf_readByte r) (\<lambda>(m, r).
           if m = 0x09 then Inr (AMFValue ty 0 False [] obj [], r)
           else Inl (ExpectedObjectEnd m))
       else
         and_then (amf_readValue f r) (\<lambda>(v, r). amf_readProps f ty (map_put name v obj) r))"
| "amf_readStrict 0 k arr r = Inl OutOfFuel"
| "amf_readStrict (Suc f) 0 arr r = Inr (VStrictArray arr, r)"
| "amf_readStrict (Suc f) (Suc k) arr r =
     and_then (amf_readValue f r) (\<lambda>(v, r). amf_readStrict f k (arr @ [v]) r)"

text \<open>The loop of \<open>DecodeAMF0\<close>; two units of fuel per byte suffice for every value.\<close>

fun decode_loop :: "nat \<Rightarrow> AMFValue list \<Rightarrow> bytes \<Rightarrow> AMFValue list \<times> amf_error option" where
  "decode_loop 0 values r = (values, Some OutOfFuel)"
| "decode_loop (Suc f) values r =
     (if length r > 0 then
        (case amf_readValue (2 * length r + 1) r of
           Inl err \<Rightarrow> (values, Some err)
         | Inr (v, r') \<Rightarrow> decode_loop f (values @ [v]) r')
      else (values, None))"

definition DecodeAMF0 :: "bytes \<Rightarrow> AMFValue list \<times> amf_error option" where
  "DecodeAMF0 buf = decode_loop (length buf + 1) [] buf"

section \<open>The writer\<close>

text \<open>Each method of \<open>amfWriter\<close> as the bytes it appends to the buffer.\<close>

definition WriteString :: "bytes \<Rightarrow> bytes" where
  "WriteString s = [0x02] @ be16 (of_nat (length s)) @ s"

definition WriteNumber :: "u64 \<Rightarrow> bytes" where
  "WriteNumber v = [0x00] @ be64 v"

definition WriteBoolean :: "bool \<Rightarrow> bytes" where
  "WriteBoolean v = [0x01, if v then 1 else 0]"

definition WriteNull :: bytes where
  "WriteNull = [0x05]"

definition writeValue :: "AMFValue \<Rightarrow> bytes" where
  "writeValue v =
     (if amf_type v = AMFTypeNumber then WriteNumber (amf_number_bits v)
      else if amf_type v = AMFTypeBoolean then WriteBoolean (amf_bool_val v)
      else if amf_type v = AMFTypeString then WriteString (amf_str v)
      else if amf_type v = AMFTypeNull then WriteNull
      else WriteNull)"

fun writeProps :: "(bytes \<times> AMFValue) list \<Rightarrow> bytes" where
  "writeProps [] = []"
| "writeProps ((name, v) # ps) =
     be16 (of_nat (length name)) @ name @ writeValue v @ writeProps ps"

definition WriteObject :: "(bytes \<times> AMFValue) list \<Rightarrow> bytes" where
  "WriteObject props = [0x03] @ writeProps props @ be16 0 @ [0x09]"

definition WriteEcmaArray :: "(bytes \<times> AMFValue) list \<Rightarrow> bytes" where
  "WriteEcmaArray props =
     [0x08] @ be32 (of_nat (length props)) @ writeProps props @ be16 0 @ [0x09]"

section \<open>Accessors and the properties of a connect response\<close>

definition amfString :: "AMFValue \<Rightarrow> bytes option" where
  "amfString v = (if amf_type v = AMFTypeString then Some (amf_str v) else None)"

definition amfNumber :: "AMFValue \<Rightarrow> u64 option" where
  "amfNumber v = (if amf_type v = AMFTypeNumber then Some (amf_number_bits v) else None)"

definition amfBool :: "AMFValue \<Rightarrow> bool option" where
  "amfBool v = (if amf_type v = AMFTypeBoolean then Some (amf_bool_val v) else None)"

definition amfObject :: "AMFValue \<Rightarrow> (bytes \<times> AMFValue) list option" where
  "amfObject v =
     (if amf_type v = AMFTypeObject \<or> amf_type v = AMFTypeEcmaArray then Some (amf_obj v)
      else None)"

text \<open>31.0 and 1.0 as bit patterns.\<close>

definition ConnectResultProps :: "(bytes \<times> AMFValue) list" where
  "ConnectResultProps =
     [(lit ''fmsVer'', VString (lit ''FMS/3,0,1,123'')),
      (lit ''capabilities'', VNumber 0x403F000000000000),
      (lit ''mode'', VNumber 0x3FF0000000000000)]"

definition ConnectResultInfo :: "(bytes \<times> AMFValue) list" where
  "ConnectResultInfo =
     [(lit ''level'', VString (lit ''status'')),
      (lit ''code'', VString (lit ''NetConnection.Connect.Success'')),
      (lit ''description'', VString (lit ''Connection succeeded'')),
      (lit ''objectEncoding'', VNumber 0)]"

definition PublishStatusInfo :: "bytes \<Rightarrow> bytes \<Rightarrow> (bytes \<times> AMFValue) list" where
  "PublishStatusInfo code description =
     [(lit ''level'', VString (lit ''status'')),
      (lit ''code'', VString code),
      (lit ''description'', VString description)]"

section \<open>Reading what was written\<close>

lemma readByte_Cons [wire]: "amf_readByte (b # r) = Inr (b, r)"
  by simp

lemma readBytes_append [wire]: "length b = n \<Longrightarrow> amf_readBytes n (b @ r) = Inr (b, r)"
  by (simp add: amf_readBytes_def)

lemma readUint16_be16 [wire]: "amf_readUint16 (be16 v @ r) = Inr (v, r)"
  by (simp add: amf_readUint16_def amf_readBytes_def u16_at_def be16_def)

lemma readUint32_be32 [wire]: "amf_readUint32 (be32 v @ r) = Inr (v, r)"
  by (simp add: amf_readUint32_def amf_readBytes_def u32_at_def be32_def)

lemma readFloat64_be64 [wire]: "amf_readFloat64 (be64 v @ r) = Inr (v, r)"
  by (simp add: amf_readFloat64_def amf_readBytes_def u32_at_def be64_def be32_def)

lemma readString_written [wire]:
  "length s < 2 ^ 16 \<Longrightarrow> amf_readString (be16 (of_nat (length s)) @ s @ r) = Inr (s, r)"
  by (simp add: amf_readString_def readUint16_be16 readBytes_append unat_of_nat_small)

text \<open>
  The values the code writes: a scalar with the zero value in every field its type does not
  use, and an object or array of scalars under distinct, non-empty names. A string or a name
  fits its 16-bit length.
\<close>

definition amf_scalar :: "AMFValue \<Rightarrow> bool" where
  "amf_scalar v = (case v of AMFValue ty n b s ob ar \<Rightarrow>
     ob = [] \<and> ar = [] \<and>
     (ty = AMFTypeNumber \<and> \<not> b \<and> s = [] \<or> ty = AMFTypeBoolean \<and> n = 0 \<and> s = [] \<or>
      ty = AMFTypeString \<and> n = 0 \<and> \<not> b \<and> length s < 2 ^ 16 \<or>
      ty = AMFTypeNull \<and> n = 0 \<and> \<not> b \<and> s = []))"

definition amf_prop_ok :: "bytes \<times> AMFValue \<Rightarrow> bool" where
  "amf_prop_ok p = (fst p \<noteq> [] \<and> length (fst p) < 2 ^ 16 \<and> amf_scalar (snd p))"

definition amf_props_ok :: "(bytes \<times> AMFValue) list \<Rightarrow> bool" where
  "amf_props_ok ps = (distinct (map fst ps) \<and> list_all amf_prop_ok ps)"

inductive amf_written :: "AMFValue \<Rightarrow> bytes \<Rightarrow> bool" where
  scalar: "amf_scalar v \<Longrightarrow> amf_written v (writeValue v)"
| object: "amf_props_ok ps \<Longrightarrow> amf_written (VObject ps) (WriteObject ps)"
| ecma: "amf_props_ok ps \<Longrightarrow> amf_written (VEcmaArray ps) (WriteEcmaArray ps)"

text \<open>
  The types of decoded values: only the field of its type is set, the names of an object are
  distinct and not empty, and everything that is held inside is itself of a type.
\<close>

inductive amf_typed :: "AMFValue \<Rightarrow> bool" where
  number: "amf_typed (VNumber n)"
| boolean: "amf_typed (VBoolean b)"
| str: "length s < 2 ^ 32 \<Longrightarrow> amf_typed (VString s)"
| null: "amf_typed VNull"
| props: "ty = AMFTypeObject \<or> ty = AMFTypeEcmaArray \<Longrightarrow> distinct (map fst ps) \<Longrightarrow>
    \<forall>p \<in> set ps. fst p \<noteq> [] \<and> length (fst p) < 2 ^ 16 \<and> amf_typed (snd p) \<Longrightarrow>
    amf_typed (AMFValue ty 0 False [] ps [])"
| strict: "\<forall>v \<in> set vs. amf_typed v \<Longrightarrow> amf_typed (VStrictArray vs)"

lemma readValue_scalar [wire]:
  "amf_scalar v \<Longrightarrow> amf_readValue (Suc f) (writeValue v @ r) = Inr (v, r)"
  by (cases v) (auto simp: amf_scalar_def writeValue_def WriteNumber_def WriteBoolean_def
      WriteString_def WriteNull_def readFloat64_be64 readString_written)

lemma map_put_fresh: "k \<notin> fst ` set ps \<Longrightarrow> map_put k v ps = ps @ [(k, v)]"
  by (induction ps) auto

lemma readProps_written:
  assumes "length ps < f" "list_all amf_prop_ok ps" "distinct (map fst (acc @ ps))"
  shows "amf_readProps f ty acc (writeProps ps @ be16 0 @ 0x09 # r)
       = Inr (AMFValue ty 0 False [] (acc @ ps) [], r)"
  using assms
proof (induction ps arbitrary: f acc)
  case Nil
  then obtain g where "f = Suc g" by (cases f) auto
  with readString_written [of "[]" "0x09 # r"] show ?case by simp
next
  case (Cons p ps)
  obtain name v where p: "p = (name, v)" by (cases p)
  from Cons.prems(1) obtain g where f: "f = Suc (Suc g)" and g: "length ps < Suc g"
    by (cases f; cases "f - 1") auto
  from Cons.prems p have name: "name \<noteq> []" "length name < 2 ^ 16" and v: "amf_scalar v"
    by (auto simp: amf_prop_ok_def)
  from Cons.prems(2) have ok: "list_all amf_prop_ok ps" by simp
  from Cons.prems(3) p have fresh: "map_put name v acc = acc @ [(name, v)]"
    by (intro map_put_fresh) auto
  have IH: "amf_readProps (Suc g) ty (acc @ [(name, v)]) (writeProps ps @ be16 0 @ 0x09 # r)
      = Inr (AMFValue ty 0 False [] ((acc @ [(name, v)]) @ ps) [], r)"
    using Cons.prems(3) p g ok by (intro Cons.IH) auto
  show ?case
    using name v fresh IH
    by (simp add: f p readString_written readValue_scalar del: amf_readValue.simps)
qed

lemma length_writeProps: "length ps \<le> length (writeProps ps)"
  by (induction ps rule: writeProps.induct) auto

lemma readValue_written:
  assumes "amf_written v b" and f: "2 * length (b @ r) \<le> f"
  shows "amf_readValue (Suc f) (b @ r) = Inr (v, r)"
  using assms(1)
proof cases
  case scalar
  then show ?thesis by (simp only: readValue_scalar)
next
  case (object ps)
  have "amf_readProps f AMFTypeObject [] (writeProps ps @ be16 0 @ 0x09 # r)
      = Inr (VObject ([] @ ps), r)"
    using object f length_writeProps [of ps]
    by (intro readProps_written) (auto simp: amf_props_ok_def WriteObject_def)
  then show ?thesis by (simp add: object WriteObject_def)
next
  case (ecma ps)
  have "amf_readProps f AMFTypeEcmaArray [] (writeProps ps @ be16 0 @ 0x09 # r)
      = Inr (VEcmaArray ([] @ ps), r)"
    using ecma f length_writeProps [of ps]
    by (intro readProps_written) (auto simp: amf_props_ok_def WriteEcmaArray_def)
  then show ?thesis by (simp add: ecma WriteEcmaArray_def readUint32_be32)
qed

lemma written_nonempty: "amf_written v b \<Longrightarrow> Suc 0 \<le> length b"
  by (cases rule: amf_written.cases)
     (auto simp: writeValue_def WriteObject_def WriteEcmaArray_def WriteNumber_def
       WriteBoolean_def WriteString_def WriteNull_def split: if_splits)

lemma decode_loop_written:
  assumes "list_all2 amf_written vs bs" "length bs < f"
  shows "decode_loop f acc (concat bs) = (acc @ vs, None)"
  using assms
proof (induction vs bs arbitrary: f acc rule: list_all2_induct)
  case Nil
  then show ?case by (cases f) auto
next
  case (Cons v vs b bs)
  then obtain g where "f = Suc g" by (cases f) auto
  moreover have "amf_readValue (2 * length (concat (b # bs)) + 1) (concat (b # bs))
      = Inr (v, concat bs)"
    using readValue_written [OF Cons.hyps(1), of "concat bs"] by simp
  ultimately show ?case
    using Cons.IH [of g "acc @ [v]"] Cons.prems written_nonempty [OF Cons.hyps(1)]
    by (auto simp del: amf_readValue.simps)
qed

lemma length_concat_nonempty:
  "list_all2 amf_written vs bs \<Longrightarrow> length bs \<le> length (concat bs)"
  by (induction rule: list_all2_induct) (fastforce dest: written_nonempty)+

lemma DecodeAMF0_concat:
  assumes "list_all2 amf_written vs bs"
  shows "DecodeAMF0 (concat bs) = (vs, None)"
  using decode_loop_written [OF assms, of "length (concat bs) + 1" "[]"]
    length_concat_nonempty [OF assms]
  by (simp add: DecodeAMF0_def)

text \<open>
  C6. Decoding inverts encoding: whatever sequence of scalars, objects and arrays the writer
  emits, \<open>DecodeAMF0\<close> returns exactly these values, in order and without error.
\<close>

theorem DecodeAMF0_written:
  assumes "list_all2 amf_written vs bs"
  shows "DecodeAMF0 (concat bs) = (vs, None)"
  by (rule DecodeAMF0_concat [OF assms])

theorem DecodeAMF0_written_witness:
  "DecodeAMF0 (concat [WriteString (lit ''_result''), WriteNumber 0x3FF0000000000000,
      WriteObject ConnectResultProps, WriteObject ConnectResultInfo])
   = ([VString (lit ''_result''), VNumber 0x3FF0000000000000,
       VObject ConnectResultProps, VObject ConnectResultInfo], None)"
proof (rule DecodeAMF0_written, intro list_all2_Cons [THEN iffD2] conjI list.rel_intros(1))
  have "amf_written (VString (lit ''_result'')) (writeValue (VString (lit ''_result'')))"
    by (rule scalar) (simp add: amf_scalar_def)
  then show "amf_written (VString (lit ''_result'')) (WriteString (lit ''_result''))"
    by (simp add: writeValue_def)
  have "amf_written (VNumber 0x3FF0000000000000) (writeValue (VNumber 0x3FF0000000000000))"
    by (rule scalar) (simp add: amf_scalar_def)
  then show "amf_written (VNumber 0x3FF0000000000000) (WriteNumber 0x3FF0000000000000)"
    by (simp add: writeValue_def)
  show "amf_written (VObject ConnectResultProps) (WriteObject ConnectResultProps)"
    by (rule object) (simp add: amf_props_ok_def amf_prop_ok_def amf_scalar_def
        ConnectResultProps_def lit_def)
  show "amf_written (VObject ConnectResultInfo) (WriteObject ConnectResultInfo)"
    by (rule object) (simp add: amf_props_ok_def amf_prop_ok_def amf_scalar_def
        ConnectResultInfo_def lit_def)
qed

section \<open>Decoding ends on every input\<close>

text \<open>
  \<open>fine n m\<close>: the step does not run out of fuel and, where it succeeds, leaves fewer than
  \<open>n\<close> bytes. One introduction rule per construct of the reader.
\<close>

definition fine :: "nat \<Rightarrow> amf_error + 'a \<times> bytes \<Rightarrow> bool" where
  "fine n m \<longleftrightarrow> m \<noteq> Inl OutOfFuel \<and> (\<forall>x r. m = Inr (x, r) \<longrightarrow> length r < n)"

lemma fine_Inl: "e \<noteq> OutOfFuel \<Longrightarrow> fine n (Inl e)"
  by (simp add: fine_def)

lemma fine_Inr: "length r < n \<Longrightarrow> fine n (Inr (x, r))"
  by (simp add: fine_def)

lemma fine_if: "(c \<Longrightarrow> fine n a) \<Longrightarrow> (\<not> c \<Longrightarrow> fine n b) \<Longrightarrow> fine n (if c then a else b)"
  by simp

lemma fine_and_then:
  "fine n m \<Longrightarrow> (\<And>x r. length r < n \<Longrightarrow> fine k (f x r)) \<Longrightarrow>
   fine k (and_then m (\<lambda>(x, r). f x r))"
  by (cases m) (auto simp: fine_def)

lemma fine_mono: "fine n m \<Longrightarrow> n \<le> k \<Longrightarrow> fine k m"
  by (auto simp: fine_def)

lemma fine_readByte: "fine (length r) (amf_readByte r)"
  by (cases r) (auto simp: fine_def)

lemma fine_readBytes: "fine (Suc (length r) - n) (amf_readBytes n r)"
  by (auto simp: fine_def amf_readBytes_def)

lemma fine_readUint16: "fine (length r - 1) (amf_readUint16 r)"
  by (auto simp: fine_def amf_readUint16_def amf_readBytes_def)

lemma fine_readUint32: "fine (length r - 3) (amf_readUint32 r)"
  by (auto simp: fine_def amf_readUint32_def amf_readBytes_def)

lemma fine_readFloat64: "fine (length r - 7) (amf_readFloat64 r)"
  by (auto simp: fine_def amf_readFloat64_def amf_readBytes_def)

lemma fine_readString: "fine (length r - 1) (amf_readString r)"
  unfolding amf_readString_def
  by (rule fine_and_then [OF fine_readUint16], simp, rule fine_mono [OF fine_readBytes], arith)

lemmas fine_steps = fine_if
  fine_and_then [OF fine_readByte] fine_and_then [OF fine_readBytes]
  fine_and_then [OF fine_readUint16] fine_and_then [OF fine_readUint32]
  fine_and_then [OF fine_readFloat64] fine_and_then [OF fine_readString]

lemma fine_read_all:
  "(\<forall>r. 2 * length r < f \<longrightarrow> fine (length r) (amf_readValue f r)) \<and>
   (\<forall>ty obj r. 2 * length r < f \<longrightarrow> fine (length r) (amf_readProps f ty obj r)) \<and>
   (\<forall>k arr r. 2 * length r + 1 < f \<longrightarrow> fine (Suc (length r)) (amf_readStrict f k arr r))"
proof (induction f)
  case 0
  then show ?case by simp
next
  case (Suc f)
  then have V: "\<And>r. 2 * length r < f \<Longrightarrow> fine (length r) (amf_readValue f r)"
    and P: "\<And>ty obj r n. 2 * length r < f \<Longrightarrow> length r \<le> n \<Longrightarrow> fine n (amf_readProps f ty obj r)"
    and S: "\<And>k arr r n. 2 * length r + 1 < f \<Longrightarrow> length r < n \<Longrightarrow> fine n (amf_readStrict f k arr r)"
    by (blast, blast intro: fine_mono, meson fine_mono Suc_leI)
  have "fine (length r) (amf_readValue (Suc f) r)" if "2 * length r < Suc f" for r
    unfolding amf_readValue.simps
    by (intro fine_steps) (use that in \<open>auto intro!: fine_Inr fine_Inl P S\<close>)
  moreover have "fine (length r) (amf_readProps (Suc f) ty obj r)" if "2 * length r < Suc f" for ty obj r
    unfolding amf_readProps.simps
    by (intro fine_steps fine_and_then [OF V])
       (use that in \<open>auto intro!: fine_Inr fine_Inl P\<close>)
  moreover have "fine (Suc (length r)) (amf_readStrict (Suc f) k arr r)"
    if "2 * length r + 1 < Suc f" for k arr r
  proof (cases k)
    case 0
    then show ?thesis by (simp add: fine_Inr)
  next
    case (Suc j)
    then show ?thesis
      using that by (auto intro!: fine_and_then [OF V] S)
  qed
  ultimately show ?case by blast
qed

lemma readValue_total:
  "2 * length r < f \<Longrightarrow> amf_readValue f r \<noteq> Inl OutOfFuel"
  "2 * length r < f \<Longrightarrow> amf_readValue f r = Inr (v, r') \<Longrightarrow> length r' < length r"
  using fine_read_all [of f] by (auto simp: fine_def)

lemma decode_loop_total:
  "length r < f \<Longrightarrow> snd (decode_loop f acc r) \<noteq> Some OutOfFuel"
proof (induction f arbitrary: acc r)
  case 0
  then show ?case by simp
next
  case (Suc f)
  show ?case
  proof (cases "amf_readValue (2 * length r + 1) r")
    case (Inl e)
    with readValue_total(1) [of r "2 * length r + 1"] show ?thesis by auto
  next
    case (Inr p)
    obtain v r' where p: "p = (v, r')" by (cases p)
    with Inr readValue_total(2) [of r "2 * length r + 1" v r'] have "length r' < length r" by simp
    with Suc.prems have "snd (decode_loop f (acc @ [v]) r') \<noteq> Some OutOfFuel"
      by (intro Suc.IH) simp
    with Inr p show ?thesis by simp
  qed
qed

text \<open>
  C25. \<open>DecodeAMF0\<close> returns on every byte string: the nesting of objects and arrays and the
  element counts on the wire never exhaust the fuel the model gives it, so a failed decode
  is one of the decoder's own errors (truncated input, unknown marker, bad object end).
\<close>

theorem DecodeAMF0_total:
  "case snd (DecodeAMF0 buf) of
     None \<Rightarrow> True
   | Some e \<Rightarrow> e = UnexpectedEOF \<or> (\<exists>m. e = UnsupportedMarker m) \<or> (\<exists>m. e = ExpectedObjectEnd m)"
proof -
  have "snd (DecodeAMF0 buf) \<noteq> Some OutOfFuel"
    unfolding DecodeAMF0_def by (rule decode_loop_total) simp
  then show ?thesis
    by (cases "snd (DecodeAMF0 buf)") (auto, metis amf_error.exhaust)
qed

section \<open>Decoded values are typed\<close>

text \<open>\<open>yields Q m\<close>: where the step succeeds, its result satisfies \<open>Q\<close>.\<close>

definition yields :: "('a \<Rightarrow> bool) \<Rightarrow> amf_error + 'a \<times> bytes \<Rightarrow> bool" where
  "yields Q m \<longleftrightarrow> (\<forall>x r. m = Inr (x, r) \<longrightarrow> Q x)"

lemma yields_result: "yields Q (Inl e)" "Q x \<Longrightarrow> yields Q (Inr (x, r))"
  by (simp_all add: yields_def)

lemma yields_if: "(c \<Longrightarrow> yields Q a) \<Longrightarrow> (\<not> c \<Longrightarrow> yields Q b) \<Longrightarrow> yields Q (if c then a else b)"
  by simp

lemma yields_and_then:
  "yields P m \<Longrightarrow> (\<And>x r. P x \<Longrightarrow> yields Q (f x r)) \<Longrightarrow> yields Q (and_then m (\<lambda>(x, r). f x r))"
  by (cases m) (fastforce simp: yields_def)+

lemma yields_any: "yields (\<lambda>_. True) m"
  by (simp add: yields_def)

lemma unat_bounds: "unat (m :: u16) < 2 ^ 16" "unat (n :: u32) < 2 ^ 32"
  using unsigned_less [where ?'a = nat, of m] unsigned_less [where ?'a = nat, of n] by simp_all

lemma yields_readBytes32: "yields (\<lambda>b. length b < 2 ^ 32) (amf_readBytes (unat (n :: u32)) r)"
  using unat_bounds by (simp add: yields_def amf_readBytes_def)

lemma yields_readString: "yields (\<lambda>s. length s < 2 ^ 16) (amf_readString r)"
proof -
  have "yields (\<lambda>s. length s < 2 ^ 16) (amf_readBytes (unat n) r')" for n :: u16 and r'
    using unat_bounds by (simp add: yields_def amf_readBytes_def)
  then show ?thesis
    unfolding amf_readString_def by (rule yields_and_then [OF yields_any])
qed

lemmas yields_steps = yields_if yields_and_then [OF yields_any [where m = "amf_readByte r" for r]]
  yields_and_then [OF yields_any [where m = "amf_readUint16 r" for r]]
  yields_and_then [OF yields_any [where m = "amf_readUint32 r" for r]]
  yields_and_then [OF yields_any [where m = "amf_readFloat64 r" for r]]
  yields_and_then [OF yields_readString] yields_and_then [OF yields_readBytes32]

definition typed_props :: "(bytes \<times> AMFValue) list \<Rightarrow> bool" where
  "typed_props ps \<longleftrightarrow> distinct (map fst ps) \<and>
     (\<forall>p \<in> set ps. fst p \<noteq> [] \<and> length (fst p) < 2 ^ 16 \<and> amf_typed (snd p))"

lemma set_map_put: "set (map_put k v ps) \<subseteq> insert (k, v) (set ps)"
  by (induction ps) (auto split: if_splits)

lemma distinct_map_put: "distinct (map fst ps) \<Longrightarrow> distinct (map fst (map_put k v ps))"
proof (induction ps)
  case (Cons p ps)
  have "fst ` set (map_put k v ps) \<subseteq> insert k (fst ` set ps)" using set_map_put [of k v ps] by force
  with Cons show ?case by (cases p) auto
qed simp

lemma typed_map_put:
  "typed_props ps \<Longrightarrow> k \<noteq> [] \<Longrightarrow> length k < 2 ^ 16 \<Longrightarrow> amf_typed v \<Longrightarrow> typed_props (map_put k v ps)"
  using set_map_put [of k v ps] distinct_map_put [of ps k v] unfolding typed_props_def by fastforce

lemma typed_read_all:
  "(\<forall>r. yields amf_typed (amf_readValue f r)) \<and>
   (\<forall>ty obj r. (ty = AMFTypeObject \<or> ty = AMFTypeEcmaArray) \<longrightarrow> typed_props obj \<longrightarrow>
      yields amf_typed (amf_readProps f ty obj r)) \<and>
   (\<forall>k arr r. list_all amf_typed arr \<longrightarrow> yields amf_typed (amf_readStrict f k arr r))"
proof (induction f)
  case 0
  then show ?case by (simp add: yields_result)
next
  case (Suc f)
  then have V: "\<And>r. yields amf_typed (amf_readValue f r)"
    and P: "\<And>ty obj r. ty = AMFTypeObject \<or> ty = AMFTypeEcmaArray \<Longrightarrow> typed_props obj \<Longrightarrow>
      yields amf_typed (amf_readProps f ty obj r)"
    and S: "\<And>k arr r. list_all amf_typed arr \<Longrightarrow> yields amf_typed (amf_readStrict f k arr r)"
    by blast+
  have "yields amf_typed (amf_readValue (Suc f) r)" for r
    unfolding amf_readValue.simps
    by (intro yields_steps)
      (auto intro!: yields_result P S amf_typed.intros(1-4) amf_typed.boolean [simplified]
        simp: typed_props_def)
  moreover have "yields amf_typed (amf_readProps (Suc f) ty obj r)"
    if "ty = AMFTypeObject \<or> ty = AMFTypeEcmaArray" "typed_props obj" for ty obj r
    unfolding amf_readProps.simps
    by (intro yields_steps yields_and_then [OF V])
      (use that in \<open>auto intro!: yields_result P typed_map_put amf_typed.props simp: typed_props_def\<close>)
  moreover have "yields amf_typed (amf_readStrict (Suc f) k arr r)" if "list_all amf_typed arr" for k arr r
    using that by (cases k) (auto intro!: yields_result amf_typed.strict yields_and_then [OF V] S simp: list_all_iff)
  ultimately show ?case by blast
qed

lemma decode_loop_typed:
  "list_all amf_typed acc \<Longrightarrow> list_all amf_typed (fst (decode_loop f acc r))"
proof (induction f arbitrary: acc r)
  case (Suc f)
  have "yields amf_typed (amf_readValue (2 * length r + 1) r)" using typed_read_all by blast
  with Suc show ?case
    by (auto simp: yields_def simp del: amf_readValue.simps split: sum.splits)
qed simp

text \<open>
  C23. Every value \<open>DecodeAMF0\<close> returns, on any input and also in front of an error, is typed: a
  handler that asks a value for its string, number or properties finds the field that belongs to
  the type and never a stale one, and the names of decoded properties are distinct, at every depth.
\<close>

theorem DecodeAMF0_typed: "list_all amf_typed (fst (DecodeAMF0 buf))"
  unfolding DecodeAMF0_def by (rule decode_loop_typed) simp

end
