(* ===== verification/RtmpChunk.thy ===== *)
theory RtmpChunk
  imports Prelude
begin

text \<open>
  The RTMP chunk stream (\<open>pkg/protocol/rtmp/chunk.go\<close>) and the server handshake
  (\<open>handshake.go\<close>). \<open>chunkReader\<close> is \<open>ChunkReader\<close> without its connection, which is passed as
  the bytes still to come; a writer's operations return the bytes they write. A read error
  ends the connection (\<open>Conn.Serve\<close> returns), so an error carries no state. The lemmas show
  that reading inverts writing for every chunk size, that reassembly never indexes outside
  its buffer and that it ends.
\<close>

section \<open>Messages and reassembly states\<close>

record message =
  msg_type :: u8
  msg_streamID :: u32
  msg_csid :: u32
  msg_timestamp :: u32
  msg_payload :: bytes

record chunkState =
  cs_timestamp :: u32
  cs_timestampDelta :: u32
  cs_hasDelta :: bool
  cs_msgType :: u8
  cs_msgLength :: u32
  cs_streamID :: u32
  cs_payload :: bytes
  cs_bytesRead :: nat
  cs_newMessage :: bool

record chunkReader =
  cr_chunkSize :: nat
  cr_states :: "u32 \<Rightarrow> chunkState option"

record chunkWriter =
  cw_chunkSize :: nat

datatype chunk_error =
    BasicHeaderEOF | MsgHeaderEOF u8 | ExtTimestampEOF u8 | NoPreviousHeader u8 | InvalidFmt u8
  | InvalidRemaining int | DataEOF | SlicePanic | ChunkFuel

definition empty_chunkState :: chunkState where
  "empty_chunkState =
     \<lparr>cs_timestamp = 0, cs_timestampDelta = 0, cs_hasDelta = False, cs_msgType = 0,
      cs_msgLength = 0, cs_streamID = 0, cs_payload = [], cs_bytesRead = 0, cs_newMessage = False\<rparr>"

definition NewChunkReader :: chunkReader where
  "NewChunkReader = \<lparr>cr_chunkSize = 128, cr_states = Map.empty\<rparr>"

definition NewChunkWriter :: chunkWriter where
  "NewChunkWriter = \<lparr>cw_chunkSize = 128\<rparr>"

definition SetReaderChunkSize :: "chunkReader \<Rightarrow> int \<Rightarrow> chunkReader" where
  "SetReaderChunkSize cr sz = (if sz > 0 then cr\<lparr>cr_chunkSize := nat sz\<rparr> else cr)"

definition SetWriterChunkSize :: "chunkWriter \<Rightarrow> int \<Rightarrow> chunkWriter" where
  "SetWriterChunkSize cw sz = (if sz > 0 then cw\<lparr>cw_chunkSize := nat sz\<rparr> else cw)"

definition getState :: "chunkReader \<Rightarrow> u32 \<Rightarrow> chunkState" where
  "getState cr csid = (case cr_states cr csid of Some st \<Rightarrow> st | None \<Rightarrow> empty_chunkState)"

section \<open>Reading\<close>

fun readByte :: "bytes \<Rightarrow> (u8 \<times> bytes) option" where
  "readByte [] = None"
| "readByte (b # s) = Some (b, s)"

definition readBasicHeader :: "bytes \<Rightarrow> (u8 \<times> u32 \<times> bytes) option" where
  "readBasicHeader s =
     (case readByte s of
        None \<Rightarrow> None
      | Some (b, s) \<Rightarrow>
          let fmt = drop_bit 6 b AND 0x03; csid = (ucast (b AND 0x3f) :: u32) in
          if csid = 0 then
            (case readByte s of
               None \<Rightarrow> None
             | Some (b2, s) \<Rightarrow> Some (fmt, ucast b2 + 64, s))
          else if csid = 1 then
            (case readByte s of
               None \<Rightarrow> None
             | Some (b2, s) \<Rightarrow>
                 (case readByte s of
                    None \<Rightarrow> None
                  | Some (b3, s) \<Rightarrow> Some (fmt, ucast b2 + push_bit 8 (ucast b3) + 64, s)))
          else Some (fmt, csid, s))"

text \<open>The extended timestamp of a header whose 24-bit field is all ones.\<close>

definition readExt :: "u8 \<Rightarrow> u32 \<Rightarrow> bytes \<Rightarrow> chunk_error + u32 \<times> bytes" where
  "readExt fmt ts s =
     (if ts = 0xFFFFFF then
        (case read_full 4 s of
           None \<Rightarrow> Inl (ExtTimestampEOF fmt)
         | Some (ext, s) \<Rightarrow> Inr (u32_at ext 0, s))
      else Inr (ts, s))"

text \<open>The timestamp rule shared by the cases 1 and 2 of the header switch.\<close>

definition addDelta :: "u32 \<Rightarrow> chunkState \<Rightarrow> chunkState" where
  "addDelta delta st =
     (if cs_newMessage st then st\<lparr>cs_timestampDelta := delta, cs_timestamp := delta\<rparr>
      else st\<lparr>cs_timestamp := cs_timestamp st + delta\<rparr>)\<lparr>cs_hasDelta := True\<rparr>"

definition readHeader0 :: "chunkState \<Rightarrow> bytes \<Rightarrow> chunk_error + chunkState \<times> bytes" where
  "readHeader0 st s =
     (case read_full 11 s of
        None \<Rightarrow> Inl (MsgHeaderEOF 0)
      | Some (hdr, s) \<Rightarrow>
          let ts = join24 (hdr ! 0) (hdr ! 1) (hdr ! 2);
              len = join24 (hdr ! 3) (hdr ! 4) (hdr ! 5) in
          and_then (readExt 0 ts s) (\<lambda>(ts, s).
            Inr (st\<lparr>cs_timestamp := ts, cs_timestampDelta := 0, cs_hasDelta := False,
                   cs_msgType := hdr ! 6, cs_msgLength := len,
                   cs_streamID := join32 (hdr ! 10) (hdr ! 9) (hdr ! 8) (hdr ! 7),
                   cs_payload := replicate (unat len) 0, cs_bytesRead := 0,
                   cs_newMessage := True\<rparr>, s)))"

definition readHeader1 :: "chunkState \<Rightarrow> bytes \<Rightarrow> chunk_error + chunkState \<times> bytes" where
  "readHeader1 st s =
     (case read_full 7 s of
        None \<Rightarrow> Inl (MsgHeaderEOF 1)
      | Some (hdr, s) \<Rightarrow>
          let delta = join24 (hdr ! 0) (hdr ! 1) (hdr ! 2);
              len = join24 (hdr ! 3) (hdr ! 4) (hdr ! 5) in
          and_then (readExt 1 delta s) (\<lambda>(delta, s).
            Inr ((addDelta delta st)
                  \<lparr>cs_msgType := hdr ! 6, cs_msgLength := len,
                   cs_payload := replicate (unat len) 0, cs_bytesRead := 0,
                   cs_newMessage := True\<rparr>, s)))"

definition readHeader2 :: "chunkState \<Rightarrow> bytes \<Rightarrow> chunk_error + chunkState \<times> bytes" where
  "readHeader2 st s =
     (case read_full 3 s of
        None \<Rightarrow> Inl (MsgHeaderEOF 2)
      | Some (hdr, s) \<Rightarrow>
          let delta = join24 (hdr ! 0) (hdr ! 1) (hdr ! 2) in
          and_then (readExt 2 delta s) (\<lambda>(delta, s).
            let st = addDelta delta st in
            if cs_msgLength st = 0 then Inl (NoPreviousHeader 2)
            else Inr (st\<lparr>cs_payload := replicate (unat (cs_msgLength st)) 0,
                        cs_bytesRead := 0, cs_newMessage := True\<rparr>, s)))"

definition readHeader3 :: "chunkState \<Rightarrow> bytes \<Rightarrow> chunk_error + chunkState \<times> bytes" where
  "readHeader3 st s =
     and_then
       (if cs_hasDelta st \<and> cs_timestampDelta st = 0xFFFFFF then
          (case read_full 4 s of
             None \<Rightarrow> Inl (ExtTimestampEOF 3)
           | Some (_, s) \<Rightarrow> Inr s)
        else Inr s)
       (\<lambda>s. if cs_msgLength st = 0 then Inl (NoPreviousHeader 3) else Inr (st, s))"

definition readMessageHeader :: "u8 \<Rightarrow> chunkState \<Rightarrow> bytes \<Rightarrow> chunk_error + chunkState \<times> bytes" where
  "readMessageHeader fmt st s =
     (if fmt = 0 then readHeader0 st s
      else if fmt = 1 then readHeader1 st s
      else if fmt = 2 then readHeader2 st s
      else if fmt = 3 then readHeader3 st s
      else Inl (InvalidFmt fmt))"

text \<open>
  Step 3 of the loop: the data of one chunk goes to
  \<open>st.payload[st.bytesRead : st.bytesRead+toRead]\<close>.
\<close>

definition readChunkData :: "nat \<Rightarrow> chunkState \<Rightarrow> bytes \<Rightarrow> chunk_error + chunkState \<times> bytes" where
  "readChunkData chunkSize st s =
     (let remaining = int (unat (cs_msgLength st)) - int (cs_bytesRead st) in
      if remaining \<le> 0 then Inl (InvalidRemaining remaining)
      else
        let toRead = (if remaining > int chunkSize then chunkSize else nat remaining) in
        if cs_bytesRead st + toRead > length (cs_payload st) then Inl SlicePanic
        else
          (case read_full toRead s of
             None \<Rightarrow> Inl DataEOF
           | Some (d, s) \<Rightarrow>
               Inr (st\<lparr>cs_payload := take (cs_bytesRead st) (cs_payload st) @ d @
                                    drop (cs_bytesRead st + toRead) (cs_payload st),
                      cs_bytesRead := cs_bytesRead st + toRead\<rparr>, s)))"

definition stateMessage :: "u32 \<Rightarrow> chunkState \<Rightarrow> message" where
  "stateMessage csid st =
     \<lparr>msg_type = cs_msgType st, msg_streamID = cs_streamID st, msg_csid = csid,
      msg_timestamp = cs_timestamp st, msg_payload = cs_payload st\<rparr>"

text \<open>One iteration of the loop: a chunk read into the state of its chunk stream.\<close>

definition readChunk :: "chunkReader \<Rightarrow> bytes \<Rightarrow> chunk_error + u32 \<times> chunkState \<times> bytes" where
  "readChunk cr s =
     (case readBasicHeader s of
        None \<Rightarrow> Inl BasicHeaderEOF
      | Some (fmt, csid, s) \<Rightarrow>
          and_then (readMessageHeader fmt (getState cr csid) s) (\<lambda>(st, s).
          and_then (readChunkData (cr_chunkSize cr) st s) (\<lambda>(st, s). Inr (csid, st, s))))"

fun ReadMessage_loop ::
  "nat \<Rightarrow> chunkReader \<Rightarrow> bytes \<Rightarrow> chunk_error + message \<times> chunkReader \<times> bytes" where
  "ReadMessage_loop 0 cr s = Inl ChunkFuel"
| "ReadMessage_loop (Suc f) cr s =
     and_then (readChunk cr s) (\<lambda>(csid, st, s).
       if cs_bytesRead st \<ge> unat (cs_msgLength st) then
         Inr (stateMessage csid st,
              cr\<lparr>cr_states := (cr_states cr)(csid \<mapsto> st\<lparr>cs_newMessage := False\<rparr>)\<rparr>, s)
       else ReadMessage_loop f (cr\<lparr>cr_states := (cr_states cr)(csid \<mapsto> st)\<rparr>) s)"

definition ReadMessage :: "chunkReader \<Rightarrow> bytes \<Rightarrow> chunk_error + message \<times> chunkReader \<times> bytes" where
  "ReadMessage cr s = ReadMessage_loop (length s + 1) cr s"

section \<open>Writing\<close>

definition buildBasicHeader :: "u32 \<Rightarrow> u32 \<Rightarrow> bytes" where
  "buildBasicHeader fmt csid =
     (if csid < 64 then [ucast (push_bit 6 fmt) OR ucast csid]
      else if csid < 320 then [ucast (push_bit 6 fmt) OR 0, ucast (csid - 64)]
      else let c = csid - 64 in
        [ucast (push_bit 6 fmt) OR 1, ucast (c AND 0xff), ucast (drop_bit 8 c)])"

definition be24 :: "u32 \<Rightarrow> bytes" where
  "be24 v = [ucast (drop_bit 16 v), ucast (drop_bit 8 v), ucast v]"

text \<open>
  The loop that writes the continuation chunks. It ends because the chunk size is positive,
  which \<open>NewChunkWriter\<close> and \<open>SetChunkSize\<close> guarantee.
\<close>

function writeRest :: "nat \<Rightarrow> u32 \<Rightarrow> bool \<Rightarrow> u32 \<Rightarrow> bytes \<Rightarrow> nat \<Rightarrow> bytes" where
  "writeRest chunkSize csid extTs ts payload written =
     (if written < length payload \<and> 0 < chunkSize then
        let remaining = (if length payload - written > chunkSize then chunkSize
                         else length payload - written) in
        buildBasicHeader 3 csid @ (if extTs then be32 ts else []) @
        take remaining (drop written payload) @
        writeRest chunkSize csid extTs ts payload (written + remaining)
      else [])"
  by pat_completeness auto
termination
  by (relation "measure (\<lambda>(_, _, _, _, payload, written). length payload - written)") auto

declare writeRest.simps [simp del]

definition WriteMessage :: "chunkWriter \<Rightarrow> message \<Rightarrow> bytes" where
  "WriteMessage cw msg =
     (if length (msg_payload msg) = 0 then []
      else
        let csid = (if msg_csid msg = 0 then 3 else msg_csid msg);
            extTs = (msg_timestamp msg \<ge> 0xFFFFFF);
            ts = (if extTs then 0xFFFFFF else msg_timestamp msg);
            len = (of_nat (length (msg_payload msg)) :: u32);
            hdr = buildBasicHeader 0 csid @ be24 ts @ be24 len @ [msg_type msg] @
                  le32 (msg_streamID msg) @ (if extTs then be32 (msg_timestamp msg) else []);
            toWrite = (if length (msg_payload msg) > cw_chunkSize cw then cw_chunkSize cw
                       else length (msg_payload msg)) in
        hdr @ take toWrite (msg_payload msg) @
        writeRest (cw_chunkSize cw) csid extTs (msg_timestamp msg) (msg_payload msg) toWrite)"

section \<open>The server handshake\<close>

datatype hs_error = ReadC0 | UnsupportedVersion u8 | ReadC1 | ReadC2

text \<open>
  \<open>rnd\<close> is what \<open>rand.Read\<close> puts into \<open>s1[8:]\<close> and \<open>now\<close> the server's clock. The result is
  what was written, the error and the unread input.
\<close>

definition Handshake :: "bytes \<Rightarrow> u32 \<Rightarrow> bytes \<Rightarrow> bytes \<times> hs_error option \<times> bytes" where
  "Handshake rnd now s =
     (case read_full 1 s of
        None \<Rightarrow> ([], Some ReadC0, s)
      | Some (c0, s) \<Rightarrow>
          if c0 ! 0 \<noteq> 3 then ([], Some (UnsupportedVersion (c0 ! 0)), s)
          else
            (case read_full 1536 s of
               None \<Rightarrow> ([], Some ReadC1, s)
             | Some (c1, s) \<Rightarrow>
                 let s1 = be32 0 @ be32 0 @ rnd;
                     s2 = take 4 c1 @ be32 now @ drop 8 c1;
                     out = [3] @ s1 @ s2 in
                 (case read_full 1536 s of
                    None \<Rightarrow> (out, Some ReadC2, s)
                  | Some (_, s) \<Rightarrow> (out, None, s))))"

section \<open>Specification\<close>

text \<open>
  \<open>assembling p w st\<close>: the state holds the first \<open>w\<close> bytes of the payload \<open>p\<close>.
  \<open>writable\<close> says which messages the format carries: a length of 24 bits, a chunk stream id
  that a basic header can hold, and, where the extended timestamp is needed, one chunk only.
\<close>

definition assembling :: "bytes \<Rightarrow> nat \<Rightarrow> chunkState \<Rightarrow> bool" where
  "assembling p w st \<longleftrightarrow>
     cs_msgLength st = of_nat (length p) \<and> length p < 2 ^ 24 \<and> w \<le> length p \<and>
     cs_bytesRead st = w \<and> cs_payload st = take w p @ replicate (length p - w) 0"

definition filled :: "bytes \<Rightarrow> nat \<Rightarrow> chunkState \<Rightarrow> chunkState" where
  "filled p w st = st\<lparr>cs_payload := take w p @ replicate (length p - w) 0, cs_bytesRead := w\<rparr>"

abbreviation with_state :: "chunkReader \<Rightarrow> u32 \<Rightarrow> chunkState \<Rightarrow> chunkReader" where
  "with_state cr csid st \<equiv> cr\<lparr>cr_states := (cr_states cr)(csid \<mapsto> st)\<rparr>"

definition wire_csid :: "message \<Rightarrow> u32" where
  "wire_csid msg = (if msg_csid msg = 0 then 3 else msg_csid msg)"

definition writable :: "nat \<Rightarrow> message \<Rightarrow> bool" where
  "writable chunkSize msg \<longleftrightarrow>
     msg_payload msg \<noteq> [] \<and> length (msg_payload msg) < 2 ^ 24 \<and>
     msg_csid msg \<noteq> 1 \<and> msg_csid msg \<le> 65599 \<and>
     (msg_timestamp msg < 0xFFFFFF \<or> length (msg_payload msg) \<le> chunkSize)"

fun read_messages :: "nat \<Rightarrow> chunkReader \<Rightarrow> bytes \<Rightarrow> chunk_error + message list \<times> bytes" where
  "read_messages 0 cr s = Inr ([], s)"
| "read_messages (Suc n) cr s =
     and_then (ReadMessage cr s) (\<lambda>(msg, cr, s).
     and_then (read_messages n cr s) (\<lambda>(msgs, s). Inr (msg # msgs, s)))"

text \<open>The state of a chunk stream after the header of a type 0 chunk.\<close>

definition started :: "message \<Rightarrow> chunkState \<Rightarrow> chunkState" where
  "started msg st =
     st\<lparr>cs_timestamp := msg_timestamp msg, cs_timestampDelta := 0, cs_hasDelta := False,
        cs_msgType := msg_type msg, cs_msgLength := of_nat (length (msg_payload msg)),
        cs_streamID := msg_streamID msg, cs_payload := replicate (length (msg_payload msg)) 0,
        cs_bytesRead := 0, cs_newMessage := True\<rparr>"

definition first_header :: "message \<Rightarrow> bytes" where
  "first_header msg =
     be24 (if msg_timestamp msg \<ge> 0xFFFFFF then 0xFFFFFF else msg_timestamp msg) @
     be24 (of_nat (length (msg_payload msg))) @ [msg_type msg] @ le32 (msg_streamID msg) @
     (if msg_timestamp msg \<ge> 0xFFFFFF then be32 (msg_timestamp msg) else [])"

definition state_ok :: "chunkState \<Rightarrow> bool" where
  "state_ok st \<longleftrightarrow>
     length (cs_payload st) = unat (cs_msgLength st) \<and> cs_bytesRead st \<le> unat (cs_msgLength st)"

definition reader_ok :: "chunkReader \<Rightarrow> bool" where
  "reader_ok cr \<longleftrightarrow> (\<forall>csid st. cr_states cr csid = Some st \<longrightarrow> state_ok st)"

definition benign :: "chunk_error \<Rightarrow> bool" where
  "benign e \<longleftrightarrow> e \<noteq> SlicePanic \<and> e \<noteq> ChunkFuel \<and> (\<forall>f. e \<noteq> InvalidFmt f)"

text \<open>A step that keeps the state invariant, reads no byte twice and fails only in benign ways.\<close>

definition sound_step :: "bytes \<Rightarrow> chunk_error + chunkState \<times> bytes \<Rightarrow> bool" where
  "sound_step s res \<longleftrightarrow>
     (case res of Inl e \<Rightarrow> benign e | Inr (st, s') \<Rightarrow> state_ok st \<and> length s' \<le> length s)"

section \<open>Reading inverts writing\<close>

lemma header_byte:
  assumes "fmt < (4 :: u32)" "c < (64 :: u8)"
  shows "drop_bit 6 (ucast (push_bit 6 fmt) OR c) AND 3 = (ucast fmt :: u8)"
    and "(ucast (push_bit 6 fmt) OR c) AND 0x3f = c"
proof -
  have f: "bit fmt i \<Longrightarrow> i < 2" for i using bit_small [of fmt 2 i] assms by fastforce
  have c: "bit c i \<Longrightarrow> i < 6" for i using bit_small [of c 6 i] assms by fastforce
  have m: "(3::u8) = mask 2" "(0x3f :: u8) = mask 6" by (simp_all add: mask_eq_exp_minus_1)
  show "drop_bit 6 (ucast (push_bit 6 fmt) OR c) AND 3 = (ucast fmt :: u8)"
    unfolding m by (rule bit_word_eqI) (use f c in \<open>fastforce simp: bit_simps\<close>)
  show "(ucast (push_bit 6 fmt) OR c) AND 0x3f = c"
    unfolding m by (rule bit_word_eqI) (use f c in \<open>fastforce simp: bit_simps\<close>)
qed

lemma two_bytes_join:
  assumes "(d :: u32) < 65536"
  shows "(ucast (ucast (d AND 255) :: u8) :: u32) + push_bit 8 (ucast (ucast (drop_bit 8 d) :: u8)) = d"
proof -
  let ?lo = "ucast (ucast (d AND 255) :: u8) :: u32" and ?hi = "ucast (ucast (drop_bit 8 d) :: u8) :: u32"
  have b: "bit d i \<Longrightarrow> i < 16" for i using bit_small [of d 16 i] assms by fastforce
  have m: "(255::u32) = mask 8" by (simp add: mask_eq_exp_minus_1)
  have "?lo + push_bit 8 ?hi = ?lo OR push_bit 8 ?hi"
    by (rule disjunctive_add) (auto simp: bit_simps)
  also have "\<dots> = d"
    unfolding m by (rule bit_word_eqI) (auto simp: bit_simps dest: b)
  finally show ?thesis .
qed

lemma readBasicHeader_build:
  assumes f: "fmt < (4 :: u32)" and c: "2 \<le> csid" "csid \<le> 65599"
  shows "readBasicHeader (buildBasicHeader fmt csid @ s) = Some (ucast fmt, csid, s)"
proof -
  consider "csid < 64" | "64 \<le> csid" "csid < 320" | "320 \<le> csid" by fastforce
  then show ?thesis
  proof cases
    case 1
    then have u: "ucast (ucast csid :: u8) = csid" "(ucast csid :: u8) < 64"
      using ucast_u8_u32 [of csid] c
      by (simp_all add: word_less_nat_alt unsigned_ucast_eq take_bit_eq_mod unat_mod_distrib)
    moreover have "csid \<noteq> 0" "csid \<noteq> 1" using c by (auto simp: word_le_nat_alt)
    ultimately show ?thesis using 1
      by (simp add: buildBasicHeader_def readBasicHeader_def header_byte [OF f] Let_def
            del: drop_bit_or)
  next
    case 2
    then have "csid - 64 < 256"
      by (simp add: unat_word_ariths word_less_nat_alt word_le_nat_alt unat_sub)
    then have "(ucast (ucast (csid - 64) :: u8) :: u32) + 64 = csid"
      by (simp add: ucast_u8_u32)
    then show ?thesis using 2 header_byte [OF f, of 0]
      by (simp add: buildBasicHeader_def readBasicHeader_def Let_def leD)
  next
    case 3
    have "csid - 64 < 65536" using 3 c
      by (simp add: unat_word_ariths word_less_nat_alt word_le_nat_alt unat_sub)
    moreover have "\<not> csid < 64" using 3 by (auto simp: word_less_nat_alt word_le_nat_alt)
    ultimately show ?thesis using 3 two_bytes_join [of "csid - 64"] header_byte [OF f, of 1]
      by (simp add: buildBasicHeader_def readBasicHeader_def Let_def leD del: drop_bit_or)
  qed
qed

lemma length_be24 [byte_len, simp]: "length (be24 v) = 3"
  by (simp add: be24_def)

lemma readHeader0_written:
  assumes len: "len < 2 ^ 24"
  shows "readHeader0 st (be24 (if ts \<ge> 0xFFFFFF then 0xFFFFFF else ts) @ be24 len @ [ty] @ le32 sid @
            (if ts \<ge> 0xFFFFFF then be32 ts else []) @ s) =
         Inr (st\<lparr>cs_timestamp := ts, cs_timestampDelta := 0, cs_hasDelta := False,
                   cs_msgType := ty, cs_msgLength := len, cs_streamID := sid,
                   cs_payload := replicate (unat len) 0, cs_bytesRead := 0,
                   cs_newMessage := True\<rparr>, s)"
proof -
  let ?t = "if ts \<ge> 0xFFFFFF then 0xFFFFFF else ts"
  let ?hdr = "be24 ?t @ be24 len @ [ty] @ le32 sid"
  have "?t < 2 ^ 24" by (auto simp: word_less_nat_alt word_le_nat_alt)
  then have h: "join24 (?hdr ! 0) (?hdr ! 1) (?hdr ! 2) = ?t"
       "join24 (?hdr ! 3) (?hdr ! 4) (?hdr ! 5) = len" "?hdr ! 6 = ty"
       "join32 (?hdr ! 10) (?hdr ! 9) (?hdr ! 8) (?hdr ! 7) = sid"
    using join24_split [OF len] join24_split [of ?t]
    by (simp_all add: be24_def le32_def del: if_splits)
  have r: "read_full 11 (?hdr @ r) = Some (?hdr, r)" for r
    by (rule read_full_append) simp
  have e: "readExt 0 ?t ((if ts \<ge> 0xFFFFFF then be32 ts else []) @ s) = Inr (ts, s)"
    by (auto simp: readExt_def u32_at_def be32_def read_full_def)
  show ?thesis
    using r [of "(if ts \<ge> 0xFFFFFF then be32 ts else []) @ s"]
    unfolding readHeader0_def by (simp only: append_assoc option.case prod.case Let_def h e and_then.simps)
qed

lemma assembling_msgLength: "assembling p w st \<Longrightarrow> unat (cs_msgLength st) = length p"
  by (auto simp: assembling_def intro: unat_of_nat_small)

lemma assembling_filled: "assembling p w st \<Longrightarrow> v \<le> length p \<Longrightarrow> assembling p v (filled p v st)"
  by (auto simp: assembling_def filled_def)

lemma readChunkData_next:
  assumes a: "assembling p w st" and w: "w < length p" and n: "n = min cs (length p - w)"
  shows "readChunkData cs st (take n (drop w p) @ s) = Inr (filled p (w + n) st, s)"
proof -
  have len: "length (take n (drop w p)) = n" using n by simp
  have p: "take w (cs_payload st) @ take n (drop w p) @ drop (w + n) (cs_payload st) =
        take (w + n) p @ replicate (length p - (w + n)) 0"
  proof -
    have "cs_payload st = take w p @ replicate (length p - w) 0" "n \<le> length p - w"
      using a n by (auto simp: assembling_def)
    then show ?thesis using w by (simp add: take_add)
  qed
  have c: "cs_bytesRead st = w" "length (cs_payload st) = length p" "w + n \<le> length p"
    using a w n by (auto simp: assembling_def)
  have t: "(if int (length p) - int w > int cs then cs else nat (int (length p) - int w)) = n"
    using w n by auto
  have r: "\<not> int (length p) - int w \<le> 0" "\<not> w + n > length p" using w c(3) by auto
  show ?thesis
    unfolding readChunkData_def
    by (simp only: assembling_msgLength [OF a] Let_def t c(1,2) p r if_False
          read_full_append [OF len] option.case prod.case filled_def)
qed

lemma readChunk_step:
  assumes "readBasicHeader i = Some (fmt, csid, i1)"
    and "readMessageHeader fmt (getState cr csid) i1 = Inr (st, i2)"
    and "readChunkData (cr_chunkSize cr) st i2 = Inr (st', i3)"
  shows "readChunk cr i = Inr (csid, st', i3)"
  using assms by (simp add: readChunk_def)

lemma readMessageHeader_3:
  assumes "assembling p w st" "w < length p" "cs_timestampDelta st = 0"
  shows "readMessageHeader 3 st s = Inr (st, s)"
proof -
  have "cs_msgLength st \<noteq> 0" using assembling_msgLength [OF assms(1)] assms(2) by auto
  then show ?thesis using assms by (simp add: readMessageHeader_def readHeader3_def)
qed

lemma ReadMessage_loop_done:
  assumes "readChunk cr i = Inr (csid, filled p (length p) st, s)" "assembling p w st"
  shows "ReadMessage_loop (Suc f) cr i =
    Inr (stateMessage csid (st\<lparr>cs_payload := p\<rparr>),
         with_state cr csid (st\<lparr>cs_payload := p, cs_bytesRead := length p, cs_newMessage := False\<rparr>), s)"
  using assms(1) assembling_msgLength [OF assms(2)]
  by (simp add: filled_def stateMessage_def)

lemma ReadMessage_loop_more:
  assumes "readChunk cr i = Inr (csid, filled p w' st, s)" "assembling p w st" "w' < length p"
  shows "ReadMessage_loop (Suc f) cr i = ReadMessage_loop f (with_state cr csid (filled p w' st)) s"
  using assms(1,3) assembling_msgLength [OF assms(2)]
  by (simp add: filled_def)

lemma filled_filled [simp]: "filled p v (filled p w st) = filled p v st"
  by (simp add: filled_def)

text \<open>The chunk that the writer emits next is the one the reader expects next.\<close>

lemma readChunk_continuation:
  assumes "2 \<le> csid" "csid \<le> 65599" "assembling p w st" "w < length p"
    and "cs_timestampDelta st = 0" "cr_states cr csid = Some st"
    and "n = min (cr_chunkSize cr) (length p - w)"
  shows "readChunk cr (buildBasicHeader 3 csid @ take n (drop w p) @ s) =
           Inr (csid, filled p (w + n) st, s)"
proof (rule readChunk_step)
  have "(3 :: u32) < 4" by simp
  from readBasicHeader_build [OF this assms(1,2)]
  show "readBasicHeader (buildBasicHeader 3 csid @ take n (drop w p) @ s) =
      Some (3, csid, take n (drop w p) @ s)" by simp
  show "readMessageHeader 3 (getState cr csid) (take n (drop w p) @ s) =
      Inr (st, take n (drop w p) @ s)"
    using readMessageHeader_3 [OF assms(3-5)] assms(6) by (simp add: getState_def)
  show "readChunkData (cr_chunkSize cr) st (take n (drop w p) @ s) = Inr (filled p (w + n) st, s)"
    by (rule readChunkData_next [OF assms(3,4,7)])
qed

lemma ReadMessage_loop_writeRest:
  assumes c: "2 \<le> csid" "csid \<le> 65599" and "0 < cr_chunkSize cr"
    and "assembling p w st" "w < length p" "cs_timestampDelta st = 0"
    and "cr_states cr csid = Some st" "length p - w \<le> f"
  shows "ReadMessage_loop f cr (writeRest (cr_chunkSize cr) csid False ts p w @ s) =
    Inr (stateMessage csid (st\<lparr>cs_payload := p\<rparr>),
         with_state cr csid (st\<lparr>cs_payload := p, cs_bytesRead := length p, cs_newMessage := False\<rparr>), s)"
  using assms(3-)
proof (induction "length p - w" arbitrary: w f st cr rule: less_induct)
  case less
  define n where "n = min (cr_chunkSize cr) (length p - w)"
  obtain g where f: "f = Suc g" using less.prems by (cases f) auto
  have i: "writeRest (cr_chunkSize cr) csid False ts p w @ s =
      buildBasicHeader 3 csid @ take n (drop w p) @ writeRest (cr_chunkSize cr) csid False ts p (w + n) @ s"
  proof -
    have "(if length p - w > cr_chunkSize cr then cr_chunkSize cr else length p - w) = n"
      by (auto simp: n_def)
    then show ?thesis
      using less.prems(1,3) by (subst writeRest.simps) (simp add: Let_def)
  qed
  have r: "readChunk cr (writeRest (cr_chunkSize cr) csid False ts p w @ s) =
      Inr (csid, filled p (w + n) st, writeRest (cr_chunkSize cr) csid False ts p (w + n) @ s)"
    unfolding i by (rule readChunk_continuation [OF c less.prems(2-5) n_def])
  have n: "0 < n" "w + n \<le> length p" using less.prems by (auto simp: n_def)
  show ?case
  proof (cases "w + n = length p")
    case True
    have "writeRest (cr_chunkSize cr) csid False ts p (length p) = []"
      by (subst writeRest.simps) simp
    then show ?thesis using r True unfolding f
      by (intro ReadMessage_loop_done [OF _ less.prems(2)]) simp
  next
    case False
    with n have lt: "w + n < length p" by simp
    let ?st = "filled p (w + n) st"
    have "ReadMessage_loop g (with_state cr csid ?st)
        (writeRest (cr_chunkSize (with_state cr csid ?st)) csid False ts p (w + n) @ s) =
      Inr (stateMessage csid (?st\<lparr>cs_payload := p\<rparr>), with_state (with_state cr csid ?st) csid
        (?st\<lparr>cs_payload := p, cs_bytesRead := length p, cs_newMessage := False\<rparr>), s)"
      using less.prems n lt f
      by (intro less.hyps) (auto simp: assembling_filled, auto simp: filled_def)
    then show ?thesis
      unfolding f ReadMessage_loop_more [OF r less.prems(2) lt]
      by (simp add: filled_def stateMessage_def)
  qed
qed

lemma wire_csid_range:
  "msg_csid msg \<noteq> 1 \<Longrightarrow> msg_csid msg \<le> 65599 \<Longrightarrow> 2 \<le> wire_csid msg \<and> wire_csid msg \<le> 65599"
proof -
  assume a: "msg_csid msg \<noteq> 1" "msg_csid msg \<le> 65599"
  have "msg_csid msg \<noteq> 0 \<Longrightarrow> 2 \<le> msg_csid msg"
    using a by (simp add: word_le_nat_alt word_unat_eq_iff)
  then show ?thesis using a by (simp add: wire_csid_def)
qed

lemma assembling_started:
  "length (msg_payload msg) < 2 ^ 24 \<Longrightarrow> assembling (msg_payload msg) 0 (started msg st)"
  by (simp add: assembling_def started_def)

lemma WriteMessage_first:
  "msg_payload msg \<noteq> [] \<Longrightarrow> WriteMessage cw msg =
     buildBasicHeader 0 (wire_csid msg) @ first_header msg @
     take (min (cw_chunkSize cw) (length (msg_payload msg))) (msg_payload msg) @
     writeRest (cw_chunkSize cw) (wire_csid msg) (msg_timestamp msg \<ge> 0xFFFFFF) (msg_timestamp msg)
       (msg_payload msg) (min (cw_chunkSize cw) (length (msg_payload msg)))"
proof -
  assume "msg_payload msg \<noteq> []"
  moreover have "(if length (msg_payload msg) > cw_chunkSize cw then cw_chunkSize cw
      else length (msg_payload msg)) = min (cw_chunkSize cw) (length (msg_payload msg))" by auto
  ultimately show ?thesis
    unfolding WriteMessage_def Let_def
    by (simp only: append_assoc first_header_def wire_csid_def length_0_conv if_False)
qed

lemma length_writeRest:
  "0 < chunkSize \<Longrightarrow> length p - w \<le> length (writeRest chunkSize csid e ts p w)"
proof (induction "length p - w" arbitrary: w rule: less_induct)
  case less
  show ?case
  proof (cases "w < length p")
    case True
    let ?n = "if length p - w > chunkSize then chunkSize else length p - w"
    have "length p - (w + ?n) \<le> length (writeRest chunkSize csid e ts p (w + ?n))"
      using True less.prems by (intro less.hyps) auto
    then show ?thesis
      using True less.prems by (subst writeRest.simps) (auto simp: Let_def split: if_splits)
  qed simp
qed

lemma readChunk_first:
  assumes p: "length (msg_payload msg) < 2 ^ 24" "msg_payload msg \<noteq> []"
    and c: "msg_csid msg \<noteq> 1" "msg_csid msg \<le> 65599"
    and n: "n = min (cr_chunkSize cr) (length (msg_payload msg))"
  shows "readChunk cr (buildBasicHeader 0 (wire_csid msg) @ first_header msg @
             take n (msg_payload msg) @ s) =
         Inr (wire_csid msg, filled (msg_payload msg) n
                (started msg (getState cr (wire_csid msg))), s)"
proof (rule readChunk_step)
  let ?r = "take n (msg_payload msg) @ s"
  have "(0 :: u32) < 4" by simp
  from readBasicHeader_build [OF this] wire_csid_range [OF c]
  show "readBasicHeader (buildBasicHeader 0 (wire_csid msg) @ first_header msg @ ?r) =
      Some (0, wire_csid msg, first_header msg @ ?r)" by simp
  have l: "unat (of_nat (length (msg_payload msg)) :: u32) = length (msg_payload msg)"
    using p by (intro unat_of_nat_small) simp
  then have "of_nat (length (msg_payload msg)) < (2 ^ 24 :: u32)"
    using p by (simp add: word_less_nat_alt)
  from readHeader0_written [OF this]
  show "readMessageHeader 0 (getState cr (wire_csid msg)) (first_header msg @ ?r) =
      Inr (started msg (getState cr (wire_csid msg)), ?r)"
    by (simp add: readMessageHeader_def first_header_def started_def l)
  show "readChunkData (cr_chunkSize cr) (started msg (getState cr (wire_csid msg))) ?r =
      Inr (filled (msg_payload msg) n (started msg (getState cr (wire_csid msg))), s)"
    using readChunkData_next [OF assembling_started [OF p(1)], of n "cr_chunkSize cr"] p n by simp
qed

lemma ReadMessage_WriteMessage:
  assumes w: "writable (cr_chunkSize cr) msg" and cs: "0 < cr_chunkSize cr" "cw_chunkSize cw = cr_chunkSize cr"
  shows "\<exists>st. ReadMessage cr (WriteMessage cw msg @ s) =
           Inr (msg\<lparr>msg_csid := wire_csid msg\<rparr>, with_state cr (wire_csid msg) st, s)"
proof -
  let ?p = "msg_payload msg" and ?n = "min (cr_chunkSize cr) (length (msg_payload msg))"
    and ?c = "wire_csid msg" and ?st = "started msg (getState cr (wire_csid msg))"
  have p: "length ?p < 2 ^ 24" "?p \<noteq> []" and c: "msg_csid msg \<noteq> 1" "msg_csid msg \<le> 65599"
    using w by (auto simp: writable_def)
  let ?ext = "msg_timestamp msg \<ge> 0xFFFFFF"
  let ?rest = "writeRest (cr_chunkSize cr) ?c ?ext (msg_timestamp msg) ?p ?n"
  define i where "i = WriteMessage cw msg @ s"
  have i: "i = buildBasicHeader 0 ?c @ first_header msg @ take ?n ?p @ ?rest @ s"
    unfolding i_def WriteMessage_first [OF p(2)] by (simp add: cs(2))
  have r: "readChunk cr i = Inr (?c, filled ?p ?n ?st, ?rest @ s)"
    unfolding i by (rule readChunk_first [OF p c refl])
  have msg: "stateMessage ?c (st\<lparr>cs_payload := ?p\<rparr>) = msg\<lparr>msg_csid := ?c\<rparr>"
    if "cs_timestamp st = cs_timestamp ?st" "cs_msgType st = cs_msgType ?st" "cs_streamID st = cs_streamID ?st" for st
    using that by (simp add: stateMessage_def started_def)
  show ?thesis
  proof (cases "length ?p \<le> cr_chunkSize cr")
    case True
    then have n: "?n = length ?p" by simp
    have "?rest = []" unfolding n by (subst writeRest.simps) simp
    with r n have "readChunk cr i = Inr (?c, filled ?p (length ?p) ?st, s)" by simp
    from ReadMessage_loop_done [OF this assembling_started [OF p(1)]] msg [of ?st]
    show ?thesis unfolding ReadMessage_def i_def [symmetric] by auto
  next
    case False
    then have ext: "\<not> ?ext" and n: "?n < length ?p" using w by (auto simp: writable_def)
    let ?st' = "filled ?p ?n ?st"
    have a: "assembling ?p ?n ?st'"
      by (rule assembling_filled [OF assembling_started [OF p(1)]]) simp
    have len: "length ?p - ?n \<le> length i"
      using length_writeRest [OF cs(1), of ?p ?n ?c ?ext "msg_timestamp msg"] unfolding i length_append by linarith
    have "ReadMessage_loop (length i) (with_state cr ?c ?st')
        (writeRest (cr_chunkSize (with_state cr ?c ?st')) ?c False (msg_timestamp msg) ?p ?n @ s) =
      Inr (stateMessage ?c (?st'\<lparr>cs_payload := ?p\<rparr>), with_state (with_state cr ?c ?st') ?c
        (?st'\<lparr>cs_payload := ?p, cs_bytesRead := length ?p, cs_newMessage := False\<rparr>), s)"
      using wire_csid_range [OF c] cs(1) a n len
      by (intro ReadMessage_loop_writeRest) (auto simp: filled_def started_def)
    moreover have "ReadMessage_loop (length i + 1) cr i = ReadMessage_loop (length i) (with_state cr ?c ?st') (?rest @ s)"
      using ReadMessage_loop_more [OF r assembling_started [OF p(1)] n] by simp
    moreover have "stateMessage ?c (?st'\<lparr>cs_payload := ?p\<rparr>) = msg\<lparr>msg_csid := ?c\<rparr>"
      by (rule msg) (simp_all add: filled_def)
    ultimately show ?thesis using ext unfolding ReadMessage_def i_def [symmetric] by auto
  qed
qed

text \<open>
  C3. Reading inverts writing. Any sequence of writable messages, on any mix of chunk streams
  and whatever the reader saw before, is read back message by message when both sides use the
  same positive chunk size; nothing of what follows is consumed. Only the chunk stream id 0 is
  changed, to the default 3.
\<close>
theorem read_messages_written:
  assumes "0 < cr_chunkSize cr" "cw_chunkSize cw = cr_chunkSize cr"
    and "list_all (writable (cr_chunkSize cr)) msgs"
  shows "read_messages (length msgs) cr (concat (map (WriteMessage cw) msgs) @ s) =
           Inr (map (\<lambda>m. m\<lparr>msg_csid := wire_csid m\<rparr>) msgs, s)"
  using assms
proof (induction msgs arbitrary: cr)
  case (Cons m ms)
  then obtain st where "ReadMessage cr (WriteMessage cw m @ concat (map (WriteMessage cw) ms) @ s) =
      Inr (m\<lparr>msg_csid := wire_csid m\<rparr>, with_state cr (wire_csid m) st, concat (map (WriteMessage cw) ms) @ s)"
    using ReadMessage_WriteMessage by fastforce
  with Cons show ?case by simp
qed simp

theorem read_messages_written_witness:
  "read_messages (Suc (Suc 0)) NewChunkReader
     (concat (map (WriteMessage NewChunkWriter)
       [\<lparr>msg_type = 9, msg_streamID = 1, msg_csid = 400, msg_timestamp = 40,
         msg_payload = replicate 300 7\<rparr>,
        \<lparr>msg_type = 20, msg_streamID = 0, msg_csid = 0, msg_timestamp = 0xFFFFFFF,
         msg_payload = [1, 2]\<rparr>]) @ [5]) =
   Inr ([\<lparr>msg_type = 9, msg_streamID = 1, msg_csid = 400, msg_timestamp = 40,
          msg_payload = replicate 300 7\<rparr>,
         \<lparr>msg_type = 20, msg_streamID = 0, msg_csid = 3, msg_timestamp = 0xFFFFFFF,
          msg_payload = [1, 2]\<rparr>], [5])"
  using read_messages_written [of NewChunkReader NewChunkWriter
      "[\<lparr>msg_type = 9, msg_streamID = 1, msg_csid = 400, msg_timestamp = 40,
         msg_payload = replicate 300 7\<rparr>,
        \<lparr>msg_type = 20, msg_streamID = 0, msg_csid = 0, msg_timestamp = 0xFFFFFFF,
         msg_payload = [1, 2]\<rparr>]" "[5]"]
  by (simp add: NewChunkReader_def NewChunkWriter_def writable_def wire_csid_def
        del: read_messages.simps)

section \<open>Reassembly stays inside its buffer and ends\<close>

lemma reader_ok_New: "reader_ok NewChunkReader"
  by (simp add: reader_ok_def NewChunkReader_def)

lemma state_ok_getState: "reader_ok cr \<Longrightarrow> state_ok (getState cr csid)"
  by (auto simp: reader_ok_def getState_def state_ok_def empty_chunkState_def split: option.splits)

lemma reader_ok_update: "reader_ok cr \<Longrightarrow> state_ok st \<Longrightarrow> reader_ok (with_state cr csid st)"
  by (simp add: reader_ok_def)

lemma readExt_sound:
  "case readExt f ts s of Inl e \<Rightarrow> benign e | Inr (ts', s') \<Rightarrow> length s' \<le> length s"
  by (auto simp: readExt_def benign_def read_full_def)

lemma sound_step_ext:
  assumes "\<And>ts' s'. length s' \<le> length s \<Longrightarrow> sound_step s (g (ts', s'))"
  shows "sound_step s (and_then (readExt f ts s) g)"
  using readExt_sound [of s f ts] assms
  by (cases "readExt f ts s") (auto simp: sound_step_def)

lemma sound_step_read:
  assumes "benign e" "\<And>b s'. length s' \<le> length s \<Longrightarrow> sound_step s' (g b s')"
  shows "sound_step s (case read_full n s of None \<Rightarrow> Inl e | Some (b, s') \<Rightarrow> g b s')"
  using assms(1) assms(2) [of "drop n s" "take n s"]
  by (auto simp: sound_step_def read_full_def split: sum.splits)

lemma benign_header [simp]: "benign (MsgHeaderEOF f)" "benign (NoPreviousHeader f)"
  "benign (ExtTimestampEOF f)" "benign DataEOF" "benign BasicHeaderEOF" "benign (InvalidRemaining r)"
  by (simp_all add: benign_def)

lemma sound_headers:
  "sound_step s (readHeader0 st s)" "sound_step s (readHeader1 st s)" "sound_step s (readHeader2 st s)"
  unfolding readHeader0_def readHeader1_def readHeader2_def Let_def
  by (intro sound_step_read sound_step_ext, simp,
      simp add: sound_step_def state_ok_def split: prod.splits)+

lemma sound_header3: "state_ok st \<Longrightarrow> sound_step s (readHeader3 st s)"
  by (auto simp: readHeader3_def sound_step_def read_full_def)

lemma sound_readMessageHeader:
  "state_ok st \<Longrightarrow> fmt < 4 \<Longrightarrow> sound_step s (readMessageHeader fmt st s)"
proof -
  assume st: "state_ok st" and "fmt < 4"
  then have "unat fmt \<in> {0, 1, 2, 3}" by (auto simp: word_less_nat_alt)
  then have "fmt = 0 \<or> fmt = 1 \<or> fmt = 2 \<or> fmt = 3" by (auto simp: word_unat_eq_iff)
  then show ?thesis
    using sound_headers sound_header3 [OF st] by (auto simp: readMessageHeader_def)
qed

lemma sound_readChunkData: "state_ok st \<Longrightarrow> sound_step s (readChunkData n st s)"
proof -
  define l where "l = unat (cs_msgLength st)"
  assume "state_ok st"
  then show ?thesis
    by (auto simp: readChunkData_def sound_step_def state_ok_def Let_def read_full_def
          simp flip: l_def)
qed

lemma readBasicHeader_Some:
  "readBasicHeader s = Some (fmt, csid, s') \<Longrightarrow> fmt < 4 \<and> length s' < length s"
proof -
  have f: "drop_bit 6 b AND 3 < (4 :: u8)" for b :: u8
    using word_and_le1 [of "drop_bit 6 b" 3] by (auto simp: word_le_nat_alt word_less_nat_alt)
  assume "readBasicHeader s = Some (fmt, csid, s')"
  then show ?thesis using f
    by (cases s rule: readByte.cases; cases "tl s" rule: readByte.cases; cases "tl (tl s)" rule: readByte.cases)
       (auto simp: readBasicHeader_def Let_def split: if_splits)
qed

lemma readChunk_sound:
  assumes "reader_ok cr"
  shows "case readChunk cr s of
           Inl e \<Rightarrow> benign e
         | Inr (csid, st, s') \<Rightarrow> state_ok st \<and> length s' < length s"
proof (cases "readBasicHeader s")
  case (Some a)
  obtain fmt csid s1 where a: "a = (fmt, csid, s1)" by (cases a)
  have f: "fmt < 4" "length s1 < length s"
    using readBasicHeader_Some Some a by auto
  have h: "sound_step s1 (readMessageHeader fmt (getState cr csid) s1)"
    by (rule sound_readMessageHeader [OF state_ok_getState [OF assms] f(1)])
  show ?thesis
  proof (cases "readMessageHeader fmt (getState cr csid) s1")
    case (Inl e)
    then show ?thesis using h Some a by (simp add: readChunk_def sound_step_def)
  next
    case (Inr r)
    obtain st s2 where r: "r = (st, s2)" by (cases r)
    then have ok: "state_ok st" "length s2 \<le> length s1" using h Inr by (auto simp: sound_step_def)
    show ?thesis
      using sound_readChunkData [OF ok(1), of s2 "cr_chunkSize cr"] Some a Inr r ok(2) f(2)
      by (auto simp: readChunk_def sound_step_def split: sum.splits)
  qed
qed (simp add: readChunk_def)

lemma ReadMessage_loop_sound:
  "reader_ok cr \<Longrightarrow> length s < f \<Longrightarrow>
   case ReadMessage_loop f cr s of
     Inl e \<Rightarrow> benign e
   | Inr (msg, cr', s') \<Rightarrow> reader_ok cr' \<and> cr_chunkSize cr' = cr_chunkSize cr \<and> length s' < length s"
proof (induction f arbitrary: cr s)
  case (Suc f)
  show ?case
  proof (cases "readChunk cr s")
    case (Inl e)
    then show ?thesis using readChunk_sound [OF Suc.prems(1), of s] by simp
  next
    case (Inr r)
    obtain csid st s1 where r: "r = (csid, st, s1)" by (cases r)
    have st: "state_ok st" "length s1 < length s"
      using readChunk_sound [OF Suc.prems(1), of s] Inr r by auto
    have st': "state_ok (st\<lparr>cs_newMessage := False\<rparr>)" using st(1) by (simp add: state_ok_def)
    have "length s1 < f" using st(2) Suc.prems(2) by simp
    from Suc.IH [OF reader_ok_update [OF Suc.prems(1) st(1)] this, of csid] st(2)
    show ?thesis
      using Inr r st(2) reader_ok_update [OF Suc.prems(1) st', of csid]
      by (auto split: sum.splits)
  qed
qed simp

text \<open>
  C21. Reassembly is safe and ends. From a reader whose states are well formed (a buffer of the
  announced length, filled at most to its end), \<open>ReadMessage\<close> on any input never slices its
  buffer out of range, never reaches the invalid-fmt branch and never loops: it returns an
  error of the input, or a message after consuming input, with the invariant kept.
\<close>
theorem ReadMessage_sound:
  assumes "reader_ok cr"
  shows "case ReadMessage cr s of
           Inl e \<Rightarrow> e \<noteq> SlicePanic \<and> e \<noteq> ChunkFuel \<and> (\<forall>f. e \<noteq> InvalidFmt f)
         | Inr (msg, cr', s') \<Rightarrow>
             reader_ok cr' \<and> cr_chunkSize cr' = cr_chunkSize cr \<and> length s' < length s"
  using ReadMessage_loop_sound [OF assms, of s "length s + 1"]
  by (auto simp: ReadMessage_def benign_def split: sum.splits)

theorem ReadMessage_sound_witness:
  "reader_ok NewChunkReader \<and>
   (case ReadMessage NewChunkReader [2, 0, 0] of
      Inl e \<Rightarrow> e \<noteq> SlicePanic \<and> e \<noteq> ChunkFuel \<and> (\<forall>f. e \<noteq> InvalidFmt f)
    | Inr (msg, cr', s') \<Rightarrow>
        reader_ok cr' \<and> cr_chunkSize cr' = cr_chunkSize NewChunkReader \<and> length s' < length [2, 0, 0 :: u8])"
  by (rule conjI [OF reader_ok_New ReadMessage_sound [OF reader_ok_New]])

section \<open>Extended timestamps in continuation chunks\<close>

lemma writeRest_ext:
  assumes b: "b \<noteq> []" "length b \<le> chunkSize"
  shows "writeRest chunkSize csid True ts (a @ b) (length a) = buildBasicHeader 3 csid @ be32 ts @ b"
proof -
  have "writeRest chunkSize csid True ts (a @ b) (length (a @ b)) = []"
    by (subst writeRest.simps) simp
  moreover have "0 < chunkSize" using b by (cases b) auto
  ultimately show ?thesis using b by (subst writeRest.simps) (auto simp: Let_def)
qed



section \<open>The handshake\<close>

text \<open>
  C27. The server handshake succeeds exactly on a version byte 3 followed by the two client blocks
  of 1536 bytes each, consumes exactly those, and has then sent its version byte, its own block
  and an echo of the first client block in which bytes 4 to 7 are the server time.
\<close>
theorem Handshake_ok_iff:
  "Handshake rnd now s = (out, None, r) \<longleftrightarrow>
     (\<exists>c1 c2. s = [3] @ c1 @ c2 @ r \<and> length c1 = 1536 \<and> length c2 = 1536 \<and>
        out = [3] @ (be32 0 @ be32 0 @ rnd) @ (take 4 c1 @ be32 now @ drop 8 c1))"
proof
  assume "Handshake rnd now s = (out, None, r)"
  then show "\<exists>c1 c2. s = [3] @ c1 @ c2 @ r \<and> length c1 = 1536 \<and> length c2 = 1536 \<and>
        out = [3] @ (be32 0 @ be32 0 @ rnd) @ (take 4 c1 @ be32 now @ drop 8 c1)"
    by (cases s)
       (auto simp: Handshake_def Let_def read_full_Some_iff length_Suc_conv split: option.splits if_splits prod.splits)
next
  assume "\<exists>c1 c2. s = [3] @ c1 @ c2 @ r \<and> length c1 = 1536 \<and> length c2 = 1536 \<and>
        out = [3] @ (be32 0 @ be32 0 @ rnd) @ (take 4 c1 @ be32 now @ drop 8 c1)"
  then obtain c1 c2 where s: "s = [3] @ c1 @ c2 @ r" "length c1 = 1536" "length c2 = 1536"
     and out: "out = [3] @ (be32 0 @ be32 0 @ rnd) @ (take 4 c1 @ be32 now @ drop 8 c1)" by blast
  have "read_full 1 s = Some ([3], c1 @ c2 @ r)" unfolding s by (rule read_full_append) simp
  then show "Handshake rnd now s = (out, None, r)"
    using s out by (simp add: Handshake_def Let_def)
qed

end
