(* ===== verification/ProtoTypes.thy ===== *)
theory ProtoTypes
  imports Prelude
begin

text \<open>
  The protocol-independent media types of \<open>pkg/protocol/common/types.go\<close>. The integer-valued
  enumerations \<open>TrackKind\<close>, \<open>FrameType\<close> and \<open>CodecType\<close> stay bytes, since the sources also use
  their zero value for \<open>unknown\<close>; \<open>media_consts\<close> collects their values.
\<close>

section \<open>Enumerations\<close>

named_theorems media_consts \<open>values of the media enumerations\<close>

type_synonym TrackKind = u8
type_synonym FrameType = u8
type_synonym CodecType = u8

definition TrackAudio :: TrackKind where [media_consts]: "TrackAudio = 0x01"
definition TrackVideo :: TrackKind where [media_consts]: "TrackVideo = 0x02"

definition TrackKind_String :: "TrackKind \<Rightarrow> string" where
  "TrackKind_String k =
     (if k = TrackAudio then ''audio'' else if k = TrackVideo then ''video'' else ''unknown'')"

definition TrackRecv :: u8 where "TrackRecv = 0x01"
definition TrackSend :: u8 where "TrackSend = 0x02"

definition FrameAudio :: FrameType where [media_consts]: "FrameAudio = 0x01"
definition FrameVideo :: FrameType where [media_consts]: "FrameVideo = 0x02"

definition FrameTypeFromKind :: "TrackKind \<Rightarrow> FrameType" where
  "FrameTypeFromKind kind = (if kind = TrackVideo then FrameVideo else FrameAudio)"

definition CodecOpus :: CodecType where [media_consts]: "CodecOpus = 0x01"
definition CodecPCMU :: CodecType where [media_consts]: "CodecPCMU = 0x02"
definition CodecPCMA :: CodecType where [media_consts]: "CodecPCMA = 0x03"
definition CodecPCM16 :: CodecType where [media_consts]: "CodecPCM16 = 0x04"
definition CodecH264 :: CodecType where [media_consts]: "CodecH264 = 0x05"
definition CodecVP8 :: CodecType where [media_consts]: "CodecVP8 = 0x06"
definition CodecVP9 :: CodecType where [media_consts]: "CodecVP9 = 0x07"
definition CodecAV1 :: CodecType where [media_consts]: "CodecAV1 = 0x08"
definition CodecRTX :: CodecType where [media_consts]: "CodecRTX = 0x09"
definition CodecAAC :: CodecType where [media_consts]: "CodecAAC = 0x0a"
definition CodecH265 :: CodecType where [media_consts]: "CodecH265 = 0x0b"
definition CodecG711U :: CodecType where [media_consts]: "CodecG711U = 0x0c"
definition CodecG711A :: CodecType where [media_consts]: "CodecG711A = 0x0d"
definition CodecPS :: CodecType where [media_consts]: "CodecPS = 0x0e"

definition CodecType_String :: "CodecType \<Rightarrow> string" where
  "CodecType_String c =
     (if c = CodecOpus then ''opus'' else if c = CodecPCMU then ''pcmu''
      else if c = CodecPCMA then ''pcma'' else if c = CodecPCM16 then ''pcm16''
      else if c = CodecH264 then ''h264'' else if c = CodecVP8 then ''vp8''
      else if c = CodecVP9 then ''vp9'' else if c = CodecAV1 then ''av1''
      else if c = CodecRTX then ''rtx'' else if c = CodecAAC then ''aac''
      else if c = CodecH265 then ''h265'' else if c = CodecG711U then ''g711u''
      else if c = CodecG711A then ''g711a'' else if c = CodecPS then ''ps'' else ''unknown'')"

definition CodecFromString :: "string \<Rightarrow> CodecType option" where
  "CodecFromString s =
     (if s = ''opus'' then Some CodecOpus else if s = ''pcmu'' then Some CodecPCMU
      else if s = ''pcma'' then Some CodecPCMA
      else if s = ''pcm16'' \<or> s = ''pcm'' then Some CodecPCM16
      else if s = ''h264'' then Some CodecH264 else if s = ''vp8'' then Some CodecVP8
      else if s = ''vp9'' then Some CodecVP9 else if s = ''av1'' then Some CodecAV1
      else if s = ''rtx'' then Some CodecRTX else if s = ''aac'' then Some CodecAAC
      else if s = ''h265'' then Some CodecH265
      else if s = ''g711u'' \<or> s = ''g711mu'' then Some CodecG711U
      else if s = ''g711a'' then Some CodecG711A else if s = ''ps'' then Some CodecPS
      else None)"

section \<open>Frames and tracks\<close>

record MediaFrame =
  fr_Type :: FrameType
  fr_Codec :: CodecType
  fr_Payload :: bytes
  fr_Timestamp :: u32
  fr_Sequence :: u16
  fr_SampleRate :: u32
  fr_Channels :: u16
  fr_SSRC :: u32
  fr_Marker :: bool
  fr_RID :: string

text \<open>A frame literal of the sources leaves the fields it does not name at zero.\<close>

definition zero_frame :: MediaFrame where
  "zero_frame =
     \<lparr>fr_Type = 0, fr_Codec = 0, fr_Payload = [], fr_Timestamp = 0, fr_Sequence = 0,
      fr_SampleRate = 0, fr_Channels = 0, fr_SSRC = 0, fr_Marker = False, fr_RID = []\<rparr>"

record TrackInfo =
  ti_ID :: string
  ti_Kind :: TrackKind
  ti_Direction :: u8
  ti_Codec :: CodecType
  ti_SampleRate :: u32
  ti_Channels :: u16
  ti_SSRC :: u32
  ti_StreamID :: bytes

record TrackStats =
  ts_PacketsSent :: u64
  ts_PacketsReceived :: u64
  ts_PacketsLost :: u64
  ts_BytesSent :: u64
  ts_BytesReceived :: u64

section \<open>Events and commands\<close>

datatype EventType =
  EventIncomingCall | EventRinging | EventAnswered | EventHangup | EventTransfer | EventTrackAdded
  | EventTrackRemoved | EventDataChannel | EventReconnect | EventError

text \<open>Events without their wall-clock time; no server that is modelled here sets the error field.\<close>

record ProtocolEvent =
  ev_Type :: EventType
  ev_Protocol :: string
  ev_SessionID :: string
  ev_From :: string
  ev_To :: bytes
  ev_Track :: "TrackInfo option"

datatype CommandType =
  CmdAnswer | CmdReject | CmdHangup | CmdTransfer | CmdStartMedia | CmdStopMedia | CmdIceRestart

record ProtocolCommand =
  cmd_Type :: CommandType
  cmd_SessionID :: string
  cmd_Reason :: string
  cmd_Target :: string

section \<open>Codec names\<close>

lemma codec_names:
  "CodecFromString s = Some c \<Longrightarrow>
     CodecType_String c = s \<or> s = ''pcm'' \<and> c = CodecPCM16 \<or> s = ''g711mu'' \<and> c = CodecG711U"
  by (auto simp: CodecFromString_def CodecType_String_def media_consts split: if_splits)

lemma codec_printed:
  "CodecType_String c \<noteq> ''unknown'' \<Longrightarrow> CodecFromString (CodecType_String c) = Some c"
proof -
  assume "CodecType_String c \<noteq> ''unknown''"
  then have "c \<in> {CodecOpus, CodecPCMU, CodecPCMA, CodecPCM16, CodecH264, CodecVP8, CodecVP9, CodecAV1,
      CodecRTX, CodecAAC, CodecH265, CodecG711U, CodecG711A, CodecPS}"
    by (rule contrapos_np) (simp add: CodecType_String_def)
  then show ?thesis
    by (elim insertE emptyE; hypsubst)
       (simp_all add: CodecType_String_def CodecFromString_def media_consts)
qed

text \<open>
  Codec names: a name parses to a codec exactly when it is the codec's printed name or one
  of the two aliases \<open>pcm\<close> and \<open>g711mu\<close>, and every codec with a name prints to one that parses
  back to it.
\<close>
lemma CodecFromString_iff:
  "CodecFromString s = Some c \<longleftrightarrow>
     CodecType_String c = s \<and> s \<noteq> ''unknown'' \<or>
     s = ''pcm'' \<and> c = CodecPCM16 \<or> s = ''g711mu'' \<and> c = CodecG711U"
proof
  assume s: "CodecFromString s = Some c"
  moreover have "s \<noteq> ''unknown''" using s by (auto simp: CodecFromString_def)
  ultimately show "CodecType_String c = s \<and> s \<noteq> ''unknown'' \<or>
     s = ''pcm'' \<and> c = CodecPCM16 \<or> s = ''g711mu'' \<and> c = CodecG711U"
    using codec_names by blast
next
  assume "CodecType_String c = s \<and> s \<noteq> ''unknown'' \<or>
     s = ''pcm'' \<and> c = CodecPCM16 \<or> s = ''g711mu'' \<and> c = CodecG711U"
  then show "CodecFromString s = Some c"
    by (elim disjE conjE; hypsubst) (simp_all add: codec_printed, simp_all add: CodecFromString_def)
qed

end
