(* ===== verification/NalUnits.thy ===== *)
theory NalUnits
  imports Prelude
begin

text \<open>
  Annex-B byte streams, the format that the splitters of the SRT and the GB28181 receivers and of
  the RTMP play session take apart: NAL units behind start codes of three bytes (\<open>annexB\<close>) or four (\<open>annexB4\<close>). The locale
  \<open>nal_splitter\<close> is what a receiver relies on; all three splitters are shown to provide it.
\<close>

section \<open>Byte streams of NAL units\<close>

fun code_free :: "bytes \<Rightarrow> bool" where
  "code_free (a # b # c # r) \<longleftrightarrow> \<not> (a = 0 \<and> b = 0 \<and> c = 1) \<and> code_free (b # c # r)"
| "code_free _ \<longleftrightarrow> True"

text \<open>A unit holds no start code and, as the format demands, does not end in a zero byte.\<close>

definition nal_ok :: "bytes \<Rightarrow> bool" where
  "nal_ok n \<longleftrightarrow> n \<noteq> [] \<and> last n \<noteq> 0 \<and> code_free n"

definition annexB :: "bytes list \<Rightarrow> bytes" where
  "annexB nals = concat (map (\<lambda>n. [0, 0, 1] @ n) nals)"

definition annexB4 :: "bytes list \<Rightarrow> bytes" where
  "annexB4 nals = concat (map (\<lambda>n. [0, 0, 0, 1] @ n) nals)"

definition code3 :: "bytes \<Rightarrow> nat \<Rightarrow> bool" where
  "code3 d i \<longleftrightarrow> i + 2 < length d \<and> d ! i = 0 \<and> d ! (i + 1) = 0 \<and> d ! (i + 2) = 1"

definition code4 :: "bytes \<Rightarrow> nat \<Rightarrow> bool" where
  "code4 d i \<longleftrightarrow> i + 3 < length d \<and> d ! i = 0 \<and> d ! (i + 1) = 0 \<and> d ! (i + 2) = 0 \<and> d ! (i + 3) = 1"

section \<open>The interface of a splitter\<close>

locale nal_splitter =
  fixes split :: "bytes \<Rightarrow> bytes list"
  assumes split_annexB: "list_all nal_ok nals \<Longrightarrow> split (annexB nals) = nals"
begin

lemma split_units_nonempty:
  "list_all nal_ok nals \<Longrightarrow> filter (\<lambda>n. n \<noteq> []) (split (annexB nals)) = nals"
  by (simp add: split_annexB filter_id_conv list_all_iff nal_ok_def)

lemma annexB_unambiguous:
  "list_all nal_ok a \<Longrightarrow> list_all nal_ok b \<Longrightarrow> annexB a = annexB b \<Longrightarrow> a = b"
  by (metis split_annexB)

end

section \<open>Start codes in a stream\<close>

lemma code_free_nth: "code_free n \<Longrightarrow> i + 2 < length n \<Longrightarrow> \<not> (n ! i = 0 \<and> n ! (i + 1) = 0 \<and> n ! (i + 2) = 1)"
proof (induction n arbitrary: i rule: code_free.induct)
  case (1 a b c r)
  show ?case
  proof (cases i)
    case 0
    with 1 show ?thesis by simp
  next
    case (Suc j)
    with 1 show ?thesis by (cases j) (auto simp: nth_Cons')
  qed
qed simp_all

lemma no_code3_in_unit:
  assumes n: "nal_ok n" and k: "length p \<le> k" "k < length p + length n"
  shows "\<not> code3 (p @ n @ q) k"
proof
  assume c: "code3 (p @ n @ q) k"
  define j where "j = k - length p"
  have k': "k = length p + j" and j: "j < length n" using k by (auto simp: j_def)
  have l: "last n = n ! (length n - 1)" using j by (cases n) (simp_all add: last_conv_nth)
  have b: "(n @ q) ! j = 0" "(n @ q) ! (j + 1) = 0" "(n @ q) ! (j + 2) = 1"
    using c by (simp_all add: code3_def k' nth_append add.assoc)
  consider "j + 2 < length n" | "j + 1 = length n - 1" | "j = length n - 1" using j by linarith
  then show False
  proof cases
    case 1
    then show False using b code_free_nth [of n j] n by (simp add: nal_ok_def nth_append)
  next
    case 2
    then show False using b(2) n l j by (cases "j + 1 < length n") (auto simp: nal_ok_def nth_append)
  next
    case 3
    then show False using b(1) n l j by (auto simp: nal_ok_def nth_append)
  qed
qed

lemma no_code4_in_unit:
  assumes n: "nal_ok n" and k: "length p \<le> k" "k < length p + length n"
  shows "\<not> code4 (p @ n @ q) k"
proof
  assume c: "code4 (p @ n @ q) k"
  then have c3: "code3 (p @ n @ q) (k + 1)" by (auto simp: code3_def code4_def numeral_3_eq_3)
  show False
  proof (cases "k + 1 < length p + length n")
    case True
    with no_code3_in_unit [OF n, of p "k + 1" q] c3 k show False by simp
  next
    case False
    with k have "k = length p + (length n - 1)" "n \<noteq> []" by auto
    with c n show False by (auto simp: code4_def nal_ok_def nth_append last_conv_nth)
  qed
qed

lemma code3_at_start: "code3 (p @ [0, 0, 1] @ r) (length p)"
  by (simp add: code3_def nth_append)

lemma code4_at_start: "code4 (p @ [0, 0, 0, 1] @ r) (length p)" "\<not> code3 (p @ [0, 0, 0, 1] @ r) (length p)"
  by (simp_all add: code3_def code4_def nth_append numeral_3_eq_3)

end
