(* ===== verification/RtmpPlay.thy ===== *)
theory RtmpPlay
  imports RtmpAmf RtmpChunk ProtoTypes NalUnits
begin

text \<open>
  The play side of an RTMP connection (\<open>pkg/protocol/rtmp/handler_play.go\<close>): Annex-B frames become
  length-prefixed AVC data, AAC frames get their header, and both go out as chunked messages behind
  a sequence header. A play session reaches its connection only for the writer and the stream id,
  which are arguments here; every operation returns the bytes it writes, the new session and the
  error. A panic is an error value too. The connection takes every write.
\<close>

section \<open>State\<close>

text \<open>A nil slice is \<open>None\<close> where the code distinguishes it from an empty one.\<close>

record avcDecoderConfig =
  ac_sps :: "bytes option"
  ac_pps :: "bytes option"

record aacDecoderConfig =
  aa_sampleRate :: u32
  aa_channels :: u16

record mediaFrameItem =
  mi_trackID :: string
  mi_frame :: MediaFrame

record playSession =
  ps_frameCh :: "mediaFrameItem list"
  ps_done :: bool
  ps_tracks :: "TrackInfo list"
  ps_avcConfig :: "avcDecoderConfig option"
  ps_aacConfig :: "aacDecoderConfig option"
  ps_aacASC :: "bytes option"
  ps_videoSeqHeaderSent :: bool
  ps_audioSeqHeaderSent :: bool
  ps_stats :: "string \<rightharpoonup> TrackStats"

datatype play_error =
    UnknownFrameType u8 | AvcConfigNotSet | SpsPanic | AacConfigNotSet | DivisionPanic
  | SessionClosed | FrameBufferFull

type_synonym play_result = "bytes \<times> playSession \<times> play_error option"

definition newPlaySession :: playSession where
  "newPlaySession =
     \<lparr>ps_frameCh = [], ps_done = False, ps_tracks = [], ps_avcConfig = None, ps_aacConfig = None,
      ps_aacASC = None, ps_videoSeqHeaderSent = False, ps_audioSeqHeaderSent = False,
      ps_stats = Map.empty\<rparr>"

definition stopPlay :: "playSession \<Rightarrow> playSession" where
  "stopPlay ps = (if ps_done ps then ps else ps\<lparr>ps_done := True\<rparr>)"

definition setVideoConfig :: "bytes option \<Rightarrow> bytes option \<Rightarrow> playSession \<Rightarrow> playSession" where
  "setVideoConfig sps pps ps =
     ps\<lparr>ps_avcConfig := Some \<lparr>ac_sps = sps, ac_pps = pps\<rparr>, ps_videoSeqHeaderSent := False\<rparr>"

definition setAudioConfig :: "bytes option \<Rightarrow> u32 \<Rightarrow> u16 \<Rightarrow> playSession \<Rightarrow> playSession" where
  "setAudioConfig asc sampleRate channels ps =
     ps\<lparr>ps_aacASC := asc, ps_aacConfig := Some \<lparr>aa_sampleRate = sampleRate, aa_channels = channels\<rparr>,
        ps_audioSeqHeaderSent := False\<rparr>"

text \<open>
  \<open>SendMediaFrame\<close> selects between the channel and \<open>done\<close>; where both are ready, Go picks one
  (\<open>pick\<close>).
\<close>

definition playSendMediaFrame ::
  "bool \<Rightarrow> string \<Rightarrow> MediaFrame \<Rightarrow> playSession \<Rightarrow> playSession \<times> play_error option" where
  "playSendMediaFrame pick trackID frame ps =
     (let room = (length (ps_frameCh ps) < 256);
          sent = ps\<lparr>ps_frameCh := ps_frameCh ps @ [\<lparr>mi_trackID = trackID, mi_frame = frame\<rparr>]\<rparr> in
      if room \<and> (\<not> ps_done ps \<or> pick) then (sent, None)
      else if ps_done ps then (ps, Some SessionClosed)
      else (ps, Some FrameBufferFull))"

definition zero_stats :: TrackStats where
  "zero_stats =
     \<lparr>ts_PacketsSent = 0, ts_PacketsReceived = 0, ts_PacketsLost = 0, ts_BytesSent = 0, ts_BytesReceived = 0\<rparr>"

definition updateStats :: "string \<Rightarrow> nat \<Rightarrow> playSession \<Rightarrow> playSession" where
  "updateStats trackID bytesSent ps =
     (let s = (case ps_stats ps trackID of Some s \<Rightarrow> s | None \<Rightarrow> zero_stats);
          s = s\<lparr>ts_BytesSent := ts_BytesSent s + of_nat bytesSent, ts_PacketsSent := ts_PacketsSent s + 1\<rparr> in
      ps\<lparr>ps_stats := (ps_stats ps)(trackID \<mapsto> s)\<rparr>)"

section \<open>Annex-B to AVC\<close>

definition rtmp_startCodeLen :: "bytes \<Rightarrow> nat" where
  "rtmp_startCodeLen data =
     (if length data \<ge> 4 \<and> data ! 0 = 0 \<and> data ! 1 = 0 \<and> data ! 2 = 0 \<and> data ! 3 = 1 then 4
      else if length data \<ge> 3 \<and> data ! 0 = 0 \<and> data ! 1 = 0 \<and> data ! 2 = 1 then 3
      else 0)"

definition isStartCode :: "bytes \<Rightarrow> bool" where
  "isStartCode data \<longleftrightarrow>
     length data \<ge> 4 \<and> data ! 0 = 0 \<and> data ! 1 = 0 \<and> data ! 2 = 0 \<and> data ! 3 = 1 \<or>
     length data \<ge> 3 \<and> data ! 0 = 0 \<and> data ! 1 = 0 \<and> data ! 2 = 1"

definition findNextStartCode :: "bytes \<Rightarrow> nat \<Rightarrow> nat option" where
  "findNextStartCode data offset =
     find (\<lambda>i. data ! i = 0 \<and> data ! (i + 1) = 0 \<and>
               (i + 2 < length data \<and> data ! (i + 2) = 1 \<or>
                i + 3 < length data \<and> data ! (i + 2) = 0 \<and> data ! (i + 3) = 1))
       [offset..<length data - 2]"

function parseAnnexB_from :: "bytes \<Rightarrow> nat \<Rightarrow> bytes list" where
  "parseAnnexB_from data pos =
     (if pos < length data then
        let scLen = rtmp_startCodeLen (drop pos data) in
        if scLen = 0 then parseAnnexB_from data (pos + 1)
        else
          let nalStart = pos + scLen in
          (case findNextStartCode data nalStart of
             None \<Rightarrow> [drop nalStart data]
           | Some nextPos \<Rightarrow>
               take (nextPos - nalStart) (drop nalStart data) # parseAnnexB_from data nextPos)
      else [])"
  by pat_completeness auto
termination
  by (relation "measure (\<lambda>(data, pos). length data - pos)")
     (auto simp: findNextStartCode_def find_Some_iff nth_append)

declare parseAnnexB_from.simps [simp del]

definition parseAnnexB :: "bytes \<Rightarrow> bytes list" where
  "parseAnnexB data =
     (if length data < 3 then [] else if \<not> isStartCode data then [] else parseAnnexB_from data 0)"

definition isIDR :: "bytes \<Rightarrow> bool" where
  "isIDR nal \<longleftrightarrow> length nal \<noteq> 0 \<and> nal ! 0 AND 0x1f = 5"

definition packNAL :: "bytes \<Rightarrow> bytes" where
  "packNAL nal = (if length nal = 0 then [] else be32 (of_nat (length nal)) @ nal)"

definition frameToAVC :: "bytes \<Rightarrow> bytes \<times> bool" where
  "frameToAVC payload =
     (if length payload = 0 then ([], False)
      else
        let nalus = parseAnnexB payload;
            nalus = (if length nalus = 0 then [payload] else nalus) in
        (concat (map packNAL nalus), list_ex isIDR nalus))"

section \<open>Messages\<close>

definition writeMediaMessage :: "chunkWriter \<Rightarrow> u8 \<Rightarrow> u32 \<Rightarrow> u32 \<Rightarrow> bytes \<Rightarrow> bytes" where
  "writeMediaMessage cw msgType streamID timestamp payload =
     WriteMessage cw \<lparr>msg_type = msgType, msg_streamID = streamID, msg_csid = 6,
       msg_timestamp = timestamp, msg_payload = payload\<rparr>"

definition writeDataMessage :: "chunkWriter \<Rightarrow> u32 \<Rightarrow> bytes \<Rightarrow> bytes" where
  "writeDataMessage cw streamID payload =
     WriteMessage cw \<lparr>msg_type = 18, msg_streamID = streamID, msg_csid = 4,
       msg_timestamp = 0, msg_payload = payload\<rparr>"

definition avcConfigRecord :: "bytes \<Rightarrow> bytes \<Rightarrow> bytes" where
  "avcConfigRecord sps pps =
     [1, sps ! 1, sps ! 2, sps ! 3, 0xFF, 0xE1] @ be16 (of_nat (length sps)) @ sps @
     [1] @ be16 (of_nat (length pps)) @ pps"

definition sendAVCSequenceHeader :: "chunkWriter \<Rightarrow> u32 \<Rightarrow> playSession \<Rightarrow> play_result" where
  "sendAVCSequenceHeader cw streamID ps =
     (case ps_avcConfig ps of
        None \<Rightarrow> ([], ps, Some AvcConfigNotSet)
      | Some cfg \<Rightarrow>
          let sps = (case ac_sps cfg of Some b \<Rightarrow> b | None \<Rightarrow> []);
              pps = (case ac_pps cfg of Some b \<Rightarrow> b | None \<Rightarrow> []) in
          if length sps = 0 \<or> length pps = 0 then ([], ps, Some AvcConfigNotSet)
          else if length sps < 4 then ([], ps, Some SpsPanic)
          else
            let payload = [0x17, 0, 0, 0, 0] @ avcConfigRecord sps pps in
            (writeMediaMessage cw 9 streamID 0 payload, updateStats ''video'' (length payload) ps, None))"

definition aacFirstByte :: "playSession \<Rightarrow> u8" where
  "aacFirstByte ps =
     (let channelType = (case ps_aacConfig ps of
                           Some cfg \<Rightarrow> if aa_channels cfg = 1 then 0 else 1
                         | None \<Rightarrow> 1) in
      0xA0 OR 0x0E OR channelType)"

definition sendAACSequenceHeader :: "chunkWriter \<Rightarrow> u32 \<Rightarrow> playSession \<Rightarrow> play_result" where
  "sendAACSequenceHeader cw streamID ps =
     (let asc = (case ps_aacASC ps of Some b \<Rightarrow> b | None \<Rightarrow> []) in
      if length asc = 0 then ([], ps, Some AacConfigNotSet)
      else
        let payload = [aacFirstByte ps, 0] @ asc in
        (writeMediaMessage cw 8 streamID 0 payload, updateStats ''audio'' (length payload) ps, None))"

definition sendVideoFrame :: "chunkWriter \<Rightarrow> u32 \<Rightarrow> string \<Rightarrow> MediaFrame \<Rightarrow> playSession \<Rightarrow> play_result" where
  "sendVideoFrame cw streamID trackID frame ps =
     (if fr_Codec frame \<noteq> CodecH264 then ([], ps, None)
      else
        (case (if \<not> ps_videoSeqHeaderSent ps \<and> ps_avcConfig ps \<noteq> None then
                 (case sendAVCSequenceHeader cw streamID ps of
                    (out, ps, Some e) \<Rightarrow> (out, ps, Some e)
                  | (out, ps, None) \<Rightarrow> (out, ps\<lparr>ps_videoSeqHeaderSent := True\<rparr>, None))
               else ([], ps, None)) of
           (out, ps, Some e) \<Rightarrow> (out, ps, Some e)
         | (out, ps, None) \<Rightarrow>
             (case frameToAVC (fr_Payload frame) of
                (avcData, isKeyframe) \<Rightarrow>
                  if length avcData = 0 then (out, ps, None)
                  else
                    let frameType = (if isKeyframe then 1 else 2);
                        payload = [push_bit 4 frameType OR 7, 1, 0, 0, 0] @ avcData;
                        ts = fr_Timestamp frame div 90 in
                    (out @ writeMediaMessage cw 9 streamID ts payload,
                     updateStats trackID (length payload) ps, None))))"

text \<open>The sample rate that converts the time stamp; the division panics where it is zero.\<close>

definition playSampleRate :: "MediaFrame \<Rightarrow> playSession \<Rightarrow> u32" where
  "playSampleRate frame ps =
     (if fr_SampleRate frame > 0 then fr_SampleRate frame
      else case ps_aacConfig ps of Some cfg \<Rightarrow> aa_sampleRate cfg | None \<Rightarrow> 44100)"

definition sendAudioFrame :: "chunkWriter \<Rightarrow> u32 \<Rightarrow> string \<Rightarrow> MediaFrame \<Rightarrow> playSession \<Rightarrow> play_result" where
  "sendAudioFrame cw streamID trackID frame ps =
     (if fr_Codec frame \<noteq> CodecAAC then ([], ps, None)
      else
        (case (if \<not> ps_audioSeqHeaderSent ps \<and> ps_aacASC ps \<noteq> None then
                 (case sendAACSequenceHeader cw streamID ps of
                    (out, ps, Some e) \<Rightarrow> (out, ps, Some e)
                  | (out, ps, None) \<Rightarrow> (out, ps\<lparr>ps_audioSeqHeaderSent := True\<rparr>, None))
               else ([], ps, None)) of
           (out, ps, Some e) \<Rightarrow> (out, ps, Some e)
         | (out, ps, None) \<Rightarrow>
             if length (fr_Payload frame) = 0 then (out, ps, None)
             else
               let payload = [aacFirstByte ps, 1] @ fr_Payload frame;
                   sampleRate = playSampleRate frame ps in
               if sampleRate = 0 then (out, ps, Some DivisionPanic)
               else
                 let ts = ucast ((ucast (fr_Timestamp frame) * 1000 :: u64) div ucast sampleRate) in
                 (out @ writeMediaMessage cw 8 streamID ts payload,
                  updateStats trackID (length payload) ps, None)))"

definition processFrame :: "chunkWriter \<Rightarrow> u32 \<Rightarrow> mediaFrameItem \<Rightarrow> playSession \<Rightarrow> play_result" where
  "processFrame cw streamID item ps =
     (let frame = mi_frame item in
      if fr_Type frame = FrameVideo then sendVideoFrame cw streamID (mi_trackID item) frame ps
      else if fr_Type frame = FrameAudio then sendAudioFrame cw streamID (mi_trackID item) frame ps
      else ([], ps, Some (UnknownFrameType (fr_Type frame))))"

text \<open>
  One iteration of \<open>sendLoop\<close>: \<open>None\<close> where it returns, and where it waits because nothing is
  ready. An error of \<open>processFrame\<close> is only logged.
\<close>

definition sendLoop_step :: "bool \<Rightarrow> chunkWriter \<Rightarrow> u32 \<Rightarrow> playSession \<Rightarrow> (bytes \<times> playSession) option" where
  "sendLoop_step pick cw streamID ps =
     (case ps_frameCh ps of
        item # rest \<Rightarrow>
          if \<not> ps_done ps \<or> pick then
            (case processFrame cw streamID item (ps\<lparr>ps_frameCh := rest\<rparr>) of (out, ps, _) \<Rightarrow> Some (out, ps))
          else None
      | [] \<Rightarrow> None)"

text \<open>\<open>float64(n)\<close> of an integer below 2 to the 53, as its bit pattern.\<close>

fun bit_length :: "nat \<Rightarrow> nat" where
  "bit_length n = (if n = 0 then 0 else Suc (bit_length (n div 2)))"

declare bit_length.simps [simp del]

definition float64_of_nat :: "nat \<Rightarrow> u64" where
  "float64_of_nat n =
     (if n = 0 then 0
      else let e = bit_length n - 1 in
        push_bit 52 (of_nat (1023 + e)) + (push_bit (52 - e) (of_nat n) - push_bit 52 1))"

text \<open>\<open>rng\<close> is the order in which Go ranges over a map.\<close>

type_synonym range_order = "(bytes \<times> AMFValue) list \<Rightarrow> (bytes \<times> AMFValue) list"

definition metaDataProps :: "playSession \<Rightarrow> (bytes \<times> AMFValue) list" where
  "metaDataProps ps =
     [(lit ''duration'', VNumber 0), (lit ''videocodecid'', VNumber (float64_of_nat 7)),
      (lit ''audiocodecid'', VNumber (float64_of_nat 10)), (lit ''canSeekToEnd'', VBoolean False)] @
     (case ps_aacConfig ps of
        Some cfg \<Rightarrow>
          [(lit ''audiosamplerate'', VNumber (float64_of_nat (unat (aa_sampleRate cfg)))),
           (lit ''audiochannels'', VNumber (float64_of_nat (unat (aa_channels cfg))))]
      | None \<Rightarrow> []) @
     [(lit ''audiosamplesize'', VNumber (float64_of_nat 16))]"

definition sendOnMetaData :: "range_order \<Rightarrow> chunkWriter \<Rightarrow> u32 \<Rightarrow> playSession \<Rightarrow> bytes" where
  "sendOnMetaData rng cw streamID ps =
     writeDataMessage cw streamID (WriteString (lit ''onMetaData'') @ WriteEcmaArray (rng (metaDataProps ps)))"

text \<open>NAL units behind the start code \<open>sc\<close>.\<close>

abbreviation coded :: "bytes \<Rightarrow> bytes list \<Rightarrow> bytes" where
  "coded sc ns \<equiv> concat (map (\<lambda>n. sc @ n) ns)"

section \<open>Splitting Annex-B\<close>

lemma findNextStartCode_codes:
  "findNextStartCode d s = find (\<lambda>i. code3 d i \<or> code4 d i) [s..<length d - 2]"
  unfolding findNextStartCode_def by (rule find_cong) (auto simp: code3_def code4_def)

lemma rtmp_startCodeLen_codes:
  "i \<le> length d \<Longrightarrow> rtmp_startCodeLen (drop i d) = (if code4 d i then 4 else if code3 d i then 3 else 0)"
  by (auto simp: rtmp_startCodeLen_def code3_def code4_def)

lemma find_upt:
  assumes "P j" "a \<le> j" "j < b" "\<And>k. a \<le> k \<Longrightarrow> k < j \<Longrightarrow> \<not> P k"
  shows "find P [a..<b] = Some j"
  unfolding find_Some_iff using assms by (intro exI [of _ "j - a"]) auto

lemma code_at:
  assumes "sc = [0, 0, 1] \<or> sc = [0, 0, 0, 1]"
  shows "rtmp_startCodeLen (drop (length p) (p @ sc @ r)) = length sc"
    "code3 (p @ sc @ r) (length p) \<or> code4 (p @ sc @ r) (length p)"
  using assms by (auto simp: rtmp_startCodeLen_def code3_def code4_def nth_append numeral_3_eq_3)

lemma parseAnnexB_units:
  assumes sc: "sc = [0, 0, 1] \<or> sc = [0, 0, 0, 1]"
  shows "list_all nal_ok (n # ns) \<Longrightarrow> parseAnnexB_from (p @ coded sc (n # ns)) (length p) = n # ns"
proof (induction ns arbitrary: n p)
  case Nil
  let ?d = "p @ sc @ n" and ?s = "length p + length sc"
  have n: "nal_ok n" "n \<noteq> []" using Nil by (auto simp: nal_ok_def)
  have "findNextStartCode ?d ?s = None"
    unfolding findNextStartCode_codes find_None_iff
    using no_code3_in_unit [OF n(1), of "p @ sc" _ "[]"] no_code4_in_unit [OF n(1), of "p @ sc" _ "[]"] by auto
  then show ?case
    using code_at(1) [OF sc, of p n] sc by (subst parseAnnexB_from.simps) (auto simp: Let_def)
next
  case (Cons m ns)
  let ?r = "coded sc ns"
  let ?d = "p @ sc @ n @ sc @ m @ ?r" and ?s = "length p + length sc"
  have n: "nal_ok n" "m \<noteq> []" using Cons by (auto simp: nal_ok_def)
  have f: "findNextStartCode ?d ?s = Some (?s + length n)"
    unfolding findNextStartCode_codes
  proof (rule find_upt)
    show "code3 ?d (?s + length n) \<or> code4 ?d (?s + length n)"
      using code_at(2) [OF sc, of "p @ sc @ n" "m @ ?r"] by (simp add: add.assoc)
    show "?s + length n < length ?d - 2" using sc n(2) by (cases m) auto
    show "\<not> (code3 ?d k \<or> code4 ?d k)" if "?s \<le> k" "k < ?s + length n" for k
      using no_code3_in_unit [OF n(1), of "p @ sc" k "sc @ m @ ?r"]
        no_code4_in_unit [OF n(1), of "p @ sc" k "sc @ m @ ?r"] that by simp
  qed simp
  have "parseAnnexB_from ?d (length p) = n # parseAnnexB_from ?d (?s + length n)"
    using code_at(1) [OF sc, of p "n @ sc @ m @ ?r"] f sc
    by (subst parseAnnexB_from.simps) (auto simp: Let_def)
  also have "\<dots> = n # m # ns"
    using Cons.IH [of m "p @ sc @ n"] Cons.prems by (simp add: add.assoc)
  finally show ?case by simp
qed

lemma parseAnnexB_coded:
  assumes sc: "sc = [0, 0, 1] \<or> sc = [0, 0, 0, 1]" and ns: "list_all nal_ok ns"
  shows "parseAnnexB (coded sc ns) = ns"
proof (cases ns)
  case (Cons n ms)
  have "isStartCode (coded sc ns)" "3 \<le> length (coded sc ns)"
    using sc by (auto simp: isStartCode_def Cons)
  then show ?thesis
    using parseAnnexB_units [OF sc, of n ms "[]"] ns by (simp add: parseAnnexB_def Cons)
qed (simp add: parseAnnexB_def)

interpretation play_split: nal_splitter parseAnnexB
  by unfold_locales (unfold annexB_def, rule parseAnnexB_coded, simp_all)

lemma frameToAVC_coded:
  assumes sc: "sc = [0, 0, 1] \<or> sc = [0, 0, 0, 1]" and ns: "list_all nal_ok ns" "ns \<noteq> []"
  shows "frameToAVC (coded sc ns) = (concat (map (\<lambda>n. be32 (of_nat (length n)) @ n) ns), list_ex isIDR ns)"
proof -
  have "coded sc ns \<noteq> []" using sc ns(2) by (cases ns) auto
  moreover have "map packNAL ns = map (\<lambda>n. be32 (of_nat (length n)) @ n) ns"
    using ns(1) by (auto simp: packNAL_def list_all_iff nal_ok_def)
  ultimately show ?thesis
    using parseAnnexB_coded [OF sc ns(1)] ns(2) by (simp only: frameToAVC_def Let_def length_0_conv if_False)
qed

end
