(* ===== verification/RtmpConn.thy ===== *)
theory RtmpConn
  imports RtmpPlay
begin

text \<open>
  An RTMP connection after its handshake (\<open>pkg/protocol/rtmp/handler.go\<close>): control messages,
  commands, the media of a publisher and the start of a play session. A handler takes the state of
  the connection and returns what it sends and reports, in order, the new state and its error.
  \<open>Serve\<close> is a function of the bytes the peer sends until it closes the connection; writes
  succeed. The session id and the two random sources are arguments of \<open>NewConn\<close>, and \<open>rng\<close> is the
  order in which Go ranges over a property map.
\<close>

section \<open>State\<close>

record Conn =
  cn_reader :: chunkReader
  cn_writer :: chunkWriter
  cn_sessionID :: string
  cn_streamKey :: bytes
  cn_remote :: string
  cn_streamID :: u32
  cn_videoSSRC :: u32
  cn_videoSeq :: u16
  cn_audioSSRC :: u32
  cn_audioSeq :: u16
  cn_videoClock :: u32
  cn_audioClock :: u32
  cn_hasVideo :: bool
  cn_hasAudio :: bool
  cn_videoTrackReported :: bool
  cn_audioTrackReported :: bool
  cn_avcConfig :: "avcDecoderConfig option"
  cn_aacConfig :: "aacDecoderConfig option"
  cn_playMode :: bool
  cn_playSess :: "playSession option"
  cn_windowAckSize :: u32
  cn_bytesReceived :: u32
  cn_chunkSize :: int
  cn_closed :: bool

datatype RtmpOut =
    RtmpSent bytes
  | RtmpEvent ProtocolEvent
  | RtmpFrame string string MediaFrame

datatype conn_error =
    ReadFailed chunk_error | ChunkSizeShort | ChunkSizeZero | DecodeCommand amf_error
  | EmptyCommand | NameNotString | AvcShort | AvcSpsOverflow | AvcSpsDataOverflow | AvcNoPps
  | AvcPpsOverflow | AvcPpsDataOverflow | AacShort | NotPlaying | PlayFailed play_error | ServeFuel

type_synonym conn_result = "RtmpOut list \<times> Conn \<times> conn_error option"

definition NewConn :: "string \<Rightarrow> string \<Rightarrow> u32 \<Rightarrow> u32 \<Rightarrow> Conn" where
  "NewConn sid remote vssrc assrc =
     \<lparr>cn_reader = NewChunkReader, cn_writer = NewChunkWriter, cn_sessionID = sid, cn_streamKey = [],
      cn_remote = remote, cn_streamID = 0, cn_videoSSRC = vssrc, cn_videoSeq = 0, cn_audioSSRC = assrc,
      cn_audioSeq = 0, cn_videoClock = 0, cn_audioClock = 0, cn_hasVideo = False, cn_hasAudio = False,
      cn_videoTrackReported = False, cn_audioTrackReported = False, cn_avcConfig = None,
      cn_aacConfig = None, cn_playMode = False, cn_playSess = None, cn_windowAckSize = 2500000,
      cn_bytesReceived = 0, cn_chunkSize = 128, cn_closed = False\<rparr>"

section \<open>Control messages\<close>

definition writeControlMessage :: "u8 \<Rightarrow> bytes \<Rightarrow> Conn \<Rightarrow> RtmpOut list" where
  "writeControlMessage msgType payload c =
     [RtmpSent (WriteMessage (cn_writer c) \<lparr>msg_type = msgType, msg_streamID = 0, msg_csid = 2,
        msg_timestamp = 0, msg_payload = payload\<rparr>)]"

definition writeCommandMessage :: "u32 \<Rightarrow> bytes \<Rightarrow> Conn \<Rightarrow> RtmpOut list" where
  "writeCommandMessage streamID payload c =
     [RtmpSent (WriteMessage (cn_writer c) \<lparr>msg_type = 20, msg_streamID = streamID, msg_csid = 3,
        msg_timestamp = 0, msg_payload = payload\<rparr>)]"

definition sendAcknowledgement :: "u32 \<Rightarrow> Conn \<Rightarrow> RtmpOut list" where
  "sendAcknowledgement seq c = writeControlMessage 3 (be32 seq) c"

definition sendWindowAckSize :: "u32 \<Rightarrow> Conn \<Rightarrow> RtmpOut list" where
  "sendWindowAckSize sz c = writeControlMessage 5 (be32 sz) c"

definition sendSetPeerBandwidth :: "u32 \<Rightarrow> u8 \<Rightarrow> Conn \<Rightarrow> RtmpOut list" where
  "sendSetPeerBandwidth sz limitType c = writeControlMessage 6 (be32 sz @ [limitType]) c"

definition sendSetChunkSize :: "u32 \<Rightarrow> Conn \<Rightarrow> RtmpOut list \<times> Conn" where
  "sendSetChunkSize sz c =
     (writeControlMessage 1 (be32 sz) c, c\<lparr>cn_writer := SetWriterChunkSize (cn_writer c) (int (unat sz))\<rparr>)"

definition sendUserControl :: "u16 \<Rightarrow> u32 \<Rightarrow> Conn \<Rightarrow> RtmpOut list" where
  "sendUserControl eventType streamID c = writeControlMessage 4 (be16 eventType @ be32 streamID) c"

definition handleSetChunkSize :: "message \<Rightarrow> Conn \<Rightarrow> conn_result" where
  "handleSetChunkSize msg c =
     (if length (msg_payload msg) < 4 then ([], c, Some ChunkSizeShort)
      else
        let size = u32_at (msg_payload msg) 0 in
        if size = 0 then ([], c, Some ChunkSizeZero)
        else
          ([], c\<lparr>cn_chunkSize := int (unat size),
                 cn_reader := SetReaderChunkSize (cn_reader c) (int (unat size))\<rparr>, None))"

definition handleWindowAckSize :: "message \<Rightarrow> Conn \<Rightarrow> conn_result" where
  "handleWindowAckSize msg c =
     (if length (msg_payload msg) < 4 then ([], c, None)
      else ([], c\<lparr>cn_windowAckSize := u32_at (msg_payload msg) 0\<rparr>, None))"

section \<open>Events\<close>

definition rtmp_event :: "EventType \<Rightarrow> TrackInfo option \<Rightarrow> Conn \<Rightarrow> ProtocolEvent" where
  "rtmp_event ty track c =
     \<lparr>ev_Type = ty, ev_Protocol = ''rtmp'', ev_SessionID = cn_sessionID c, ev_From = [], ev_To = [],
      ev_Track = track\<rparr>"

definition rtmp_track :: "string \<Rightarrow> TrackKind \<Rightarrow> u8 \<Rightarrow> CodecType \<Rightarrow> Conn \<Rightarrow> TrackInfo" where
  "rtmp_track tid kind dir codec c =
     \<lparr>ti_ID = tid, ti_Kind = kind, ti_Direction = dir, ti_Codec = codec, ti_SampleRate = 0,
      ti_Channels = 0, ti_SSRC = 0, ti_StreamID = cn_streamKey c\<rparr>"

definition rtmpReportVideoTrack :: "Conn \<Rightarrow> RtmpOut list \<times> Conn" where
  "rtmpReportVideoTrack c =
     (let c = c\<lparr>cn_videoTrackReported := True\<rparr> in
      ([RtmpEvent (rtmp_event EventTrackAdded
          (Some (rtmp_track ''video'' TrackVideo TrackRecv CodecH264 c)) c)], c))"

definition rtmpReportAudioTrack :: "aacDecoderConfig \<Rightarrow> Conn \<Rightarrow> RtmpOut list \<times> Conn" where
  "rtmpReportAudioTrack cfg c =
     (let c = c\<lparr>cn_audioTrackReported := True\<rparr> in
      ([RtmpEvent (rtmp_event EventTrackAdded
          (Some ((rtmp_track ''audio'' TrackAudio TrackRecv CodecAAC c)
             \<lparr>ti_SampleRate := aa_sampleRate cfg, ti_Channels := aa_channels cfg\<rparr>)) c)], c))"

definition reportPlayTracks :: "Conn \<Rightarrow> RtmpOut list" where
  "reportPlayTracks c =
     [RtmpEvent (rtmp_event EventTrackAdded (Some (rtmp_track ''video'' TrackVideo TrackSend CodecH264 c)) c),
      RtmpEvent (rtmp_event EventTrackAdded (Some (rtmp_track ''audio'' TrackAudio TrackSend CodecAAC c)) c)]"

section \<open>Video\<close>

text \<open>
  The loop over the parameter sets of one kind: the first one is kept. \<open>e1\<close> and \<open>e2\<close> are the errors
  of a set that is cut off.
\<close>

fun readParamSets ::
  "conn_error \<Rightarrow> conn_error \<Rightarrow> bytes \<Rightarrow> nat \<Rightarrow> nat \<Rightarrow> bytes option \<Rightarrow> conn_error + bytes option \<times> nat" where
  "readParamSets e1 e2 data 0 pos kept = Inr (kept, pos)"
| "readParamSets e1 e2 data (Suc i) pos kept =
     (if pos + 2 > length data then Inl e1
      else
        let n = unat (u16_at data pos); pos = pos + 2 in
        if pos + n > length data then Inl e2
        else readParamSets e1 e2 data i (pos + n)
               (if kept = None then Some (take n (drop pos data)) else kept))"

definition handleAVCSequenceHeader :: "bytes \<Rightarrow> Conn \<Rightarrow> conn_result" where
  "handleAVCSequenceHeader data c =
     (if length data < 7 then ([], c, Some AvcShort)
      else
        (case readParamSets AvcSpsOverflow AvcSpsDataOverflow data (unat (data ! 5 AND 0x1f)) 6 None of
           Inl e \<Rightarrow> ([], c, Some e)
         | Inr (sps, pos) \<Rightarrow>
             if pos \<ge> length data then ([], c, Some AvcNoPps)
             else
               (case readParamSets AvcPpsOverflow AvcPpsDataOverflow data (unat (data ! pos)) (pos + 1) None of
                  Inl e \<Rightarrow> ([], c, Some e)
                | Inr (pps, _) \<Rightarrow>
                    let c = c\<lparr>cn_avcConfig := Some \<lparr>ac_sps = sps, ac_pps = pps\<rparr>, cn_hasVideo := True,
                              cn_videoClock := 0\<rparr> in
                    if \<not> cn_videoTrackReported c
                    then (case rtmpReportVideoTrack c of (out, c) \<Rightarrow> (out, c, None))
                    else ([], c, None))))"

function readNALUs :: "bytes \<Rightarrow> nat \<Rightarrow> bytes list" where
  "readNALUs data pos =
     (if pos + 4 \<le> length data then
        let n = unat (u32_at data pos) in
        if pos + 4 + n > length data then []
        else take n (drop (pos + 4) data) # readNALUs data (pos + 4 + n)
      else [])"
  by pat_completeness auto
termination
  by (relation "measure (\<lambda>(data, pos). length data - pos)") auto

declare readNALUs.simps [simp del]

fun forwardNALUs :: "u32 \<Rightarrow> bytes list \<Rightarrow> Conn \<Rightarrow> RtmpOut list \<times> Conn" where
  "forwardNALUs rtpTS [] c = ([], c)"
| "forwardNALUs rtpTS (nal # nalus) c =
     (let frame = zero_frame\<lparr>fr_Type := FrameVideo, fr_Codec := CodecH264, fr_Payload := nal,
                    fr_Timestamp := rtpTS, fr_Sequence := cn_videoSeq c, fr_SSRC := cn_videoSSRC c,
                    fr_SampleRate := 90000, fr_Marker := (nalus = [])\<rparr>;
          (out, c') = forwardNALUs rtpTS nalus (c\<lparr>cn_videoSeq := cn_videoSeq c + 1\<rparr>) in
      (RtmpFrame (cn_sessionID c) ''video'' frame # out, c'))"

definition handleAVCNALUs :: "bytes \<Rightarrow> u32 \<Rightarrow> Conn \<Rightarrow> conn_result" where
  "handleAVCNALUs data timestamp c =
     (if cn_avcConfig c = None then ([], c, None)
      else (case forwardNALUs (timestamp * 90) (readNALUs data 0) c of (out, c) \<Rightarrow> (out, c, None)))"

definition handleVideo :: "message \<Rightarrow> Conn \<Rightarrow> conn_result" where
  "handleVideo msg c =
     (let p = msg_payload msg in
      if length p < 5 then ([], c, None)
      else if p ! 0 AND 0x0f \<noteq> 7 then ([], c, None)
      else if p ! 1 = 0 then handleAVCSequenceHeader (drop 5 p) c
      else if p ! 1 = 1 then handleAVCNALUs (drop 5 p) (msg_timestamp msg) c
      else ([], c, None))"

section \<open>Audio\<close>

definition aacSampleRates :: "u32 list" where
  "aacSampleRates = [96000, 88200, 64000, 48000, 44100, 32000, 24000, 22050, 16000, 12000, 11025, 8000, 7350]"

definition parseASC :: "u8 \<Rightarrow> u8 \<Rightarrow> aacDecoderConfig" where
  "parseASC b0 b1 =
     (let sampleIdx = unat (push_bit 1 (b0 AND 0x07) OR drop_bit 7 b1);
          chanCfg = drop_bit 3 b1 AND 0x0f in
      \<lparr>aa_sampleRate = (if sampleIdx < length aacSampleRates then aacSampleRates ! sampleIdx else 44100),
       aa_channels = ucast chanCfg\<rparr>)"

definition handleAACSequenceHeader :: "bytes \<Rightarrow> Conn \<Rightarrow> conn_result" where
  "handleAACSequenceHeader data c =
     (if length data < 2 then ([], c, Some AacShort)
      else
        let cfg = parseASC (data ! 0) (data ! 1);
            c = c\<lparr>cn_aacConfig := Some cfg, cn_hasAudio := True, cn_audioClock := 0\<rparr> in
        if \<not> cn_audioTrackReported c
        then (case rtmpReportAudioTrack cfg c of (out, c) \<Rightarrow> (out, c, None))
        else ([], c, None))"

definition handleAACRaw :: "bytes \<Rightarrow> u32 \<Rightarrow> Conn \<Rightarrow> conn_result" where
  "handleAACRaw data timestamp c =
     (case cn_aacConfig c of
        None \<Rightarrow> ([], c, None)
      | Some cfg \<Rightarrow>
          if length data = 0 then ([], c, None)
          else
            ([RtmpFrame (cn_sessionID c) ''audio''
                (zero_frame\<lparr>fr_Type := FrameAudio, fr_Codec := CodecAAC, fr_Payload := data,
                   fr_Timestamp := timestamp * (aa_sampleRate cfg div 1000), fr_Sequence := cn_audioSeq c,
                   fr_SSRC := cn_audioSSRC c, fr_SampleRate := aa_sampleRate cfg,
                   fr_Channels := aa_channels cfg, fr_Marker := True\<rparr>)],
             c\<lparr>cn_audioSeq := cn_audioSeq c + 1\<rparr>, None))"

definition handleAudio :: "message \<Rightarrow> Conn \<Rightarrow> conn_result" where
  "handleAudio msg c =
     (let p = msg_payload msg in
      if length p < 2 then ([], c, None)
      else if drop_bit 4 (p ! 0) \<noteq> 10 then ([], c, None)
      else if p ! 1 = 0 then handleAACSequenceHeader (drop 2 p) c
      else if p ! 1 = 1 then handleAACRaw (drop 2 p) (msg_timestamp msg) c
      else ([], c, None))"

section \<open>Commands\<close>

definition sendOnStatus :: "range_order \<Rightarrow> u32 \<Rightarrow> (bytes \<times> AMFValue) list \<Rightarrow> Conn \<Rightarrow> RtmpOut list" where
  "sendOnStatus rng streamID info c =
     writeCommandMessage streamID
       (WriteString (lit ''onStatus'') @ WriteNumber 0 @ WriteNull @ WriteObject (rng info)) c"

definition handleConnect :: "range_order \<Rightarrow> AMFValue list \<Rightarrow> u64 \<Rightarrow> Conn \<Rightarrow> conn_result" where
  "handleConnect rng values txnID c =
     (let c = (if length values > 2 then
                 (case amfObject (values ! 2) of
                    None \<Rightarrow> c
                  | Some obj \<Rightarrow>
                      (case map_of obj (lit ''app'') of
                         None \<Rightarrow> c
                       | Some app \<Rightarrow>
                           (case amfString app of None \<Rightarrow> c | Some s \<Rightarrow> c\<lparr>cn_streamKey := s\<rparr>)))
               else c);
          out1 = sendWindowAckSize 2500000 c;
          out2 = sendSetPeerBandwidth 2500000 2 c;
          (out3, c) = sendSetChunkSize 4096 c;
          out4 = writeCommandMessage 0
            (WriteString (lit ''_result'') @ WriteNumber txnID @ WriteObject (rng ConnectResultProps) @
             WriteObject (rng ConnectResultInfo)) c in
      (out1 @ out2 @ out3 @ out4, c, None))"

definition handleCreateStream :: "u64 \<Rightarrow> Conn \<Rightarrow> conn_result" where
  "handleCreateStream txnID c =
     (let c = c\<lparr>cn_streamID := 1\<rparr> in
      (writeCommandMessage 0
         (WriteString (lit ''_result'') @ WriteNumber txnID @ WriteNull @
          WriteNumber (float64_of_nat (unat (cn_streamID c)))) c, c, None))"

definition withStreamName :: "AMFValue list \<Rightarrow> Conn \<Rightarrow> Conn" where
  "withStreamName values c =
     (let streamName = (if length values > 3 then
                          (case amfString (values ! 3) of Some s \<Rightarrow> s | None \<Rightarrow> [])
                        else []) in
      if streamName \<noteq> [] then c\<lparr>cn_streamKey := cn_streamKey c @ lit ''/'' @ streamName\<rparr> else c)"

definition handlePublish :: "range_order \<Rightarrow> AMFValue list \<Rightarrow> u32 \<Rightarrow> Conn \<Rightarrow> conn_result" where
  "handlePublish rng values streamID c =
     (let c = withStreamName values c in
      (sendOnStatus rng streamID
         (PublishStatusInfo (lit ''NetStream.Publish.Start'') (lit ''Started publishing stream.'')) c, c, None))"

definition handlePlay :: "range_order \<Rightarrow> AMFValue list \<Rightarrow> u32 \<Rightarrow> Conn \<Rightarrow> conn_result" where
  "handlePlay rng values streamID c =
     (let c = (withStreamName values c)\<lparr>cn_playMode := True, cn_playSess := Some newPlaySession\<rparr>;
          out1 = sendUserControl 0 streamID c;
          out2 = sendOnStatus rng streamID
            (PublishStatusInfo (lit ''NetStream.Play.Reset'') (lit ''Playing and resetting stream.'')) c;
          out3 = sendOnStatus rng streamID
            (PublishStatusInfo (lit ''NetStream.Play.Start'') (lit ''Started playing stream.'')) c;
          out4 = [RtmpSent (sendOnMetaData rng (cn_writer c) streamID newPlaySession)] in
      (out1 @ out2 @ out3 @ out4 @ reportPlayTracks c, c, None))"

definition handleCommand :: "range_order \<Rightarrow> message \<Rightarrow> Conn \<Rightarrow> conn_result" where
  "handleCommand rng msg c =
     (case DecodeAMF0 (msg_payload msg) of
        (_, Some e) \<Rightarrow> ([], c, Some (DecodeCommand e))
      | (values, None) \<Rightarrow>
          if length values = 0 then ([], c, Some EmptyCommand)
          else
            (case amfString (values ! 0) of
               None \<Rightarrow> ([], c, Some NameNotString)
             | Some cmdName \<Rightarrow>
                 let txnID = (if length values > 1 then
                                (case amfNumber (values ! 1) of Some n \<Rightarrow> n | None \<Rightarrow> 0)
                              else 0) in
                 if cmdName = lit ''connect'' then handleConnect rng values txnID c
                 else if cmdName = lit ''createStream'' then handleCreateStream txnID c
                 else if cmdName = lit ''publish'' then handlePublish rng values (msg_streamID msg) c
                 else if cmdName = lit ''play'' then handlePlay rng values (msg_streamID msg) c
                 else ([], c, None)))"

section \<open>The connection\<close>

definition handleMessage :: "range_order \<Rightarrow> message \<Rightarrow> Conn \<Rightarrow> conn_result" where
  "handleMessage rng msg c =
     (if msg_type msg = 1 then handleSetChunkSize msg c
      else if msg_type msg = 5 then handleWindowAckSize msg c
      else if msg_type msg = 20 \<or> msg_type msg = 17 then handleCommand rng msg c
      else if msg_type msg = 8 then handleAudio msg c
      else if msg_type msg = 9 then handleVideo msg c
      else ([], c, None))"

definition countReceived :: "message \<Rightarrow> Conn \<Rightarrow> RtmpOut list \<times> Conn" where
  "countReceived msg c =
     (let c = c\<lparr>cn_bytesReceived := cn_bytesReceived c + of_nat (length (msg_payload msg))\<rparr> in
      if cn_windowAckSize c > 0 \<and> cn_bytesReceived c \<ge> cn_windowAckSize c
      then (sendAcknowledgement (cn_bytesReceived c) c, c\<lparr>cn_bytesReceived := 0\<rparr>)
      else ([], c))"

definition onMessage :: "range_order \<Rightarrow> message \<Rightarrow> Conn \<Rightarrow> conn_result" where
  "onMessage rng msg c =
     (case countReceived msg c of
        (out, c) \<Rightarrow> (case handleMessage rng msg c of (out', c, e) \<Rightarrow> (out @ out', c, e)))"

text \<open>
  The read loop. The comparison \<open>err == io.EOF\<close> is never true, because \<open>ReadMessage\<close> wraps every
  error it returns. Each message takes at least one byte of the input.
\<close>

fun serve_loop :: "nat \<Rightarrow> range_order \<Rightarrow> Conn \<Rightarrow> bytes \<Rightarrow> conn_result" where
  "serve_loop 0 rng c s = ([], c, Some ServeFuel)"
| "serve_loop (Suc f) rng c s =
     (case ReadMessage (cn_reader c) s of
        Inl e \<Rightarrow> ([], c, if cn_closed c then None else Some (ReadFailed e))
      | Inr (msg, cr, s) \<Rightarrow>
          (case onMessage rng msg (c\<lparr>cn_reader := cr\<rparr>) of
             (out, c, Some e) \<Rightarrow> (out, c, Some e)
           | (out, c, None) \<Rightarrow> (case serve_loop f rng c s of (out', c, e) \<Rightarrow> (out @ out', c, e))))"

definition rtmpCleanup :: "Conn \<Rightarrow> RtmpOut list \<times> Conn" where
  "rtmpCleanup c =
     ([RtmpEvent (rtmp_event EventHangup None c)],
      c\<lparr>cn_playSess := map_option stopPlay (cn_playSess c)\<rparr>)"

definition Serve :: "range_order \<Rightarrow> Conn \<Rightarrow> bytes \<Rightarrow> conn_result" where
  "Serve rng c s =
     (case serve_loop (length s + 1) rng c s of
        (out, c', e) \<Rightarrow>
          (case rtmpCleanup c' of
             (out', c') \<Rightarrow>
               (RtmpEvent ((rtmp_event EventIncomingCall None c)\<lparr>ev_From := cn_remote c, ev_To := cn_streamKey c\<rparr>) #
                out @ out', c', e)))"

definition connClose :: "Conn \<Rightarrow> Conn" where
  "connClose c = c\<lparr>cn_closed := True\<rparr>"

definition connSendCommand :: "ProtocolCommand \<Rightarrow> Conn \<Rightarrow> Conn" where
  "connSendCommand cmd c = (if cmd_Type cmd = CmdHangup then connClose c else c)"

definition connSendMediaFrame :: "bool \<Rightarrow> string \<Rightarrow> MediaFrame \<Rightarrow> Conn \<Rightarrow> Conn \<times> conn_error option" where
  "connSendMediaFrame pick trackID frame c =
     (case cn_playSess c of
        None \<Rightarrow> (c, Some NotPlaying)
      | Some ps \<Rightarrow>
          (case playSendMediaFrame pick trackID frame ps of
             (ps, e) \<Rightarrow> (c\<lparr>cn_playSess := Some ps\<rparr>, map_option PlayFailed e)))"

definition SetVideoConfig :: "bytes option \<Rightarrow> bytes option \<Rightarrow> Conn \<Rightarrow> Conn" where
  "SetVideoConfig sps pps c = c\<lparr>cn_playSess := map_option (setVideoConfig sps pps) (cn_playSess c)\<rparr>"

definition SetAudioConfig :: "bytes option \<Rightarrow> u32 \<Rightarrow> u16 \<Rightarrow> Conn \<Rightarrow> Conn" where
  "SetAudioConfig asc sampleRate channels c =
     c\<lparr>cn_playSess := map_option (setAudioConfig asc sampleRate channels) (cn_playSess c)\<rparr>"

text \<open>The sending goroutine of the play session takes its next frame.\<close>

definition connPlayStep :: "bool \<Rightarrow> Conn \<Rightarrow> (RtmpOut list \<times> Conn) option" where
  "connPlayStep pick c =
     (case cn_playSess c of
        None \<Rightarrow> None
      | Some ps \<Rightarrow>
          (case sendLoop_step pick (cn_writer c) (cn_streamID c) ps of
             None \<Rightarrow> None
           | Some (out, ps) \<Rightarrow> Some ([RtmpSent out], c\<lparr>cn_playSess := Some ps\<rparr>)))"

section \<open>Specification\<close>

text \<open>
  What a publisher's connection may report between its first and its last event: each track once,
  a frame only on a track that was reported, and the frames of a track numbered without gaps.
\<close>

record ingest_view =
  iv_video :: bool
  iv_audio :: bool
  iv_videoSeq :: u16
  iv_audioSeq :: u16

fun ingest :: "string \<Rightarrow> ingest_view \<Rightarrow> RtmpOut \<Rightarrow> ingest_view option" where
  "ingest sid v (RtmpSent b) = Some v"
| "ingest sid v (RtmpEvent ev) =
     (case ev_Track ev of
        None \<Rightarrow> None
      | Some t \<Rightarrow>
          if ev_Type ev \<noteq> EventTrackAdded \<or> ev_SessionID ev \<noteq> sid then None
          else if ti_Direction t = TrackSend then Some v
          else if ti_ID t = ''video'' \<and> \<not> iv_video v then Some (v\<lparr>iv_video := True\<rparr>)
          else if ti_ID t = ''audio'' \<and> \<not> iv_audio v then Some (v\<lparr>iv_audio := True\<rparr>)
          else None)"
| "ingest sid v (RtmpFrame s tid fr) =
     (if s \<noteq> sid then None
      else if tid = ''video'' \<and> iv_video v \<and> fr_Sequence fr = iv_videoSeq v
      then Some (v\<lparr>iv_videoSeq := iv_videoSeq v + 1\<rparr>)
      else if tid = ''audio'' \<and> iv_audio v \<and> fr_Sequence fr = iv_audioSeq v
      then Some (v\<lparr>iv_audioSeq := iv_audioSeq v + 1\<rparr>)
      else None)"

fun ingests :: "string \<Rightarrow> ingest_view \<Rightarrow> RtmpOut list \<Rightarrow> ingest_view option" where
  "ingests sid v [] = Some v"
| "ingests sid v (x # xs) = (case ingest sid v x of None \<Rightarrow> None | Some v \<Rightarrow> ingests sid v xs)"

definition view :: "Conn \<Rightarrow> ingest_view" where
  "view c = \<lparr>iv_video = cn_videoTrackReported c, iv_audio = cn_audioTrackReported c,
             iv_videoSeq = cn_videoSeq c, iv_audioSeq = cn_audioSeq c\<rparr>"

definition conn_ok :: "Conn \<Rightarrow> bool" where
  "conn_ok c \<longleftrightarrow>
     reader_ok (cn_reader c) \<and> \<not> cn_closed c \<and>
     (cn_avcConfig c \<noteq> None \<longrightarrow> cn_videoTrackReported c) \<and> (cn_aacConfig c \<noteq> None \<longrightarrow> cn_audioTrackReported c)"

definition conn_step_ok :: "Conn \<Rightarrow> conn_result \<Rightarrow> bool" where
  "conn_step_ok c res \<longleftrightarrow>
     (case res of (out, c', e) \<Rightarrow>
        conn_ok c' \<and> cn_sessionID c' = cn_sessionID c \<and>
        ingests (cn_sessionID c) (view c) out = Some (view c') \<and>
        e \<noteq> Some ServeFuel \<and> e \<noteq> Some (ReadFailed SlicePanic) \<and> e \<noteq> Some (ReadFailed ChunkFuel))"

section \<open>What a publisher's connection reports\<close>

lemma ingests_append:
  "ingests sid v (xs @ ys) = (case ingests sid v xs of None \<Rightarrow> None | Some v \<Rightarrow> ingests sid v ys)"
  by (induction xs arbitrary: v) (auto split: option.splits)

lemma ingests_sent:
  "ingests sid v (writeControlMessage t p c) = Some v" "ingests sid v (writeCommandMessage i p c) = Some v"
  by (simp_all add: writeControlMessage_def writeCommandMessage_def)

lemmas sends = sendAcknowledgement_def sendWindowAckSize_def sendSetPeerBandwidth_def sendUserControl_def
  sendOnStatus_def

lemma ok_quiet: "conn_ok c \<Longrightarrow> e \<noteq> Some ServeFuel \<Longrightarrow> \<forall>x. e \<noteq> Some (ReadFailed x) \<Longrightarrow> conn_step_ok c ([], c, e)"
  by (simp add: conn_step_ok_def)

lemma handleSetChunkSize_ok: "conn_ok c \<Longrightarrow> conn_step_ok c (handleSetChunkSize msg c)"
  by (auto simp: handleSetChunkSize_def Let_def conn_step_ok_def conn_ok_def view_def SetReaderChunkSize_def
      reader_ok_def)

lemma handleWindowAckSize_ok: "conn_ok c \<Longrightarrow> conn_step_ok c (handleWindowAckSize msg c)"
  by (auto simp: handleWindowAckSize_def conn_step_ok_def conn_ok_def view_def)

lemma readParamSets_error:
  "readParamSets e1 e2 data n pos kept = Inl e \<Longrightarrow> e = e1 \<or> e = e2"
  by (induction n arbitrary: pos kept) (auto simp: Let_def split: if_splits)

lemma report_consts: "TrackSend \<noteq> TrackRecv" "TrackRecv \<noteq> TrackSend"
  by (simp_all add: TrackSend_def TrackRecv_def)

lemmas report_defs = rtmpReportVideoTrack_def rtmpReportAudioTrack_def rtmp_event_def rtmp_track_def report_consts

lemma handleAVCSequenceHeader_ok: "conn_ok c \<Longrightarrow> conn_step_ok c (handleAVCSequenceHeader data c)"
  unfolding handleAVCSequenceHeader_def
  by (auto simp: Let_def report_defs conn_step_ok_def conn_ok_def view_def
      split: sum.splits dest!: readParamSets_error)

lemma forwardNALUs_ok:
  "conn_ok c \<Longrightarrow> cn_avcConfig c \<noteq> None \<Longrightarrow>
   conn_step_ok c (case forwardNALUs ts ns c of (out, c') \<Rightarrow> (out, c', None))"
proof (induction ns arbitrary: c)
  case (Cons n ns)
  let ?c = "c\<lparr>cn_videoSeq := cn_videoSeq c + 1\<rparr>"
  have "conn_ok ?c" using Cons.prems(1) by (simp add: conn_ok_def)
  from Cons.IH [OF this] Cons.prems show ?case
    by (auto simp: conn_step_ok_def view_def conn_ok_def Let_def split: prod.splits)
qed (simp add: conn_step_ok_def)

lemma handleAVCNALUs_ok: "conn_ok c \<Longrightarrow> conn_step_ok c (handleAVCNALUs data ts c)"
  unfolding handleAVCNALUs_def using forwardNALUs_ok [of c "ts * 90" "readNALUs data 0"] by (simp add: ok_quiet)

lemma handleVideo_ok: "conn_ok c \<Longrightarrow> conn_step_ok c (handleVideo msg c)"
  by (simp add: handleVideo_def Let_def ok_quiet handleAVCSequenceHeader_ok handleAVCNALUs_ok)

lemma handleAudio_ok: "conn_ok c \<Longrightarrow> conn_step_ok c (handleAudio msg c)"
  unfolding handleAudio_def handleAACSequenceHeader_def handleAACRaw_def Let_def
  by (auto intro!: ok_quiet simp: report_defs conn_step_ok_def conn_ok_def view_def split: option.splits)

lemma handleConnect_ok: "conn_ok c \<Longrightarrow> conn_step_ok c (handleConnect rng vs t c)"
  unfolding handleConnect_def Let_def sendSetChunkSize_def
  by (auto simp: sends ingests_append ingests_sent conn_step_ok_def conn_ok_def view_def split: option.splits)

lemma withStreamName_ok:
  "conn_ok c \<Longrightarrow> conn_ok (withStreamName vs c)" "view (withStreamName vs c) = view c"
  "cn_sessionID (withStreamName vs c) = cn_sessionID c"
  by (simp_all add: withStreamName_def Let_def conn_ok_def view_def)

lemma handlePublish_ok: "conn_ok c \<Longrightarrow> conn_step_ok c (handlePublish rng vs i c)"
  unfolding handlePublish_def Let_def
  by (simp add: sends ingests_append ingests_sent conn_step_ok_def withStreamName_ok)

lemma handlePlay_ok: "conn_ok c \<Longrightarrow> conn_step_ok c (handlePlay rng vs i c)"
  using withStreamName_ok(1) [of c vs] withStreamName_ok(2,3) [of vs c] unfolding handlePlay_def Let_def
  by (simp add: sends ingests_append ingests_sent conn_step_ok_def conn_ok_def view_def reportPlayTracks_def
      report_defs)

lemma handleCreateStream_ok: "conn_ok c \<Longrightarrow> conn_step_ok c (handleCreateStream t c)"
  by (simp add: handleCreateStream_def Let_def ingests_sent conn_step_ok_def conn_ok_def view_def)

lemma handleCommand_ok:
  assumes "conn_ok c"
  shows "conn_step_ok c (handleCommand rng msg c)"
proof -
  obtain vs e where d: "DecodeAMF0 (msg_payload msg) = (vs, e)" by (cases "DecodeAMF0 (msg_payload msg)")
  note ok = ok_quiet [OF assms] handleConnect_ok [OF assms] handleCreateStream_ok [OF assms]
    handlePublish_ok [OF assms] handlePlay_ok [OF assms]
  show ?thesis
  proof (cases e)
    case None
    then show ?thesis
      by (cases "amfString (vs ! 0)") (simp_all only: handleCommand_def d prod.case option.case Let_def, simp_all add: ok)
  qed (simp add: handleCommand_def d ok)
qed

lemma handleMessage_ok: "conn_ok c \<Longrightarrow> conn_step_ok c (handleMessage rng msg c)"
  by (simp add: handleMessage_def handleSetChunkSize_ok handleWindowAckSize_ok handleCommand_ok handleAudio_ok
      handleVideo_ok ok_quiet)

lemma countReceived_ok: "conn_ok c \<Longrightarrow> countReceived msg c = (out, c') \<Longrightarrow> conn_step_ok c (out, c', None)"
  by (auto simp: countReceived_def Let_def sends ingests_sent conn_step_ok_def conn_ok_def view_def split: if_splits)

lemma conn_step_ok_trans:
  "conn_step_ok c (out, c', None) \<Longrightarrow> conn_step_ok c' (out', c'', e) \<Longrightarrow> conn_step_ok c (out @ out', c'', e)"
  by (simp add: conn_step_ok_def ingests_append)

lemma onMessage_ok:
  assumes "conn_ok c"
  shows "conn_step_ok c (onMessage rng msg c)"
proof -
  obtain out c1 where r: "countReceived msg c = (out, c1)" by (cases "countReceived msg c")
  obtain out' c2 e where h: "handleMessage rng msg c1 = (out', c2, e)" by (cases "handleMessage rng msg c1")
  have 1: "conn_step_ok c (out, c1, None)" by (rule countReceived_ok [OF assms r])
  then have "conn_ok c1" by (simp add: conn_step_ok_def)
  from conn_step_ok_trans [OF 1 handleMessage_ok [OF this, of rng msg, unfolded h]] show ?thesis
    by (simp add: onMessage_def r h)
qed

lemma ReadMessage_ok:
  assumes "reader_ok cr"
  shows "case ReadMessage cr s of
      Inl e \<Rightarrow> benign e
    | Inr (msg, cr', s') \<Rightarrow> reader_ok cr' \<and> cr_chunkSize cr' = cr_chunkSize cr \<and> length s' < length s"
  using ReadMessage_loop_sound [OF assms, of s "length s + 1"] by (simp add: ReadMessage_def)

lemma serve_loop_ok:
  "conn_ok c \<Longrightarrow> length s < f \<Longrightarrow> conn_step_ok c (serve_loop f rng c s) \<and> snd (snd (serve_loop f rng c s)) \<noteq> None"
proof (induction f arbitrary: c s)
  case (Suc f)
  have r: "reader_ok (cn_reader c)" using Suc.prems(1) by (simp add: conn_ok_def)
  show ?case
  proof (cases "ReadMessage (cn_reader c) s")
    case (Inl e)
    with ReadMessage_ok [OF r, of s] Suc.prems(1) show ?thesis
      by (auto simp: benign_def conn_step_ok_def conn_ok_def)
  next
    case (Inr x)
    obtain msg cr s' where x: "x = (msg, cr, s')" by (cases x)
    let ?c = "c\<lparr>cn_reader := cr\<rparr>"
    have s': "reader_ok cr" "length s' < length s" using ReadMessage_ok [OF r, of s] Inr x by auto
    then have c: "conn_ok ?c" "view ?c = view c" using Suc.prems(1) by (simp_all add: conn_ok_def view_def)
    obtain out c1 e where m: "onMessage rng msg ?c = (out, c1, e)" by (cases "onMessage rng msg ?c")
    have 1: "conn_step_ok c (out, c1, e)"
      using onMessage_ok [OF c(1), of rng msg] c(2) by (simp add: m conn_step_ok_def)
    show ?thesis
    proof (cases e)
      case None
      then have "conn_ok c1" using 1 by (simp add: conn_step_ok_def)
      moreover have "length s' < f" using s'(2) Suc.prems(2) by simp
      ultimately have IH: "conn_step_ok c1 (serve_loop f rng c1 s')" "snd (snd (serve_loop f rng c1 s')) \<noteq> None"
        using Suc.IH by blast+
      obtain out' c2 e' where l: "serve_loop f rng c1 s' = (out', c2, e')" by (cases "serve_loop f rng c1 s'")
      show ?thesis
        using conn_step_ok_trans [OF 1 [unfolded None] IH(1) [unfolded l]] IH(2) by (simp add: Inr x m None l)
    qed (use 1 in \<open>simp add: Inr x m\<close>)
  qed
qed simp

text \<open>
  C5. Whatever bytes a peer sends, its connection ends, and the application hears of it in order:
  the incoming call first, then each track at most once and before its first frame, the frames of
  a track numbered without gaps under the session's id, and last one hang-up. Reassembly never
  slices out of range. And \<open>Serve\<close> never returns without an error: also a peer that closes the
  connection between two messages is reported as a failure.
\<close>

theorem rtmp_publish_contract:
  "\<exists>mid c e. Serve rng (NewConn sid remote v a) s =
      (RtmpEvent \<lparr>ev_Type = EventIncomingCall, ev_Protocol = ''rtmp'', ev_SessionID = sid, ev_From = remote,
                  ev_To = [], ev_Track = None\<rparr> # mid @
       [RtmpEvent \<lparr>ev_Type = EventHangup, ev_Protocol = ''rtmp'', ev_SessionID = sid, ev_From = [],
                   ev_To = [], ev_Track = None\<rparr>], c, Some e)
    \<and> ingests sid \<lparr>iv_video = False, iv_audio = False, iv_videoSeq = 0, iv_audioSeq = 0\<rparr> mid = Some (view c)
    \<and> e \<noteq> ServeFuel \<and> e \<noteq> ReadFailed SlicePanic \<and> e \<noteq> ReadFailed ChunkFuel"
proof -
  let ?c = "NewConn sid remote v a"
  have c: "conn_ok ?c" "view ?c = \<lparr>iv_video = False, iv_audio = False, iv_videoSeq = 0, iv_audioSeq = 0\<rparr>"
    by (simp_all add: NewConn_def conn_ok_def view_def reader_ok_New)
  obtain out c1 e where l: "serve_loop (length s + 1) rng ?c s = (out, c1, e)"
    by (cases "serve_loop (length s + 1) rng ?c s")
  have ok: "conn_step_ok ?c (out, c1, e)" "e \<noteq> None"
    using serve_loop_ok [OF c(1), of s "length s + 1" rng] l by simp_all
  obtain e' where e: "e = Some e'" using ok(2) by blast
  have f: "cn_sessionID ?c = sid" "cn_remote ?c = remote" "cn_streamKey ?c = []" by (simp_all add: NewConn_def)
  define c' where "c' = c1\<lparr>cn_playSess := map_option stopPlay (cn_playSess c1)\<rparr>"
  have c': "view c' = view c1" by (simp add: c'_def view_def)
  show ?thesis
    unfolding Serve_def l prod.case rtmpCleanup_def c'_def [symmetric]
    by (rule exI [of _ out], rule exI [of _ c'], rule exI [of _ e'])
      (use ok(1) c(2) in \<open>simp add: e c' f rtmp_event_def conn_step_ok_def\<close>)
qed

end
