(* ===== verification/RtmpRelay.thy ===== *)
theory RtmpRelay
  imports RtmpConn "HOL-Library.Multiset"
begin

text \<open>
  Two RTMP connections back to back: the bytes that a play connection writes from its \<open>connect\<close>
  on (\<open>handler.go\<close>, \<open>handler_play.go\<close>) are the input of a connection that ingests them. The theorem
  composes the AMF0 codec, the chunk stream with its change of chunk size, the AVC and AAC framing
  and both connection handlers.
\<close>

section \<open>A play connection\<close>

text \<open>The orders in which Go ranges over a map are permutations.\<close>

definition range_ok :: "range_order \<Rightarrow> bool" where
  "range_ok rng \<longleftrightarrow> (\<forall>ps. mset (rng ps) = mset ps)"

fun sent :: "RtmpOut list \<Rightarrow> bytes" where
  "sent [] = []"
| "sent (RtmpSent b # out) = b @ sent out"
| "sent (_ # out) = sent out"

text \<open>A frame of the application: H.264 units behind one kind of start code, or an AAC frame.\<close>

datatype play_item =
    PlayVideo bytes "bytes list" u32
  | PlayAudio bytes u32 u32

fun item_frame :: "play_item \<Rightarrow> string \<times> MediaFrame" where
  "item_frame (PlayVideo sc nals ts) =
     (''video'', zero_frame\<lparr>fr_Type := FrameVideo, fr_Codec := CodecH264, fr_Payload := coded sc nals,
                            fr_Timestamp := ts\<rparr>)"
| "item_frame (PlayAudio payload ts rate) =
     (''audio'', zero_frame\<lparr>fr_Type := FrameAudio, fr_Codec := CodecAAC, fr_Payload := payload,
                            fr_Timestamp := ts, fr_SampleRate := rate\<rparr>)"

text \<open>The application hands over one frame and the sending goroutine takes it.\<close>

definition play_one :: "play_item \<Rightarrow> Conn \<Rightarrow> (bytes \<times> Conn) option" where
  "play_one it c =
     (case item_frame it of (tid, fr) \<Rightarrow>
        (case connSendMediaFrame False tid fr c of
           (c, Some e) \<Rightarrow> None
         | (c, None) \<Rightarrow> map_option (\<lambda>(out, c). (sent out, c)) (connPlayStep False c)))"

fun play_items :: "play_item list \<Rightarrow> Conn \<Rightarrow> bytes option" where
  "play_items [] c = Some []"
| "play_items (it # its) c =
     (case play_one it c of None \<Rightarrow> None | Some (b, c) \<Rightarrow> map_option (\<lambda>b'. b @ b') (play_items its c))"

text \<open>All a play connection writes for \<open>connect\<close>, \<open>createStream\<close>, \<open>play\<close> and the frames.\<close>

definition play_stream ::
  "range_order \<Rightarrow> AMFValue list \<Rightarrow> u64 \<Rightarrow> u64 \<Rightarrow> AMFValue list \<Rightarrow> u32 \<Rightarrow> bytes \<Rightarrow> bytes \<Rightarrow> bytes \<Rightarrow> u32 \<Rightarrow> u16 \<Rightarrow>
   play_item list \<Rightarrow> Conn \<Rightarrow> bytes option" where
  "play_stream rng connect t1 t2 play streamID sps pps asc rate channels items c =
     (case handleConnect rng connect t1 c of (out1, c, _) \<Rightarrow>
        (case handleCreateStream t2 c of (out2, c, _) \<Rightarrow>
           (case handlePlay rng play streamID c of (out3, c, _) \<Rightarrow>
              map_option (\<lambda>b. sent out1 @ sent out2 @ sent out3 @ b)
                (play_items items (SetAudioConfig (Some asc) rate channels (SetVideoConfig (Some sps) (Some pps) c))))))"

section \<open>What the peer must hear\<close>

fun frames_of :: "RtmpOut list \<Rightarrow> (string \<times> string \<times> MediaFrame) list" where
  "frames_of [] = []"
| "frames_of (RtmpFrame sid tid fr # out) = (sid, tid, fr) # frames_of out"
| "frames_of (_ # out) = frames_of out"

definition nal_frames :: "u32 \<Rightarrow> u16 \<Rightarrow> u32 \<Rightarrow> bytes list \<Rightarrow> MediaFrame list" where
  "nal_frames ssrc seq ts nals =
     map (\<lambda>i. zero_frame\<lparr>fr_Type := FrameVideo, fr_Codec := CodecH264, fr_Payload := nals ! i, fr_Timestamp := ts,
                fr_Sequence := seq + of_nat i, fr_SSRC := ssrc, fr_SampleRate := 90000,
                fr_Marker := (i + 1 = length nals)\<rparr>) [0..<length nals]"

text \<open>The player's time stamp in milliseconds.\<close>

definition video_ms :: "u32 \<Rightarrow> u32" where
  "video_ms ts = ts div 90"

definition audio_ms :: "u32 \<Rightarrow> u32 \<Rightarrow> u32" where
  "audio_ms ts rate = ucast ((ucast ts * 1000 :: u64) div ucast rate)"

text \<open>\<open>r\<close> is the rate the player converts with, \<open>cfg\<close> what the peer reads from the sequence header.\<close>

fun expected ::
  "string \<Rightarrow> u32 \<Rightarrow> u32 \<Rightarrow> u32 \<Rightarrow> aacDecoderConfig \<Rightarrow> u16 \<Rightarrow> u16 \<Rightarrow> play_item list \<Rightarrow>
   (string \<times> string \<times> MediaFrame) list" where
  "expected sid vssrc assrc r cfg vseq aseq [] = []"
| "expected sid vssrc assrc r cfg vseq aseq (PlayVideo sc nals ts # its) =
     map (\<lambda>fr. (sid, ''video'', fr)) (nal_frames vssrc vseq (video_ms ts * 90) nals) @
     expected sid vssrc assrc r cfg (vseq + of_nat (length nals)) aseq its"
| "expected sid vssrc assrc r cfg vseq aseq (PlayAudio payload ts rate # its) =
     (sid, ''audio'', zero_frame\<lparr>fr_Type := FrameAudio, fr_Codec := CodecAAC, fr_Payload := payload,
        fr_Timestamp := audio_ms ts (if rate > 0 then rate else r) * (aa_sampleRate cfg div 1000),
        fr_Sequence := aseq, fr_SSRC := assrc, fr_SampleRate := aa_sampleRate cfg,
        fr_Channels := aa_channels cfg, fr_Marker := True\<rparr>) #
     expected sid vssrc assrc r cfg vseq (aseq + 1) its"

text \<open>
  Items the chunk format carries: payloads below 16 MiB and times below the extended time stamp,
  which the reader of \<open>RtmpChunk\<close> does not understand in messages of several chunks.
\<close>

fun item_ok :: "u32 \<Rightarrow> play_item \<Rightarrow> bool" where
  "item_ok r (PlayVideo sc nals ts) \<longleftrightarrow>
     (sc = [0, 0, 1] \<or> sc = [0, 0, 0, 1]) \<and> nals \<noteq> [] \<and> list_all nal_ok nals \<and>
     5 + (\<Sum>n \<leftarrow> nals. 4 + length n) < 2 ^ 24 \<and> video_ms ts < 0xFFFFFF"
| "item_ok r (PlayAudio payload ts rate) \<longleftrightarrow>
     payload \<noteq> [] \<and> 2 + length payload < 2 ^ 24 \<and> (rate > 0 \<or> r > 0) \<and>
     audio_ms ts (if rate > 0 then rate else r) < 0xFFFFFF"

text \<open>Codec configurations that fit the sequence headers.\<close>

definition headers_ok :: "bytes \<Rightarrow> bytes \<Rightarrow> bytes \<Rightarrow> bool" where
  "headers_ok sps pps asc \<longleftrightarrow>
     4 \<le> length sps \<and> length sps < 2 ^ 16 \<and> pps \<noteq> [] \<and> length pps < 2 ^ 16 \<and>
     2 \<le> length asc \<and> length asc < 2 ^ 16"

section \<open>A peer that reads\<close>

record peer_state =
  pe_vseq :: u16
  pe_aseq :: u16
  pe_avc :: bool
  pe_aac :: "aacDecoderConfig option"

definition peer :: "string \<Rightarrow> u32 \<Rightarrow> u32 \<Rightarrow> peer_state \<Rightarrow> nat \<Rightarrow> Conn \<Rightarrow> bool" where
  "peer sid vssrc assrc st k q \<longleftrightarrow>
     cn_sessionID q = sid \<and> cn_videoSSRC q = vssrc \<and> cn_audioSSRC q = assrc \<and>
     cn_videoSeq q = pe_vseq st \<and> cn_audioSeq q = pe_aseq st \<and>
     (cn_avcConfig q \<noteq> None \<longleftrightarrow> pe_avc st) \<and> cn_aacConfig q = pe_aac st \<and>
     cr_chunkSize (cn_reader q) = k \<and> 0 < k \<and> \<not> cn_closed q"

text \<open>A message that changes the peer from \<open>st\<close> to \<open>st'\<close> and lets it report the frames \<open>fs\<close>.\<close>

definition understands ::
  "range_order \<Rightarrow> (peer_state \<Rightarrow> nat \<Rightarrow> Conn \<Rightarrow> bool) \<Rightarrow> peer_state \<Rightarrow> nat \<Rightarrow> message \<Rightarrow>
   (string \<times> string \<times> MediaFrame) list \<Rightarrow> peer_state \<Rightarrow> nat \<Rightarrow> bool" where
  "understands rng P st k m fs st' k' \<longleftrightarrow>
     (\<forall>q. P st k q \<longrightarrow> (\<exists>out q'. handleMessage rng m q = (out, q', None) \<and> frames_of out = fs \<and> P st' k' q'))"

abbreviation prepend :: "RtmpOut list \<Rightarrow> conn_result \<Rightarrow> conn_result" where
  "prepend out r \<equiv> (case r of (out', c, e) \<Rightarrow> (out @ out', c, e))"

text \<open>The same for a stretch of the byte stream, read in at most as many steps as it has bytes.\<close>

definition delivers ::
  "range_order \<Rightarrow> (peer_state \<Rightarrow> nat \<Rightarrow> Conn \<Rightarrow> bool) \<Rightarrow> peer_state \<Rightarrow> nat \<Rightarrow> bytes \<Rightarrow>
   (string \<times> string \<times> MediaFrame) list \<Rightarrow> peer_state \<Rightarrow> nat \<Rightarrow> bool" where
  "delivers rng P st k bs fs st' k' \<longleftrightarrow>
     (\<forall>q s. P st k q \<longrightarrow>
        (\<exists>out q' n. frames_of out = fs \<and> P st' k' q' \<and> n \<le> length bs \<and>
           (\<forall>f. serve_loop (n + f) rng q (bs @ s) = prepend out (serve_loop f rng q' s))))"

text \<open>
  The play session is idle and configured; the peer has the sequence headers that were sent.
\<close>

definition ready :: "bytes \<Rightarrow> bytes \<Rightarrow> bytes \<Rightarrow> u32 \<Rightarrow> u16 \<Rightarrow> Conn \<Rightarrow> playSession \<Rightarrow> peer_state \<Rightarrow> bool" where
  "ready sps pps asc rate channels c ps st \<longleftrightarrow>
     cn_playSess c = Some ps \<and> cw_chunkSize (cn_writer c) = 4096 \<and> ps_frameCh ps = [] \<and> \<not> ps_done ps \<and>
     ps_avcConfig ps = Some \<lparr>ac_sps = Some sps, ac_pps = Some pps\<rparr> \<and> ps_aacASC ps = Some asc \<and>
     ps_aacConfig ps = Some \<lparr>aa_sampleRate = rate, aa_channels = channels\<rparr> \<and>
     (ps_videoSeqHeaderSent ps \<longrightarrow> pe_avc st) \<and>
     (ps_audioSeqHeaderSent ps \<longrightarrow> pe_aac st = Some (parseASC (asc ! 0) (asc ! 1)))"

text \<open>\<open>avc_payload\<close> is the message for a frame with these units.\<close>

definition avc_payload :: "bytes list \<Rightarrow> bytes" where
  "avc_payload nals = [push_bit 4 (if list_ex isIDR nals then 1 else 2) OR 7, 1, 0, 0, 0] @
     concat (map (\<lambda>n. be32 (of_nat (length n)) @ n) nals)"

section \<open>Reading what was sent\<close>

lemma frames_of_append: "frames_of (a @ b) = frames_of a @ frames_of b"
  by (induction a rule: frames_of.induct) auto

lemma sent_append: "sent (a @ b) = sent a @ sent b"
  by (induction a rule: sent.induct) auto

lemma delivers_Nil: "delivers rng P st k [] [] st k"
  unfolding delivers_def by (auto intro!: exI [of _ "[]"] exI [of _ 0] split: prod.splits)

lemma delivers_append:
  assumes "delivers rng P st k a fs st' k'" "delivers rng P st' k' b gs st'' k''"
  shows "delivers rng P st k (a @ b) (fs @ gs) st'' k''"
  unfolding delivers_def
proof (intro allI impI)
  fix q s assume "P st k q"
  then obtain out q' n where 1: "frames_of out = fs" "P st' k' q'" "n \<le> length a"
    "\<And>f. serve_loop (n + f) rng q (a @ b @ s) = prepend out (serve_loop f rng q' (b @ s))"
    using assms(1) unfolding delivers_def by blast
  then obtain out' q'' n' where 2: "frames_of out' = gs" "P st'' k'' q''" "n' \<le> length b"
    "\<And>f. serve_loop (n' + f) rng q' (b @ s) = prepend out' (serve_loop f rng q'' s)"
    using assms(2) unfolding delivers_def by blast
  have "serve_loop (n + n' + f) rng q ((a @ b) @ s) = prepend (out @ out') (serve_loop f rng q'' s)" for f
    using 1(4) [of "n' + f"] 2(4) [of f] by (simp add: add.assoc split: prod.splits)
  then show "\<exists>out q' n. frames_of out = fs @ gs \<and> P st'' k'' q' \<and> n \<le> length (a @ b) \<and>
      (\<forall>f. serve_loop (n + f) rng q ((a @ b) @ s) = prepend out (serve_loop f rng q' s))"
    using 1 2 by (intro exI [of _ "out @ out'"] exI [of _ q''] exI [of _ "n + n'"]) (simp add: frames_of_append)
qed

lemma countReceived_peer:
  "peer sid v a st k q \<Longrightarrow> countReceived m q = (out, q') \<Longrightarrow> peer sid v a st k q' \<and> frames_of out = []"
  by (auto simp: countReceived_def Let_def sends writeControlMessage_def peer_def split: if_splits)

lemma WriteMessage_nonempty: "msg_payload m \<noteq> [] \<Longrightarrow> WriteMessage cw m \<noteq> []"
  by (auto simp: WriteMessage_def Let_def buildBasicHeader_def)

lemma delivers_message:
  assumes u: "understands rng (peer sid v a) st k m fs st' k'" and w: "writable k m" "msg_csid m \<noteq> 0"
    and cw: "cw_chunkSize cw = k"
  shows "delivers rng (peer sid v a) st k (WriteMessage cw m) fs st' k'"
  unfolding delivers_def
proof (intro allI impI)
  fix q s assume q: "peer sid v a st k q"
  then have k: "writable (cr_chunkSize (cn_reader q)) m" "0 < cr_chunkSize (cn_reader q)"
    "cw_chunkSize cw = cr_chunkSize (cn_reader q)" using w(1) cw by (simp_all add: peer_def)
  have csid: "m\<lparr>msg_csid := wire_csid m\<rparr> = m" using w(2) by (simp add: wire_csid_def)
  obtain cs where r: "ReadMessage (cn_reader q) (WriteMessage cw m @ s) =
      Inr (m, with_state (cn_reader q) (wire_csid m) cs, s)"
    using ReadMessage_WriteMessage [OF k, of s] csid by auto
  let ?q = "q\<lparr>cn_reader := with_state (cn_reader q) (wire_csid m) cs\<rparr>"
  have "peer sid v a st k ?q" using q by (simp add: peer_def)
  moreover obtain out1 q1 where c: "countReceived m ?q = (out1, q1)" by (cases "countReceived m ?q")
  ultimately have 1: "peer sid v a st k q1" "frames_of out1 = []" using countReceived_peer by blast+
  obtain out2 q2 where h: "handleMessage rng m q1 = (out2, q2, None)" "frames_of out2 = fs" "peer sid v a st' k' q2"
    using u 1(1) unfolding understands_def by blast
  have "serve_loop (1 + f) rng q (WriteMessage cw m @ s) = prepend (out1 @ out2) (serve_loop f rng q2 s)" for f
    by (simp add: r onMessage_def c h(1))
  moreover have "1 \<le> length (WriteMessage cw m)"
    using WriteMessage_nonempty [of m cw] w(1) by (cases "WriteMessage cw m") (auto simp: writable_def)
  ultimately show "\<exists>out q' n. frames_of out = fs \<and> peer sid v a st' k' q' \<and> n \<le> length (WriteMessage cw m) \<and>
      (\<forall>f. serve_loop (n + f) rng q (WriteMessage cw m @ s) = prepend out (serve_loop f rng q' s))"
    using 1 h by (intro exI [of _ "out1 @ out2"] exI [of _ q2] exI [of _ 1]) (simp add: frames_of_append)
qed

section \<open>The messages of a play connection\<close>

lemma at_append: "u16_at (p @ be16 v @ r) (length p) = v" "u32_at (p @ be32 w @ r) (length p) = w"
  by (simp_all add: u16_at_def u32_at_def be16_def be32_def nth_append)

lemma understandsI:
  "(\<And>q. P st k q \<Longrightarrow> handleMessage rng m q = (out q, upd q, None) \<and> frames_of (out q) = fs \<and> P st' k' (upd q)) \<Longrightarrow>
   understands rng P st k m fs st' k'"
  unfolding understands_def by blast

lemma u_ignored:
  assumes "msg_type m \<notin> {1, 5, 8, 9, 17, 20}"
  shows "understands rng P st k m [] st k"
  by (rule understandsI [where out = "\<lambda>_. []" and upd = id]) (use assms in \<open>simp add: handleMessage_def\<close>)

lemma u_windowAck:
  assumes "msg_type m = 5" "4 \<le> length (msg_payload m)"
  shows "understands rng (peer sid v a) st k m [] st k"
  by (rule understandsI [where out = "\<lambda>_. []" and upd = "\<lambda>q. q\<lparr>cn_windowAckSize := u32_at (msg_payload m) 0\<rparr>"])
    (use assms in \<open>simp add: handleMessage_def handleWindowAckSize_def peer_def\<close>)

lemma u_chunkSize:
  assumes "msg_type m = 1" "msg_payload m = be32 n" "n \<noteq> 0"
  shows "understands rng (peer sid v a) st k m [] st (unat n)"
proof (rule understandsI [where out = "\<lambda>_. []" and
    upd = "\<lambda>q. q\<lparr>cn_chunkSize := int (unat n), cn_reader := SetReaderChunkSize (cn_reader q) (int (unat n))\<rparr>"])
  fix q assume q: "peer sid v a st k q"
  have n: "0 < unat n" using assms(3) by (simp add: unat_gt_0)
  have "u32_at (be32 n) 0 = n" using at_append(2) [of "[]" n "[]"] by simp
  moreover have "length (be32 n) = 4" by (simp add: be32_def)
  moreover have "SetReaderChunkSize cr (int (unat n)) = cr\<lparr>cr_chunkSize := unat n\<rparr>" for cr
    using n by (simp only: SetReaderChunkSize_def of_nat_0_less_iff nat_int if_True)
  ultimately show "handleMessage rng m q = ([], q\<lparr>cn_chunkSize := int (unat n),
        cn_reader := SetReaderChunkSize (cn_reader q) (int (unat n))\<rparr>, None) \<and>
      frames_of [] = [] \<and> peer sid v a st (unat n) (q\<lparr>cn_chunkSize := int (unat n),
        cn_reader := SetReaderChunkSize (cn_reader q) (int (unat n))\<rparr>)"
    using assms q n by (simp add: handleMessage_def handleSetChunkSize_def peer_def Let_def)
qed

lemma u_command:
  assumes "msg_type m = 20" "DecodeAMF0 (msg_payload m) = (VString name # vs, None)"
    "name \<notin> {lit ''connect'', lit ''createStream'', lit ''publish'', lit ''play''}"
  shows "understands rng P st k m [] st k"
  by (rule understandsI [where out = "\<lambda>_. []" and upd = id])
    (use assms in \<open>simp add: handleMessage_def handleCommand_def amfString_def Let_def\<close>)

lemma readParamSets_one:
  assumes b: "length b < 2 ^ 16" and d: "data = p @ be16 (of_nat (length b)) @ b @ r" and p: "length p = i"
  shows "readParamSets e1 e2 data 1 i None = Inr (Some b, i + 2 + length b)"
proof -
  have u: "unat (u16_at data i) = length b"
    using b at_append(1) [of p "of_nat (length b)" "b @ r"] by (simp add: d p unat_of_nat_small)
  have l: "length (be16 x) = 2" for x by (simp add: be16_def)
  have "i + 2 + length b \<le> length data" "take (length b) (drop (i + 2) data) = b"
    by (simp_all add: d l p [symmetric])
  then show ?thesis using u unfolding One_nat_def readParamSets.simps Let_def by simp
qed

lemma readNALUs_packed:
  "list_all (\<lambda>n. length n < 2 ^ 32) ns \<Longrightarrow>
   readNALUs (p @ concat (map (\<lambda>n. be32 (of_nat (length n)) @ n) ns)) (length p) = ns"
proof (induction ns arbitrary: p)
  case Nil
  then show ?case by (subst readNALUs.simps) simp
next
  case (Cons n ns)
  let ?r = "concat (map (\<lambda>n. be32 (of_nat (length n)) @ n) ns)"
  let ?d = "p @ be32 (of_nat (length n)) @ n @ ?r"
  have u: "unat (u32_at ?d (length p)) = length n"
    using Cons.prems at_append(2) [of p "of_nat (length n)" "n @ ?r"] by (simp add: unat_of_nat_small)
  have l: "length (be32 x) = 4" for x by (simp add: be32_def)
  have "readNALUs ?d (length p) = n # readNALUs ?d (length p + 4 + length n)"
    by (subst readNALUs.simps) (simp add: u l Let_def)
  also have "\<dots> = n # ns"
    using Cons.IH [of "p @ be32 (of_nat (length n)) @ n"] Cons.prems l by (simp add: add.assoc)
  finally show ?case by simp
qed

lemma nal_frames_Cons:
  "nal_frames ssrc seq ts (n # ns) =
     zero_frame\<lparr>fr_Type := FrameVideo, fr_Codec := CodecH264, fr_Payload := n, fr_Timestamp := ts,
       fr_Sequence := seq, fr_SSRC := ssrc, fr_SampleRate := 90000, fr_Marker := (ns = [])\<rparr> #
     nal_frames ssrc (seq + 1) ts ns"
  unfolding nal_frames_def
  by (simp add: upt_conv_Cons map_Suc_upt [symmetric] comp_def add.assoc del: upt_Suc)

lemma forwardNALUs_frames:
  "forwardNALUs ts ns c =
     (map (RtmpFrame (cn_sessionID c) ''video'') (nal_frames (cn_videoSSRC c) (cn_videoSeq c) ts ns),
      c\<lparr>cn_videoSeq := cn_videoSeq c + of_nat (length ns)\<rparr>)"
proof (induction ns arbitrary: c)
  case Nil
  show ?case by (simp add: nal_frames_def)
qed (simp add: nal_frames_Cons Let_def add.assoc)

lemma frames_of_map: "frames_of (map (RtmpFrame sid tid) fs) = map (\<lambda>fr. (sid, tid, fr)) fs"
  by (induction fs) auto

lemma u_nalus:
  assumes "msg_type m = 9" "msg_payload m = [b, 1, 0, 0, 0] @ concat (map (\<lambda>n. be32 (of_nat (length n)) @ n) ns)"
    "b AND 0x0f = 7" "pe_avc st" "list_all (\<lambda>n. length n < 2 ^ 32) ns"
  shows "understands rng (peer sid v a) st k m
    (map (\<lambda>fr. (sid, ''video'', fr)) (nal_frames v (pe_vseq st) (msg_timestamp m * 90) ns))
    (st\<lparr>pe_vseq := pe_vseq st + of_nat (length ns)\<rparr>) k"
  by (rule understandsI [where
      out = "\<lambda>q. map (RtmpFrame (cn_sessionID q) ''video'') (nal_frames v (pe_vseq st) (msg_timestamp m * 90) ns)" and
      upd = "\<lambda>q. q\<lparr>cn_videoSeq := cn_videoSeq q + of_nat (length ns)\<rparr>"])
    (use assms readNALUs_packed [OF assms(5), of "[]"] in
      \<open>auto simp: handleMessage_def handleVideo_def handleAVCNALUs_def peer_def forwardNALUs_frames frames_of_map\<close>)

lemma u_avc:
  assumes "msg_type m = 9" "msg_payload m = [0x17, 0, 0, 0, 0] @ avcConfigRecord sps pps"
    "length sps < 2 ^ 16" "length pps < 2 ^ 16"
  shows "understands rng (peer sid v a) st k m [] (st\<lparr>pe_avc := True\<rparr>) k"
proof -
  let ?h = "[1, sps ! 1, sps ! 2, sps ! 3, 0xFF, 0xE1] :: bytes"
  let ?d = "avcConfigRecord sps pps" and ?p = "6 + 2 + length sps"
  let ?cfg = "\<lparr>ac_sps = Some sps, ac_pps = Some pps\<rparr>"
  have l: "length (be16 x) = 2" for x by (simp add: be16_def)
  have 1: "readParamSets e1 e2 ?d 1 6 None = Inr (Some sps, ?p)" for e1 e2
    by (rule readParamSets_one [where p = ?h and r = "[1] @ be16 (of_nat (length pps)) @ pps", OF assms(3)])
      (simp_all add: avcConfigRecord_def)
  have 2: "readParamSets e1 e2 ?d 1 (?p + 1) None = Inr (Some pps, ?p + 1 + 2 + length pps)" for e1 e2
    by (rule readParamSets_one [where p = "?h @ be16 (of_nat (length sps)) @ sps @ [1]" and r = "[]", OF assms(4)])
      (simp_all add: avcConfigRecord_def l)
  have d: "?d ! 5 AND 0x1f = 1" "?d ! ?p = 1" "7 \<le> length ?d" "?p < length ?d"
    by (simp_all add: avcConfigRecord_def nth_append l)
  have r: "handleMessage rng m q = handleAVCSequenceHeader ?d q" for q
    using assms(1,2) by (simp add: handleMessage_def handleVideo_def)
  have h: "handleAVCSequenceHeader ?d q =
      (let c = q\<lparr>cn_avcConfig := Some ?cfg, cn_hasVideo := True, cn_videoClock := 0\<rparr> in
       if \<not> cn_videoTrackReported c then (case rtmpReportVideoTrack c of (out, c) \<Rightarrow> (out, c, None))
       else ([], c, None))" for q
    unfolding handleAVCSequenceHeader_def using 1 2 d by (simp add: Let_def)
  show ?thesis
    unfolding understands_def r h
    by (simp add: Let_def rtmpReportVideoTrack_def peer_def)
qed

lemma aacFirstByte: "drop_bit 4 (aacFirstByte ps) = 10"
  by (auto simp: aacFirstByte_def Let_def split: option.splits)

lemma u_aacHeader:
  assumes "msg_type m = 8" "msg_payload m = [b, 0] @ asc" "drop_bit 4 b = 10" "2 \<le> length asc"
  shows "understands rng (peer sid v a) st k m [] (st\<lparr>pe_aac := Some (parseASC (asc ! 0) (asc ! 1))\<rparr>) k"
proof -
  have r: "handleMessage rng m q = handleAACSequenceHeader asc q" for q
    using assms by (simp add: handleMessage_def handleAudio_def)
  show ?thesis
    unfolding understands_def r handleAACSequenceHeader_def
    using assms(4) by (simp add: Let_def rtmpReportAudioTrack_def peer_def)
qed

lemma u_aacRaw:
  assumes "msg_type m = 8" "msg_payload m = [b, 1] @ d" "drop_bit 4 b = 10" "d \<noteq> []" "pe_aac st = Some cfg"
  shows "understands rng (peer sid v a) st k m
    [(sid, ''audio'', zero_frame\<lparr>fr_Type := FrameAudio, fr_Codec := CodecAAC, fr_Payload := d,
        fr_Timestamp := msg_timestamp m * (aa_sampleRate cfg div 1000), fr_Sequence := pe_aseq st,
        fr_SSRC := a, fr_SampleRate := aa_sampleRate cfg, fr_Channels := aa_channels cfg, fr_Marker := True\<rparr>)]
    (st\<lparr>pe_aseq := pe_aseq st + 1\<rparr>) k"
proof -
  have r: "handleMessage rng m q = handleAACRaw d (msg_timestamp m) q" for q
    using assms(1-3) by (simp add: handleMessage_def handleAudio_def)
  show ?thesis unfolding understands_def r handleAACRaw_def using assms(4,5) by (simp add: peer_def)
qed

section \<open>Commands\<close>

lemma writeProps_sum: "length (writeProps ps) = (\<Sum>(n, x) \<leftarrow> ps. 2 + length n + length (writeValue x))"
  by (induction ps rule: writeProps.induct) (simp_all add: be16_def)

lemma range_props:
  assumes "range_ok rng"
  shows "amf_props_ok (rng ps) \<longleftrightarrow> amf_props_ok ps" "length (writeProps (rng ps)) = length (writeProps ps)"
    "length (rng ps) = length ps"
proof -
  have m: "mset (rng ps) = mset ps" using assms by (simp add: range_ok_def)
  then have "mset (map fst (rng ps)) = mset (map fst ps)" by simp
  then have "distinct (map fst (rng ps)) = distinct (map fst ps)" by (rule mset_eq_imp_distinct_iff)
  with mset_eq_setD [OF m] show "amf_props_ok (rng ps) \<longleftrightarrow> amf_props_ok ps"
    by (simp add: amf_props_ok_def list_all_iff)
  show "length (writeProps (rng ps)) = length (writeProps ps)"
    unfolding writeProps_sum sum_mset_sum_list [symmetric] mset_map m ..
  show "length (rng ps) = length ps" using m by (rule mset_eq_length)
qed

lemma info_ok:
  "amf_props_ok ConnectResultProps" "amf_props_ok ConnectResultInfo"
  "length code < 2 ^ 16 \<Longrightarrow> length descr < 2 ^ 16 \<Longrightarrow> amf_props_ok (PublishStatusInfo code descr)"
  by (simp_all add: amf_props_ok_def amf_prop_ok_def amf_scalar_def ConnectResultProps_def ConnectResultInfo_def
      PublishStatusInfo_def lit_def)

lemma info_length:
  "length (writeProps ConnectResultProps) < 1000" "length (writeProps ConnectResultInfo) < 1000"
  "length (writeProps (PublishStatusInfo code descr)) = 41 + length code + length descr"
  by (simp_all add: ConnectResultProps_def ConnectResultInfo_def PublishStatusInfo_def writeValue_def
      WriteString_def WriteNumber_def be16_def be64_def be32_def)

lemma written_parts:
  "length s < 2 ^ 16 \<Longrightarrow> amf_written (VString s) (WriteString s)" "amf_written (VNumber n) (WriteNumber n)"
  "amf_written VNull WriteNull"
proof -
  show "length s < 2 ^ 16 \<Longrightarrow> amf_written (VString s) (WriteString s)"
    using amf_written.scalar [of "VString s"] by (simp add: amf_scalar_def writeValue_def)
  show "amf_written (VNumber n) (WriteNumber n)"
    using amf_written.scalar [of "VNumber n"] by (simp add: amf_scalar_def writeValue_def)
  show "amf_written VNull WriteNull"
    using amf_written.scalar [of VNull] by (simp add: amf_scalar_def writeValue_def)
qed

lemma delivers_payload:
  assumes "understands rng (peer sid v a) st k \<lparr>msg_type = t, msg_streamID = i, msg_csid = c, msg_timestamp = ts,
      msg_payload = p\<rparr> fs st' k'" "p \<noteq> []" "length p < 2 ^ 24" "ts < 0xFFFFFF" "c \<in> {2, 3, 4, 6}"
    "cw_chunkSize cw = k"
  shows "delivers rng (peer sid v a) st k
    (WriteMessage cw \<lparr>msg_type = t, msg_streamID = i, msg_csid = c, msg_timestamp = ts, msg_payload = p\<rparr>) fs st' k'"
  by (rule delivers_message [OF assms(1) _ _ assms(6)]) (use assms(2-5) in \<open>auto simp: writable_def\<close>)

lemma delivers_command:
  assumes w: "list_all2 amf_written (VString name # vs) (b # bs)"
    and n: "name \<notin> {lit ''connect'', lit ''createStream'', lit ''publish'', lit ''play''}"
    and l: "length (concat (b # bs)) < 2 ^ 24" and cw: "cw_chunkSize cw = k"
  shows "delivers rng (peer sid v a) st k
    (WriteMessage cw \<lparr>msg_type = 20, msg_streamID = i, msg_csid = 3, msg_timestamp = 0, msg_payload = concat (b # bs)\<rparr>)
    [] st k"
proof (rule delivers_payload [OF _ _ l _ _ cw])
  define p where "p = concat (b # bs)"
  have "DecodeAMF0 p = (VString name # vs, None)" unfolding p_def by (rule DecodeAMF0_concat [OF w])
  then have "understands rng (peer sid v a) st k
      \<lparr>msg_type = 20, msg_streamID = i, msg_csid = 3, msg_timestamp = 0, msg_payload = p\<rparr> [] st k"
    by (intro u_command [OF _ _ n]) simp_all
  then show "understands rng (peer sid v a) st k
      \<lparr>msg_type = 20, msg_streamID = i, msg_csid = 3, msg_timestamp = 0, msg_payload = concat (b # bs)\<rparr> [] st k"
    unfolding p_def .
  have "0 < length (b # bs)" by simp
  then have "0 < length (concat (b # bs))"
    using length_concat_nonempty [OF w] by (rule less_le_trans)
  then show "concat (b # bs) \<noteq> []" by (rule length_greater_0_conv [THEN iffD1])
qed simp_all

lemma delivers_status:
  assumes r: "range_ok rng" and l: "length code < 2 ^ 10" "length descr < 2 ^ 10"
    and cw: "cw_chunkSize (cn_writer c) = k"
  shows "delivers rng' (peer sid v a) st k (sent (sendOnStatus rng i (PublishStatusInfo code descr) c)) [] st k"
proof -
  let ?bs = "[WriteNumber 0, WriteNull, WriteObject (rng (PublishStatusInfo code descr))]"
  have "amf_props_ok (rng (PublishStatusInfo code descr))" using l by (simp add: range_props [OF r] info_ok)
  then have A: "list_all2 amf_written [VString (lit ''onStatus''), VNumber 0, VNull, VObject (rng (PublishStatusInfo code descr))]
      (WriteString (lit ''onStatus'') # ?bs)"
    by (simp add: written_parts amf_written.object)
  have L: "length (concat (WriteString (lit ''onStatus'') # ?bs)) < 2 ^ 24"
    using l by (simp add: WriteObject_def range_props [OF r] info_length WriteString_def WriteNumber_def
        WriteNull_def be16_def be64_def be32_def)
  have N: "lit ''onStatus'' \<notin> {lit ''connect'', lit ''createStream'', lit ''publish'', lit ''play''}"
    by (simp add: lit_def)
  from delivers_command [OF A N L cw] show ?thesis by (simp add: sendOnStatus_def writeCommandMessage_def)
qed

lemma delivers_control:
  assumes "cw_chunkSize (cn_writer c) = k"
    and "understands rng (peer sid v a) st k \<lparr>msg_type = t, msg_streamID = 0, msg_csid = 2, msg_timestamp = 0,
      msg_payload = p\<rparr> [] st k'" "p \<noteq> []" "length p < 2 ^ 24"
  shows "delivers rng (peer sid v a) st k (sent (writeControlMessage t p c)) [] st k'"
proof -
  have "sent (writeControlMessage t p c) = WriteMessage (cn_writer c)
      \<lparr>msg_type = t, msg_streamID = 0, msg_csid = 2, msg_timestamp = 0, msg_payload = p\<rparr>"
    by (simp add: writeControlMessage_def)
  then show ?thesis
    by (simp only:) (rule delivers_payload [OF assms(2-4) _ _ assms(1)], simp_all)
qed

lemma delivers_quiet:
  "delivers rng P st k a [] st k' \<Longrightarrow> delivers rng P st k' b [] st k'' \<Longrightarrow> delivers rng P st k (a @ b) [] st k''"
  using delivers_append [of rng P st k a "[]" st k' b "[]" st k''] by simp

section \<open>Opening a play session\<close>

lemma delivers_connect:
  assumes r: "range_ok rng" and k: "cw_chunkSize (cn_writer c) = k"
  shows "\<exists>out c'. handleConnect rng vs t c = (out, c', None) \<and>
    delivers rng' (peer sid v a) st k (sent out) [] st 4096 \<and> cw_chunkSize (cn_writer c') = 4096"
proof -
  define c1 where "c1 = (if length vs > 2 then
      (case amfObject (vs ! 2) of None \<Rightarrow> c
       | Some obj \<Rightarrow> (case map_of obj (lit ''app'') of None \<Rightarrow> c
           | Some app \<Rightarrow> (case amfString app of None \<Rightarrow> c | Some s \<Rightarrow> c\<lparr>cn_streamKey := s\<rparr>))) else c)"
  have w: "cw_chunkSize (cn_writer c1) = k" using k by (simp add: c1_def split: option.splits)
  let ?c = "c1\<lparr>cn_writer := SetWriterChunkSize (cn_writer c1) (int (unat (4096 :: u32)))\<rparr>"
  have w': "cw_chunkSize (cn_writer ?c) = 4096" by (simp add: SetWriterChunkSize_def)
  let ?bs = "[WriteNumber t, WriteObject (rng ConnectResultProps), WriteObject (rng ConnectResultInfo)]"
  have A: "list_all2 amf_written [VString (lit ''_result''), VNumber t, VObject (rng ConnectResultProps),
      VObject (rng ConnectResultInfo)] (WriteString (lit ''_result'') # ?bs)"
    by (simp add: written_parts amf_written.object range_props [OF r] info_ok)
  have L: "length (concat (WriteString (lit ''_result'') # ?bs)) < 2 ^ 24"
    using info_length by (simp add: WriteObject_def range_props [OF r] WriteString_def WriteNumber_def
        be16_def be64_def be32_def)
  have N: "lit ''_result'' \<notin> {lit ''connect'', lit ''createStream'', lit ''publish'', lit ''play''}"
    by (simp add: lit_def)
  have b: "be32 x \<noteq> []" "length (be32 x) = 4" for x by (simp_all add: be32_def)
  have 1: "delivers rng' (peer sid v a) st k (sent (sendWindowAckSize 2500000 c1)) [] st k"
    unfolding sendWindowAckSize_def by (rule delivers_control [OF w u_windowAck]) (simp_all add: b)
  have 2: "delivers rng' (peer sid v a) st k (sent (sendSetPeerBandwidth 2500000 2 c1)) [] st k"
    unfolding sendSetPeerBandwidth_def by (rule delivers_control [OF w u_ignored]) (simp_all add: b)
  have "delivers rng' (peer sid v a) st k (sent (writeControlMessage 1 (be32 4096) c1)) [] st (unat (4096 :: u32))"
    by (rule delivers_control [OF w u_chunkSize]) (simp_all add: b)
  then have 3: "delivers rng' (peer sid v a) st k (sent (writeControlMessage 1 (be32 4096) c1)) [] st 4096" by simp
  from delivers_command [OF A N L w'] have 4: "delivers rng' (peer sid v a) st 4096
      (sent (writeCommandMessage 0 (concat (WriteString (lit ''_result'') # ?bs)) ?c)) [] st 4096"
    by (simp add: writeCommandMessage_def)
  have "handleConnect rng vs t c =
      (sendWindowAckSize 2500000 c1 @ sendSetPeerBandwidth 2500000 2 c1 @ writeControlMessage 1 (be32 4096) c1 @
       writeCommandMessage 0 (concat (WriteString (lit ''_result'') # ?bs)) ?c, ?c, None)"
    unfolding handleConnect_def c1_def [symmetric] Let_def sendSetChunkSize_def by simp
  moreover have "delivers rng' (peer sid v a) st k (sent (sendWindowAckSize 2500000 c1 @
      sendSetPeerBandwidth 2500000 2 c1 @ writeControlMessage 1 (be32 4096) c1 @
      writeCommandMessage 0 (concat (WriteString (lit ''_result'') # ?bs)) ?c)) [] st 4096"
    unfolding sent_append by (rule delivers_quiet [OF 1 delivers_quiet [OF 2 delivers_quiet [OF 3 4]]])
  ultimately show ?thesis using w' by (intro exI conjI)
qed

lemma delivers_createStream:
  assumes k: "cw_chunkSize (cn_writer c) = k"
  shows "delivers rng' (peer sid v a) st k (sent (fst (handleCreateStream t c))) [] st k"
    "cn_writer (fst (snd (handleCreateStream t c))) = cn_writer c"
proof -
  let ?bs = "[WriteNumber t, WriteNull, WriteNumber (float64_of_nat 1)]"
  have A: "list_all2 amf_written [VString (lit ''_result''), VNumber t, VNull, VNumber (float64_of_nat 1)]
      (WriteString (lit ''_result'') # ?bs)"
    by (simp add: written_parts)
  have L: "length (concat (WriteString (lit ''_result'') # ?bs)) < 2 ^ 24"
    by (simp add: WriteString_def WriteNumber_def WriteNull_def be16_def be64_def be32_def)
  have N: "lit ''_result'' \<notin> {lit ''connect'', lit ''createStream'', lit ''publish'', lit ''play''}"
    by (simp add: lit_def)
  have k': "cw_chunkSize (cn_writer (c\<lparr>cn_streamID := 1\<rparr>)) = k" using k by simp
  from delivers_command [OF A N L k']
  show "delivers rng' (peer sid v a) st k (sent (fst (handleCreateStream t c))) [] st k"
    by (simp add: handleCreateStream_def writeCommandMessage_def Let_def)
qed (simp add: handleCreateStream_def Let_def)

lemma length_metaData: "length (writeProps (metaDataProps newPlaySession)) < 1000"
  by (simp add: metaDataProps_def newPlaySession_def writeValue_def WriteNumber_def WriteBoolean_def
      be16_def be64_def be32_def)

lemma delivers_metaData:
  assumes r: "range_ok rng" and k: "cw_chunkSize cw = k"
  shows "delivers rng' (peer sid v a) st k (sendOnMetaData rng cw i newPlaySession) [] st k"
  unfolding sendOnMetaData_def writeDataMessage_def
  by (rule delivers_payload [OF u_ignored _ _ _ _ k])
    (use length_metaData in \<open>simp_all add: WriteString_def WriteEcmaArray_def range_props [OF r] be16_def be32_def\<close>)

lemma delivers_play:
  assumes r: "range_ok rng" and k: "cw_chunkSize (cn_writer c) = k"
  shows "\<exists>out c'. handlePlay rng vs i c = (out, c', None) \<and> delivers rng' (peer sid v a) st k (sent out) [] st k \<and>
    cn_writer c' = cn_writer c \<and> cn_playSess c' = Some newPlaySession"
proof -
  define c1 where "c1 = (withStreamName vs c)\<lparr>cn_playMode := True, cn_playSess := Some newPlaySession\<rparr>"
  have c1: "cn_writer c1 = cn_writer c" "cn_playSess c1 = Some newPlaySession"
    by (simp_all add: c1_def withStreamName_def Let_def)
  have w: "cw_chunkSize (cn_writer c1) = k" using k c1 by simp
  have 1: "delivers rng' (peer sid v a) st k (sent (sendUserControl 0 i c1)) [] st k"
    unfolding sendUserControl_def by (rule delivers_control [OF w u_ignored]) (simp_all add: be16_def be32_def)
  have 2: "delivers rng' (peer sid v a) st k (sent (sendOnStatus rng i
      (PublishStatusInfo (lit ''NetStream.Play.Reset'') (lit ''Playing and resetting stream.'')) c1)) [] st k"
    by (rule delivers_status [OF r _ _ w]) simp_all
  have 3: "delivers rng' (peer sid v a) st k (sent (sendOnStatus rng i
      (PublishStatusInfo (lit ''NetStream.Play.Start'') (lit ''Started playing stream.'')) c1)) [] st k"
    by (rule delivers_status [OF r _ _ w]) simp_all
  have 4: "delivers rng' (peer sid v a) st k (sent [RtmpSent (sendOnMetaData rng (cn_writer c1) i newPlaySession)]) [] st k"
    using delivers_metaData [OF r w] by simp
  have 5: "delivers rng' (peer sid v a) st k (sent (reportPlayTracks c1)) [] st k"
    using delivers_Nil by (simp add: reportPlayTracks_def)
  note d = delivers_quiet [OF 1 delivers_quiet [OF 2 delivers_quiet [OF 3 delivers_quiet [OF 4 5]]]]
  show ?thesis
    unfolding handlePlay_def Let_def c1_def [symmetric]
    by (intro exI conjI, rule refl, unfold sent_append, rule d, rule c1(1), rule c1(2))
qed

section \<open>Sending frames\<close>

lemma ready_stats: "ready sps pps asc r ch (c\<lparr>cn_playSess := Some (updateStats tid n ps)\<rparr>) (updateStats tid n ps) st \<longleftrightarrow>
    ready sps pps asc r ch (c\<lparr>cn_playSess := Some ps\<rparr>) ps st"
  by (simp add: ready_def updateStats_def Let_def)

lemma delivers_media:
  assumes "understands rng (peer sid v a) st 4096 \<lparr>msg_type = t, msg_streamID = i, msg_csid = 6, msg_timestamp = ts,
      msg_payload = p\<rparr> fs st' 4096" "p \<noteq> []" "length p < 2 ^ 24" "ts < 0xFFFFFF" "cw_chunkSize cw = 4096"
  shows "delivers rng (peer sid v a) st 4096 (writeMediaMessage cw t i ts p) fs st' 4096"
  unfolding writeMediaMessage_def by (rule delivers_payload [OF assms(1-4) _ assms(5)]) simp

text \<open>The sequence header in front of the first frame, if it is still due.\<close>

lemma video_header:
  assumes R: "ready sps pps asc r ch c ps st" and h: "headers_ok sps pps asc"
  shows "\<exists>b ps1. (if \<not> ps_videoSeqHeaderSent ps \<and> ps_avcConfig ps \<noteq> None then
       (case sendAVCSequenceHeader (cn_writer c) i ps of
          (out, ps, Some e) \<Rightarrow> (out, ps, Some e)
        | (out, ps, None) \<Rightarrow> (out, ps\<lparr>ps_videoSeqHeaderSent := True\<rparr>, None))
       else ([], ps, None)) = (b, ps1, None) \<and>
     delivers rng (peer sid v a) st 4096 b [] (st\<lparr>pe_avc := True\<rparr>) 4096 \<and>
     ready sps pps asc r ch (c\<lparr>cn_playSess := Some ps1\<rparr>) ps1 (st\<lparr>pe_avc := True\<rparr>)"
proof (cases "ps_videoSeqHeaderSent ps")
  case True
  then have "st\<lparr>pe_avc := True\<rparr> = st" using R by (simp add: ready_def)
  then have "delivers rng (peer sid v a) st 4096 [] [] (st\<lparr>pe_avc := True\<rparr>) 4096"
    by (simp only: delivers_Nil)
  with True R show ?thesis
    by (intro exI [of _ "[]"] exI [of _ ps]) (simp add: delivers_Nil ready_def)
next
  case False
  let ?p = "[0x17, 0, 0, 0, 0] @ avcConfigRecord sps pps"
  let ?ps = "(updateStats ''video'' (length ?p) ps)\<lparr>ps_videoSeqHeaderSent := True\<rparr>"
  have cw: "cw_chunkSize (cn_writer c) = 4096" using R by (simp add: ready_def)
  have l: "length ?p < 2 ^ 24" using h by (simp add: headers_ok_def avcConfigRecord_def be16_def)
  have s: "sendAVCSequenceHeader (cn_writer c) i ps =
      (writeMediaMessage (cn_writer c) 9 i 0 ?p, updateStats ''video'' (length ?p) ps, None)"
    using R h by (auto simp: sendAVCSequenceHeader_def ready_def headers_ok_def Let_def)
  have "delivers rng (peer sid v a) st 4096 (writeMediaMessage (cn_writer c) 9 i 0 ?p) [] (st\<lparr>pe_avc := True\<rparr>) 4096"
    by (rule delivers_media [OF u_avc [where sps = sps and pps = pps] _ l _ cw]) (use h in \<open>simp_all add: headers_ok_def\<close>)
  moreover have "ready sps pps asc r ch (c\<lparr>cn_playSess := Some ?ps\<rparr>) ?ps (st\<lparr>pe_avc := True\<rparr>)"
    using R by (simp add: ready_def updateStats_def Let_def)
  ultimately show ?thesis
    using False R by (intro exI [of _ "writeMediaMessage (cn_writer c) 9 i 0 ?p"] exI [of _ ?ps])
      (simp add: s ready_def)
qed

lemma audio_header:
  assumes R: "ready sps pps asc r ch c ps st" and h: "headers_ok sps pps asc"
  defines "st1 \<equiv> st\<lparr>pe_aac := Some (parseASC (asc ! 0) (asc ! 1))\<rparr>"
  shows "\<exists>b ps1. (if \<not> ps_audioSeqHeaderSent ps \<and> ps_aacASC ps \<noteq> None then
       (case sendAACSequenceHeader (cn_writer c) i ps of
          (out, ps, Some e) \<Rightarrow> (out, ps, Some e)
        | (out, ps, None) \<Rightarrow> (out, ps\<lparr>ps_audioSeqHeaderSent := True\<rparr>, None))
       else ([], ps, None)) = (b, ps1, None) \<and>
     delivers rng (peer sid v a) st 4096 b [] st1 4096 \<and>
     ready sps pps asc r ch (c\<lparr>cn_playSess := Some ps1\<rparr>) ps1 st1"
proof (cases "ps_audioSeqHeaderSent ps")
  case True
  then have "st1 = st" using R by (simp add: ready_def st1_def)
  with True R show ?thesis
    by (intro exI [of _ "[]"] exI [of _ ps]) (simp add: delivers_Nil ready_def)
next
  case False
  let ?p = "[aacFirstByte ps, 0] @ asc"
  let ?ps = "(updateStats ''audio'' (length ?p) ps)\<lparr>ps_audioSeqHeaderSent := True\<rparr>"
  have cw: "cw_chunkSize (cn_writer c) = 4096" using R by (simp add: ready_def)
  have l: "length ?p < 2 ^ 24" using h by (simp add: headers_ok_def)
  have "asc \<noteq> []" using h by (auto simp: headers_ok_def)
  then have s: "sendAACSequenceHeader (cn_writer c) i ps =
      (writeMediaMessage (cn_writer c) 8 i 0 ?p, updateStats ''audio'' (length ?p) ps, None)"
    using R by (simp add: sendAACSequenceHeader_def ready_def Let_def)
  have "delivers rng (peer sid v a) st 4096 (writeMediaMessage (cn_writer c) 8 i 0 ?p) [] st1 4096"
    unfolding st1_def
    by (rule delivers_media [OF u_aacHeader [where b = "aacFirstByte ps"] _ l _ cw])
      (use h in \<open>simp_all add: headers_ok_def aacFirstByte\<close>)
  moreover have "ready sps pps asc r ch (c\<lparr>cn_playSess := Some ?ps\<rparr>) ?ps st1"
    using R by (simp add: ready_def updateStats_def Let_def st1_def)
  ultimately show ?thesis
    using False R by (intro exI [of _ "writeMediaMessage (cn_writer c) 8 i 0 ?p"] exI [of _ ?ps])
      (simp add: s ready_def)
qed

lemma play_one_process:
  assumes "ready sps pps asc r ch c ps st" "item_frame it = (tid, fr)"
    "processFrame (cn_writer c) (cn_streamID c) \<lparr>mi_trackID = tid, mi_frame = fr\<rparr> ps = (b, ps', e)"
  shows "play_one it c = Some (b, c\<lparr>cn_playSess := Some ps'\<rparr>)"
proof -
  have "ps\<lparr>ps_frameCh := []\<rparr> = ps" using assms(1) by (simp add: ready_def)
  then have "processFrame (cn_writer c) (cn_streamID c) \<lparr>mi_trackID = tid, mi_frame = fr\<rparr> (ps\<lparr>ps_frameCh := []\<rparr>) = (b, ps', e)"
    using assms(3) by (simp only:)
  then show ?thesis
    using assms(1,2) by (simp add: play_one_def ready_def connSendMediaFrame_def playSendMediaFrame_def connPlayStep_def
        sendLoop_step_def)
qed

lemma packed_length: "length (concat (map (\<lambda>n. be32 (of_nat (length n)) @ n) ns)) = (\<Sum>n \<leftarrow> ns. 4 + length n)"
  by (induction ns) (simp_all add: be32_def)

lemma packed_short:
  assumes "(\<Sum>n \<leftarrow> ns. 4 + length n) < 2 ^ 24"
  shows "list_all (\<lambda>n. length n < 2 ^ 32) ns"
  unfolding list_all_iff
proof
  fix x assume "x \<in> set ns"
  then have "4 + length x \<le> (\<Sum>n \<leftarrow> ns. 4 + length n)" by (simp add: member_le_sum_list)
  then show "length x < 2 ^ 32" using assms by simp
qed

lemma u_avc_payload:
  assumes "pe_avc st" "list_all (\<lambda>n. length n < 2 ^ 32) nals"
  shows "understands rng (peer sid v a) st k
    \<lparr>msg_type = 9, msg_streamID = i, msg_csid = 6, msg_timestamp = ts, msg_payload = avc_payload nals\<rparr>
    (map (\<lambda>fr. (sid, ''video'', fr)) (nal_frames v (pe_vseq st) (ts * 90) nals))
    (st\<lparr>pe_vseq := pe_vseq st + of_nat (length nals)\<rparr>) k"
  using u_nalus [of "\<lparr>msg_type = 9, msg_streamID = i, msg_csid = 6, msg_timestamp = ts, msg_payload = avc_payload nals\<rparr>"
      "push_bit 4 (if list_ex isIDR nals then 1 else 2) OR 7" nals st rng sid v a k] assms
  by (simp add: avc_payload_def)

lemma video_one:
  assumes R: "ready sps pps asc r ch c ps st" and h: "headers_ok sps pps asc"
    and ok: "item_ok r (PlayVideo sc nals ts)"
  shows "\<exists>b ps' st'. play_one (PlayVideo sc nals ts) c = Some (b, c\<lparr>cn_playSess := Some ps'\<rparr>) \<and>
    ready sps pps asc r ch (c\<lparr>cn_playSess := Some ps'\<rparr>) ps' st' \<and>
    delivers rng (peer sid v a) st 4096 b
      (map (\<lambda>fr. (sid, ''video'', fr)) (nal_frames v (pe_vseq st) (video_ms ts * 90) nals)) st' 4096 \<and>
    pe_vseq st' = pe_vseq st + of_nat (length nals) \<and> pe_aseq st' = pe_aseq st"
proof -
  let ?i = "cn_streamID c" and ?cw = "cn_writer c" and ?st1 = "st\<lparr>pe_avc := True\<rparr>"
  let ?st2 = "?st1\<lparr>pe_vseq := pe_vseq ?st1 + of_nat (length nals)\<rparr>" and ?p = "avc_payload nals"
  let ?fs = "map (\<lambda>fr. (sid, ''video'', fr)) (nal_frames v (pe_vseq st) (video_ms ts * 90) nals)"
  define fr where "fr = snd (item_frame (PlayVideo sc nals ts))"
  from video_header [OF R h, of ?i rng sid v a] obtain b1 ps1 where
    H: "(if \<not> ps_videoSeqHeaderSent ps \<and> ps_avcConfig ps \<noteq> None then
       (case sendAVCSequenceHeader ?cw ?i ps of
          (out, ps, Some e) \<Rightarrow> (out, ps, Some e)
        | (out, ps, None) \<Rightarrow> (out, ps\<lparr>ps_videoSeqHeaderSent := True\<rparr>, None))
       else ([], ps, None)) = (b1, ps1, None)"
    and D: "delivers rng (peer sid v a) st 4096 b1 [] ?st1 4096"
    and R1: "ready sps pps asc r ch (c\<lparr>cn_playSess := Some ps1\<rparr>) ps1 ?st1" by blast
  have n: "nals \<noteq> []" "list_all nal_ok nals" "length ?p < 2 ^ 24" "sc = [0, 0, 1] \<or> sc = [0, 0, 0, 1]"
    "list_all (\<lambda>n. length n < 2 ^ 32) nals" "video_ms ts < 0xFFFFFF"
    using ok packed_short [of nals] by (simp_all add: avc_payload_def packed_length)
  have d: "length (concat (map (\<lambda>n. be32 (of_nat (length n)) @ n) nals)) \<noteq> 0"
    using n(1) by (cases nals) (simp_all add: be32_def)
  have fr: "fr_Codec fr = CodecH264" "fr_Payload fr = coded sc nals" "fr_Timestamp fr = ts" "fr_Type fr = FrameVideo"
    by (simp_all add: fr_def)
  have "sendVideoFrame ?cw ?i ''video'' fr ps =
      (b1 @ writeMediaMessage ?cw 9 ?i (video_ms ts) ?p, updateStats ''video'' (length ?p) ps1, None)"
    unfolding sendVideoFrame_def H prod.case option.case fr(2) frameToAVC_coded [OF n(4,2,1)]
    using d by (simp only: fr Let_def avc_payload_def video_ms_def if_False prod.case simp_thms)
  then have P: "processFrame ?cw ?i \<lparr>mi_trackID = ''video'', mi_frame = fr\<rparr> ps =
      (b1 @ writeMediaMessage ?cw 9 ?i (video_ms ts) ?p, updateStats ''video'' (length ?p) ps1, None)"
    by (simp add: processFrame_def fr)
  have cw: "cw_chunkSize ?cw = 4096" using R by (simp add: ready_def)
  have "delivers rng (peer sid v a) ?st1 4096 (writeMediaMessage ?cw 9 ?i (video_ms ts) ?p) ?fs ?st2 4096"
    using u_avc_payload [of ?st1 nals rng sid v a 4096 ?i "video_ms ts"] n(5)
    by (intro delivers_media [OF _ _ n(3,6) cw]) (simp_all add: avc_payload_def)
  from delivers_append [OF D this]
  have "delivers rng (peer sid v a) st 4096 (b1 @ writeMediaMessage ?cw 9 ?i (video_ms ts) ?p) ?fs ?st2 4096" by simp
  moreover have "play_one (PlayVideo sc nals ts) c = Some (b1 @ writeMediaMessage ?cw 9 ?i (video_ms ts) ?p,
      c\<lparr>cn_playSess := Some (updateStats ''video'' (length ?p) ps1)\<rparr>)"
    by (rule play_one_process [OF R _ P]) (simp add: fr_def)
  moreover have "ready sps pps asc r ch (c\<lparr>cn_playSess := Some (updateStats ''video'' (length ?p) ps1)\<rparr>)
      (updateStats ''video'' (length ?p) ps1) ?st2"
    unfolding ready_stats using R1 by (simp add: ready_def)
  ultimately show ?thesis by (intro exI conjI) (assumption | simp)+
qed

lemma audio_one:
  assumes R: "ready sps pps asc r ch c ps st" and h: "headers_ok sps pps asc"
    and ok: "item_ok r (PlayAudio payload ts rate)"
  defines "cfg \<equiv> parseASC (asc ! 0) (asc ! 1)" and "ms \<equiv> audio_ms ts (if rate > 0 then rate else r)"
  shows "\<exists>b ps' st'. play_one (PlayAudio payload ts rate) c = Some (b, c\<lparr>cn_playSess := Some ps'\<rparr>) \<and>
    ready sps pps asc r ch (c\<lparr>cn_playSess := Some ps'\<rparr>) ps' st' \<and>
    delivers rng (peer sid v a) st 4096 b
      [(sid, ''audio'', zero_frame\<lparr>fr_Type := FrameAudio, fr_Codec := CodecAAC, fr_Payload := payload,
        fr_Timestamp := ms * (aa_sampleRate cfg div 1000), fr_Sequence := pe_aseq st, fr_SSRC := a,
        fr_SampleRate := aa_sampleRate cfg, fr_Channels := aa_channels cfg, fr_Marker := True\<rparr>)] st' 4096 \<and>
    pe_vseq st' = pe_vseq st \<and> pe_aseq st' = pe_aseq st + 1"
proof -
  let ?i = "cn_streamID c" and ?cw = "cn_writer c" and ?st1 = "st\<lparr>pe_aac := Some cfg\<rparr>"
  let ?st2 = "?st1\<lparr>pe_aseq := pe_aseq ?st1 + 1\<rparr>"
  define fr where "fr = snd (item_frame (PlayAudio payload ts rate))"
  from audio_header [OF R h, of ?i rng sid v a, folded cfg_def] obtain b1 ps1 where
    H: "(if \<not> ps_audioSeqHeaderSent ps \<and> ps_aacASC ps \<noteq> None then
       (case sendAACSequenceHeader ?cw ?i ps of
          (out, ps, Some e) \<Rightarrow> (out, ps, Some e)
        | (out, ps, None) \<Rightarrow> (out, ps\<lparr>ps_audioSeqHeaderSent := True\<rparr>, None))
       else ([], ps, None)) = (b1, ps1, None)"
    and D: "delivers rng (peer sid v a) st 4096 b1 [] ?st1 4096"
    and R1: "ready sps pps asc r ch (c\<lparr>cn_playSess := Some ps1\<rparr>) ps1 ?st1" by blast
  let ?p = "[aacFirstByte ps1, 1] @ payload" and ?ps = "updateStats ''audio'' (length payload + 2) ps1"
  let ?b = "writeMediaMessage ?cw 8 ?i ms ?p"
  have n: "payload \<noteq> []" "length ?p < 2 ^ 24" "ms < 0xFFFFFF" using ok by (simp_all add: ms_def)
  have fr: "fr_Codec fr = CodecAAC" "fr_Payload fr = payload" "fr_Timestamp fr = ts" "fr_Type fr = FrameAudio"
    "fr_SampleRate fr = rate"
    by (simp_all add: fr_def)
  have s: "playSampleRate fr ps1 = (if rate > 0 then rate else r)" "playSampleRate fr ps1 \<noteq> 0"
    using R1 ok by (auto simp: playSampleRate_def fr ready_def)
  have "sendAudioFrame ?cw ?i ''audio'' fr ps = (b1 @ ?b, ?ps, None)"
    unfolding sendAudioFrame_def H prod.case option.case fr
    using n(1) s(2) by (simp add: Let_def ms_def audio_ms_def s(1))
  then have P: "processFrame ?cw ?i \<lparr>mi_trackID = ''audio'', mi_frame = fr\<rparr> ps = (b1 @ ?b, ?ps, None)"
    by (simp add: processFrame_def fr media_consts)
  have cw: "cw_chunkSize ?cw = 4096" using R by (simp add: ready_def)
  let ?fr = "zero_frame\<lparr>fr_Type := FrameAudio, fr_Codec := CodecAAC, fr_Payload := payload,
      fr_Timestamp := ms * (aa_sampleRate cfg div 1000), fr_Sequence := pe_aseq st, fr_SSRC := a,
      fr_SampleRate := aa_sampleRate cfg, fr_Channels := aa_channels cfg, fr_Marker := True\<rparr>"
  have "delivers rng (peer sid v a) ?st1 4096 ?b [(sid, ''audio'', ?fr)] ?st2 4096"
    using u_aacRaw [of "\<lparr>msg_type = 8, msg_streamID = ?i, msg_csid = 6, msg_timestamp = ms, msg_payload = ?p\<rparr>"
        "aacFirstByte ps1" payload ?st1 cfg rng sid v a 4096] n(1)
    by (intro delivers_media [OF _ _ n(2,3) cw]) (simp_all add: aacFirstByte)
  from delivers_append [OF D this]
  have "delivers rng (peer sid v a) st 4096 (b1 @ ?b) [(sid, ''audio'', ?fr)] ?st2 4096" by simp
  moreover have "play_one (PlayAudio payload ts rate) c = Some (b1 @ ?b, c\<lparr>cn_playSess := Some ?ps\<rparr>)"
    by (rule play_one_process [OF R _ P]) (simp add: fr_def)
  moreover have "ready sps pps asc r ch (c\<lparr>cn_playSess := Some ?ps\<rparr>) ?ps ?st2"
    unfolding ready_stats using R1 by (simp add: ready_def)
  ultimately show ?thesis
    by (intro exI [of _ "b1 @ ?b"] exI [of _ ?ps] exI [of _ ?st2]) simp
qed

lemma items_relay:
  assumes h: "headers_ok sps pps asc"
  shows "ready sps pps asc r ch c ps st \<Longrightarrow> list_all (item_ok r) items \<Longrightarrow>
    \<exists>b st'. play_items items c = Some b \<and>
      delivers rng (peer sid v a) st 4096 b
        (expected sid v a r (parseASC (asc ! 0) (asc ! 1)) (pe_vseq st) (pe_aseq st) items) st' 4096"
proof (induction items arbitrary: c ps st)
  case Nil
  show ?case by (intro exI [of _ "[]"] exI [of _ st]) (simp add: delivers_Nil)
next
  case (Cons it items)
  have ok: "item_ok r it" "list_all (item_ok r) items" using Cons.prems(2) by simp_all
  show ?case
  proof (cases it)
    case (PlayVideo sc nals ts)
    from video_one [OF Cons.prems(1) h ok(1) [unfolded PlayVideo], of rng sid v a]
    obtain b ps' st' where 1: "play_one it c = Some (b, c\<lparr>cn_playSess := Some ps'\<rparr>)"
      "ready sps pps asc r ch (c\<lparr>cn_playSess := Some ps'\<rparr>) ps' st'"
      "delivers rng (peer sid v a) st 4096 b
        (map (\<lambda>fr. (sid, ''video'', fr)) (nal_frames v (pe_vseq st) (video_ms ts * 90) nals)) st' 4096"
      "pe_vseq st' = pe_vseq st + of_nat (length nals)" "pe_aseq st' = pe_aseq st"
      unfolding PlayVideo by blast
    from Cons.IH [OF 1(2) ok(2)] obtain b' st'' where 2: "play_items items (c\<lparr>cn_playSess := Some ps'\<rparr>) = Some b'"
      "delivers rng (peer sid v a) st' 4096 b'
        (expected sid v a r (parseASC (asc ! 0) (asc ! 1)) (pe_vseq st') (pe_aseq st') items) st'' 4096" by blast
    show ?thesis
      using delivers_append [OF 1(3) 2(2)] 1(4,5)
      by (intro exI [of _ "b @ b'"] exI [of _ st'']) (simp add: 1(1) 2(1), simp add: PlayVideo)
  next
    case (PlayAudio payload ts rate)
    from audio_one [OF Cons.prems(1) h ok(1) [unfolded PlayAudio], of rng sid v a]
    obtain b ps' st' fr where 1: "play_one it c = Some (b, c\<lparr>cn_playSess := Some ps'\<rparr>)"
      "ready sps pps asc r ch (c\<lparr>cn_playSess := Some ps'\<rparr>) ps' st'"
      "delivers rng (peer sid v a) st 4096 b [fr] st' 4096"
      "pe_vseq st' = pe_vseq st" "pe_aseq st' = pe_aseq st + 1"
      "\<And>vseq its. expected sid v a r (parseASC (asc ! 0) (asc ! 1)) vseq (pe_aseq st) (it # its) =
         fr # expected sid v a r (parseASC (asc ! 0) (asc ! 1)) vseq (pe_aseq st + 1) its"
      unfolding PlayAudio expected.simps by blast
    from Cons.IH [OF 1(2) ok(2)] obtain b' st'' where 2: "play_items items (c\<lparr>cn_playSess := Some ps'\<rparr>) = Some b'"
      "delivers rng (peer sid v a) st' 4096 b'
        (expected sid v a r (parseASC (asc ! 0) (asc ! 1)) (pe_vseq st') (pe_aseq st') items) st'' 4096" by blast
    show ?thesis
      using delivers_append [OF 1(3) 2(2)] 1(4,5)
      by (intro exI [of _ "b @ b'"] exI [of _ st'']) (simp add: 1(1,6) 2(1) del: One_nat_def)
  qed
qed

lemma ReadMessage_empty: "\<exists>e. ReadMessage cr [] = Inl e"
  by (simp add: ReadMessage_def readChunk_def readBasicHeader_def)

lemma Serve_delivered:
  assumes "delivers rng P st k bs fs st' k'" "P st k q"
  shows "frames_of (fst (Serve rng q bs)) = fs"
proof -
  from assms obtain out q' n where 1: "frames_of out = fs" "n \<le> length bs"
    "\<And>f. serve_loop (n + f) rng q (bs @ []) = prepend out (serve_loop f rng q' [])"
    unfolding delivers_def by blast
  obtain f where f: "length bs + 1 = n + Suc f" using 1(2) by (metis Suc_eq_plus1 add_Suc_right le_Suc_ex)
  obtain e where "ReadMessage (cn_reader q') [] = Inl e" using ReadMessage_empty by blast
  then have "serve_loop (length bs + 1) rng q bs = (out, q', if cn_closed q' then None else Some (ReadFailed e))"
    unfolding f using 1(3) [of "Suc f"] by simp
  then show ?thesis using 1(1) by (simp add: Serve_def rtmpCleanup_def frames_of_append)
qed

text \<open>
  C1. A stream that one connection plays is the stream another connection ingests. Whatever the
  player's commands are, the bytes it writes for \<open>connect\<close>, \<open>createStream\<close>, \<open>play\<close> and any list of
  frames that fit the chunk format are understood by \<open>Serve\<close> of a fresh connection, whatever the orders in
  which Go ranges over the maps: it reports each H.264 unit and each AAC payload once, unchanged and
  in order, under its own session, with consecutive sequence numbers, the last unit of a frame
  marked, the rate and the channels of the audio configuration, and video time stamps rounded down
  to a millisecond. Audio time stamps come back in units of the rate divided by 1000 without its
  remainder, so those of 44100 Hz run at 44000 Hz.
\<close>

theorem rtmp_relay:
  assumes "range_ok rng" "headers_ok sps pps asc" "list_all (item_ok rate) items"
  shows "\<exists>bs. play_stream rng connect t1 t2 play i sps pps asc rate channels items (NewConn sid' remote' v' a') = Some bs
    \<and> frames_of (fst (Serve rng' (NewConn sid remote v a) bs)) =
        expected sid v a rate (parseASC (asc ! 0) (asc ! 1)) 0 0 items"
proof -
  let ?st = "\<lparr>pe_vseq = 0, pe_aseq = 0, pe_avc = False, pe_aac = None\<rparr>" and ?P = "peer sid v a"
  have q: "?P ?st 128 (NewConn sid remote v a)"
    by (simp add: peer_def NewConn_def NewChunkReader_def)
  have k: "cw_chunkSize (cn_writer (NewConn sid' remote' v' a')) = 128"
    by (simp add: NewConn_def NewChunkWriter_def)
  from delivers_connect [OF assms(1) k, of connect t1 rng' sid v a ?st] obtain o1 c1 where
    1: "handleConnect rng connect t1 (NewConn sid' remote' v' a') = (o1, c1, None)"
    "delivers rng' ?P ?st 128 (sent o1) [] ?st 4096" "cw_chunkSize (cn_writer c1) = 4096" by blast
  obtain o2 c2 e2 where e: "handleCreateStream t2 c1 = (o2, c2, e2)" by (cases "handleCreateStream t2 c1")
  have 2: "delivers rng' ?P ?st 4096 (sent o2) [] ?st 4096" "cw_chunkSize (cn_writer c2) = 4096"
    using delivers_createStream(1) [OF 1(3), of rng' sid v a ?st t2] delivers_createStream(2) [OF 1(3), of t2] 1(3)
    by (simp_all add: e)
  from delivers_play [OF assms(1) 2(2), of play i rng' sid v a ?st] obtain o3 c3 where
    3: "handlePlay rng play i c2 = (o3, c3, None)" "delivers rng' ?P ?st 4096 (sent o3) [] ?st 4096"
    "cn_writer c3 = cn_writer c2" "cn_playSess c3 = Some newPlaySession" by blast
  define c4 where "c4 = SetAudioConfig (Some asc) rate channels (SetVideoConfig (Some sps) (Some pps) c3)"
  obtain ps where "ready sps pps asc rate channels c4 ps ?st"
    using 2(2) 3(3,4) by (simp add: ready_def c4_def SetAudioConfig_def SetVideoConfig_def setAudioConfig_def
        setVideoConfig_def newPlaySession_def)
  from items_relay [OF assms(2) this assms(3), of rng' sid v a] obtain b st' where 4: "play_items items c4 = Some b"
    "delivers rng' ?P ?st 4096 b (expected sid v a rate (parseASC (asc ! 0) (asc ! 1)) 0 0 items) st' 4096"
    by (simp only: peer_state.simps) blast
  have "play_stream rng connect t1 t2 play i sps pps asc rate channels items (NewConn sid' remote' v' a') =
      Some (sent o1 @ sent o2 @ sent o3 @ b)"
    by (simp add: play_stream_def 1(1) e 3(1) c4_def [symmetric] 4(1))
  then show ?thesis
    using Serve_delivered [OF delivers_append [OF 1(2) delivers_append [OF 2(1) delivers_append [OF 3(2) 4(2)]]] q]
    by simp
qed

theorem rtmp_relay_witness:
  "\<exists>bs. play_stream id [] 1 2 [] 1 [0x67, 66, 0, 30] [0x68] [0x12, 0x10] 44100 2
      [PlayAudio [7, 8, 9] 44100 0, PlayVideo [0, 0, 0, 1] [[0x65, 1], [0x41, 2]] 9050]
      (NewConn ''player'' [] 1 2) = Some bs
    \<and> frames_of (fst (Serve id (NewConn ''ingest'' [] 3 4) bs)) =
      [(''ingest'', ''audio'', zero_frame\<lparr>fr_Type := FrameAudio, fr_Codec := CodecAAC, fr_Payload := [7, 8, 9],
          fr_Timestamp := 44000, fr_Sequence := 0, fr_SSRC := 4, fr_SampleRate := 44100, fr_Channels := 2,
          fr_Marker := True\<rparr>),
       (''ingest'', ''video'', zero_frame\<lparr>fr_Type := FrameVideo, fr_Codec := CodecH264, fr_Payload := [0x65, 1],
          fr_Timestamp := 9000, fr_Sequence := 0, fr_SSRC := 3, fr_SampleRate := 90000\<rparr>),
       (''ingest'', ''video'', zero_frame\<lparr>fr_Type := FrameVideo, fr_Codec := CodecH264, fr_Payload := [0x41, 2],
          fr_Timestamp := 9000, fr_Sequence := 1, fr_SSRC := 3, fr_SampleRate := 90000, fr_Marker := True\<rparr>)]"
proof -
  let ?items = "[PlayAudio [7, 8, 9] 44100 0, PlayVideo [0, 0, 0, 1] [[0x65, 1], [0x41, 2]] 9050]"
  have h: "range_ok id" "headers_ok [0x67, 66, 0, 30] [0x68] [0x12, 0x10]" "list_all (item_ok 44100) ?items"
    by (simp_all add: range_ok_def headers_ok_def nal_ok_def audio_ms_def video_ms_def)
  have x: "expected ''ingest'' 3 4 44100 (parseASC ([0x12, 0x10] ! 0) ([0x12, 0x10] ! 1)) 0 0 ?items =
      [(''ingest'', ''audio'', zero_frame\<lparr>fr_Type := FrameAudio, fr_Codec := CodecAAC, fr_Payload := [7, 8, 9],
          fr_Timestamp := 44000, fr_Sequence := 0, fr_SSRC := 4, fr_SampleRate := 44100, fr_Channels := 2,
          fr_Marker := True\<rparr>),
       (''ingest'', ''video'', zero_frame\<lparr>fr_Type := FrameVideo, fr_Codec := CodecH264, fr_Payload := [0x65, 1],
          fr_Timestamp := 9000, fr_Sequence := 0, fr_SSRC := 3, fr_SampleRate := 90000\<rparr>),
       (''ingest'', ''video'', zero_frame\<lparr>fr_Type := FrameVideo, fr_Codec := CodecH264, fr_Payload := [0x41, 2],
          fr_Timestamp := 9000, fr_Sequence := 1, fr_SSRC := 3, fr_SampleRate := 90000, fr_Marker := True\<rparr>)]"
    by code_simp
  show ?thesis
    using rtmp_relay [OF h, of "[]" 1 2 "[]" 1 2 "''player''" "[]" 1 2 id "''ingest''" "[]" 3 4] by (simp only: x)
qed

end
