(* ===== verification/SrtPacket.thy ===== *)
theory SrtPacket
  imports Prelude
begin

text \<open>
  SRT packets (\<open>pkg/protocol/srt/packet.go\<close>) and the HSv5 handshake (\<open>handshake.go\<close>): parsers
  and builders as functions on byte slices; a Go \<open>error\<close> result is \<open>None\<close>. The lemmas show that
  each parser inverts its builder and that \<open>IsControlPacket\<close>, which routes a datagram before it
  is parsed, agrees with the parser.
\<close>

section \<open>Packets\<close>

record Packet =
  pkt_IsControl :: bool
  pkt_CtrlType :: u16
  pkt_Subtype :: u16
  pkt_SeqNum :: u32
  pkt_MsgNo :: u32
  pkt_Timestamp :: u32
  pkt_SocketID :: u32
  pkt_Payload :: bytes

definition ctrlHandshake :: u16 where "ctrlHandshake = 0x0000"
definition ctrlKeepalive :: u16 where "ctrlKeepalive = 0x0001"
definition ctrlShutdown :: u16 where "ctrlShutdown = 0x0005"

definition ParsePacket :: "bytes \<Rightarrow> Packet option" where
  "ParsePacket data =
     (if length data < 16 then None
      else
        let first = u32_at data 0;
            isControl = (first AND 0x80000000 \<noteq> 0) in
        Some \<lparr>pkt_IsControl = isControl,
              pkt_CtrlType = (if isControl then ucast (drop_bit 16 first AND 0x7FFF) else 0),
              pkt_Subtype = (if isControl then ucast (first AND 0xFFFF) else 0),
              pkt_SeqNum = (if isControl then 0 else first AND 0x7FFFFFFF),
              pkt_MsgNo = u32_at data 4, pkt_Timestamp = u32_at data 8,
              pkt_SocketID = u32_at data 12, pkt_Payload = drop 16 data\<rparr>)"

definition IsControlPacket :: "bytes \<Rightarrow> bool" where
  "IsControlPacket data \<longleftrightarrow> length data \<ge> 4 \<and> data ! 0 AND 0x80 \<noteq> 0"

definition BuildControlPacket :: "u16 \<Rightarrow> u16 \<Rightarrow> u32 \<Rightarrow> bytes \<Rightarrow> bytes" where
  "BuildControlPacket ctrlType subtype socketID payload =
     be32 (0x80000000 OR push_bit 16 (ucast (ctrlType AND 0x7FFF)) OR ucast subtype) @
     be32 0 @ be32 0 @ be32 socketID @ payload"

definition BuildDataPacket :: "u32 \<Rightarrow> u32 \<Rightarrow> u32 \<Rightarrow> u32 \<Rightarrow> bytes \<Rightarrow> bytes" where
  "BuildDataPacket seqNum msgNo timestamp socketID payload =
     be32 (seqNum AND 0x7FFFFFFF) @ be32 msgNo @ be32 timestamp @ be32 socketID @ payload"

definition BuildShutdown :: "u32 \<Rightarrow> bytes" where
  "BuildShutdown socketID = BuildControlPacket ctrlShutdown 0 socketID []"

definition BuildKeepalive :: "u32 \<Rightarrow> bytes" where
  "BuildKeepalive socketID = BuildControlPacket ctrlKeepalive 0 socketID []"

section \<open>Handshakes\<close>

record HandshakePacket =
  hs_Version :: u32
  hs_Encryption :: u32
  hs_Extension :: u32
  hs_InitSeqNum :: u32
  hs_MTU :: u32
  hs_MaxFlowWindow :: u32
  hs_HandshakeType :: u32
  hs_SocketID :: u32
  hs_SynCookie :: u32
  hs_PeerIP :: "u8 \<times> u8 \<times> u8 \<times> u8"
  hs_StreamID :: bytes

definition HsInduction :: u32 where "HsInduction = 1"
definition HsConclusion :: u32 where "HsConclusion = 0xFFFFFFFF"

text \<open>The loop that cuts trailing NUL bytes; an identifier of NUL bytes only stays as it is.\<close>

fun trimNul :: "nat \<Rightarrow> bytes \<Rightarrow> bytes" where
  "trimNul 0 sid = sid"
| "trimNul (Suc i) sid = (if sid ! i \<noteq> 0 then take (i + 1) sid else trimNul i sid)"

function parseExtensions_from :: "bytes \<Rightarrow> nat \<Rightarrow> bytes" where
  "parseExtensions_from data off =
     (if off + 4 \<le> length data then
        let extType = u16_at data off;
            extLen = unat (u16_at data (off + 2)) * 4;
            off = off + 4 in
        if off + extLen > length data then []
        else if extType = 5 \<and> extLen > 0 then
          let sid = take extLen (drop off data) in trimNul (length sid) sid
        else parseExtensions_from data (off + extLen)
      else [])"
  by pat_completeness auto
termination
  by (relation "measure (\<lambda>(data, off). length data + 4 - off)") auto

declare parseExtensions_from.simps [simp del]

definition parseExtensions :: "bytes \<Rightarrow> bytes" where
  "parseExtensions data = parseExtensions_from data 0"

definition ParseHandshake :: "bytes \<Rightarrow> HandshakePacket option" where
  "ParseHandshake payload =
     (if length payload < 48 then None
      else Some
        \<lparr>hs_Version = u32_at payload 0, hs_Encryption = u32_at payload 4,
         hs_Extension = u32_at payload 8, hs_InitSeqNum = u32_at payload 12,
         hs_MTU = u32_at payload 16, hs_MaxFlowWindow = u32_at payload 20,
         hs_HandshakeType = u32_at payload 24, hs_SocketID = u32_at payload 28,
         hs_SynCookie = u32_at payload 32,
         hs_PeerIP = (payload ! 36, payload ! 37, payload ! 38, payload ! 39),
         hs_StreamID = (if length payload > 48 then parseExtensions (drop 48 payload) else [])\<rparr>)"

definition buildStreamIDExtension :: "bytes \<Rightarrow> bytes" where
  "buildStreamIDExtension streamID =
     (let padded = (length streamID + 3) div 4 * 4; words = padded div 4 in
      be16 5 @ be16 (of_nat words) @ streamID @ replicate (padded - length streamID) 0)"

definition BuildHandshake :: "HandshakePacket \<Rightarrow> bytes" where
  "BuildHandshake hs =
     (case hs_PeerIP hs of (a, b, c, d) \<Rightarrow>
        be32 (hs_Version hs) @ be32 (hs_Encryption hs) @ be32 (hs_Extension hs) @
        be32 (hs_InitSeqNum hs) @ be32 (hs_MTU hs) @ be32 (hs_MaxFlowWindow hs) @
        be32 (hs_HandshakeType hs) @ be32 (hs_SocketID hs) @ be32 (hs_SynCookie hs) @
        [a, b, c, d] @ replicate 8 0 @
        (if hs_StreamID hs \<noteq> [] then buildStreamIDExtension (hs_StreamID hs) else []))"

definition BuildHandshakeResponse :: "HandshakePacket \<Rightarrow> u32 \<Rightarrow> bytes" where
  "BuildHandshakeResponse hs destSocketID =
     BuildControlPacket ctrlHandshake (ucast (hs_HandshakeType hs)) destSocketID (BuildHandshake hs)"

definition ValidateHandshake :: "HandshakePacket \<Rightarrow> bool" where
  "ValidateHandshake hs \<longleftrightarrow> \<not> (hs_Version hs \<noteq> 5 \<and> hs_Version hs \<noteq> 0)"

text \<open>The stream ids that the extension carries without loss.\<close>

definition streamID_ok :: "bytes \<Rightarrow> bool" where
  "streamID_ok sid \<longleftrightarrow> sid = [] \<or> last sid \<noteq> 0 \<and> length sid \<le> 65535 * 4"

section \<open>Packets: parsing inverts building\<close>

lemma first_data: "(seq AND 0x7FFFFFFF) AND 0x80000000 = (0 :: u32)" "(seq AND 0x7FFFFFFF) AND 0x7FFFFFFF = seq AND (0x7FFFFFFF :: u32)"
  by (simp_all add: and.assoc)

lemma and_top_bit: "w AND 0x80000000 = (0 :: u32) \<longleftrightarrow> \<not> bit w 31"
  using and_exp_eq_0_iff_not_bit [of w 31] by simp

lemma first_control_bits:
  fixes t st :: u16 and top :: u32
  assumes top: "\<And>n. bit top n \<longleftrightarrow> n = 31"
  defines "f \<equiv> top OR push_bit 16 (ucast (t AND mask 15)) OR ucast st"
  shows "bit f 31" "ucast (drop_bit 16 f AND mask 15) = t AND mask 15" "ucast (f AND mask 16) = st"
  unfolding f_def by (auto intro!: bit_word_eqI simp: bit_simps top)

lemma first_control:
  fixes t st :: u16
  defines "f \<equiv> 0x80000000 OR push_bit 16 (ucast (t AND 0x7FFF)) OR (ucast st :: u32)"
  shows "f AND 0x80000000 \<noteq> 0" "ucast (drop_bit 16 f AND 0x7FFF) = t AND 0x7FFF"
    "ucast (f AND 0xFFFF) = st"
proof -
  have "bit (0x80000000 :: u32) n \<longleftrightarrow> n = 31" for n
    using bit_exp_word [where 'a = 32, of 31 n] by simp
  moreover have "(0x7FFF :: u32) = mask 15" "(0xFFFF :: u32) = mask 16" "(0x7FFF :: u16) = mask 15"
    by (simp_all add: mask_eq_exp_minus_1)
  ultimately show "f AND 0x80000000 \<noteq> 0" "ucast (drop_bit 16 f AND 0x7FFF) = t AND 0x7FFF"
    "ucast (f AND 0xFFFF) = st"
    using first_control_bits [of "0x80000000" t st] unfolding f_def and_top_bit by metis+
qed

lemma ParsePacket_control:
  "ParsePacket (BuildControlPacket t st sid p) =
     Some \<lparr>pkt_IsControl = True, pkt_CtrlType = t AND 0x7FFF, pkt_Subtype = st, pkt_SeqNum = 0,
           pkt_MsgNo = 0, pkt_Timestamp = 0, pkt_SocketID = sid, pkt_Payload = p\<rparr>"
  unfolding ParsePacket_def BuildControlPacket_def Let_def
  using first_control [of t st] by (simp add: u32_at_skip del: append_assoc)

lemma ParsePacket_data:
  "ParsePacket (BuildDataPacket seq m ts sid p) =
     Some \<lparr>pkt_IsControl = False, pkt_CtrlType = 0, pkt_Subtype = 0,
           pkt_SeqNum = seq AND 0x7FFFFFFF, pkt_MsgNo = m, pkt_Timestamp = ts, pkt_SocketID = sid,
           pkt_Payload = p\<rparr>"
  unfolding ParsePacket_def BuildDataPacket_def Let_def
  using first_data by (simp add: u32_at_skip)

lemma header_split:
  assumes "16 \<le> length d"
  shows "d = be32 (u32_at d 0) @ be32 (u32_at d 4) @ be32 (u32_at d 8) @ be32 (u32_at d 12) @ drop 16 d"
proof -
  have s: "take 4 (drop n d) @ drop (4 + n) d = drop n d" for n
    by (metis append_take_drop_id drop_drop)
  have d: "take 4 d @ take 4 (drop 4 d) @ take 4 (drop 8 d) @ take 4 (drop 12 d) @ drop 16 d = d"
    using s [of 4] s [of 8] s [of 12] by simp
  have h: "be32 (u32_at d 0) = take 4 d" "be32 (u32_at d 4) = take 4 (drop 4 d)"
      "be32 (u32_at d 8) = take 4 (drop 8 d)" "be32 (u32_at d 12) = take 4 (drop 12 d)"
    using assms be32_u32_at [of 0 d] be32_u32_at [of 4 d] be32_u32_at [of 8 d] be32_u32_at [of 12 d]
    by simp_all
  show ?thesis unfolding h by (rule d [symmetric])
qed

lemma top_clear: "w AND 0x80000000 = 0 \<Longrightarrow> w AND 0x7FFFFFFF = (w :: u32)"
proof (rule bit_word_eqI)
  fix n assume w: "w AND 0x80000000 = 0" and n: "n < LENGTH(32)"
  have m: "(0x7FFFFFFF :: u32) = mask 31" by (simp add: mask_eq_exp_minus_1)
  have "bit w n \<Longrightarrow> n \<noteq> 31" using w and_top_bit [of w] by metis
  then show "bit (w AND 0x7FFFFFFF) n = bit w n" using n unfolding m by (auto simp: bit_simps)
qed

text \<open>
  C28. Data packets: a datagram parses to the data packet \<open>p\<close> exactly when it is the one that
  \<open>BuildDataPacket\<close> makes of the fields of \<open>p\<close> (a 31-bit sequence number, no control fields).
\<close>
theorem ParsePacket_data_iff:
  "ParsePacket d = Some p \<and> \<not> pkt_IsControl p \<longleftrightarrow>
   d = BuildDataPacket (pkt_SeqNum p) (pkt_MsgNo p) (pkt_Timestamp p) (pkt_SocketID p) (pkt_Payload p) \<and>
   pkt_SeqNum p AND 0x7FFFFFFF = pkt_SeqNum p \<and>
   p = \<lparr>pkt_IsControl = False, pkt_CtrlType = 0, pkt_Subtype = 0, pkt_SeqNum = pkt_SeqNum p,
        pkt_MsgNo = pkt_MsgNo p, pkt_Timestamp = pkt_Timestamp p, pkt_SocketID = pkt_SocketID p,
        pkt_Payload = pkt_Payload p\<rparr>" (is "?parsed \<longleftrightarrow> ?built")
proof
  assume ?parsed
  then have l: "16 \<le> length d" and top: "u32_at d 0 AND 0x80000000 = 0"
    and p: "p = \<lparr>pkt_IsControl = False, pkt_CtrlType = 0, pkt_Subtype = 0,
      pkt_SeqNum = u32_at d 0 AND 0x7FFFFFFF, pkt_MsgNo = u32_at d 4, pkt_Timestamp = u32_at d 8,
      pkt_SocketID = u32_at d 12, pkt_Payload = drop 16 d\<rparr>"
    by (auto simp: ParsePacket_def Let_def split: if_splits)
  have "d = BuildDataPacket (u32_at d 0) (u32_at d 4) (u32_at d 8) (u32_at d 12) (drop 16 d)"
    unfolding BuildDataPacket_def top_clear [OF top] by (rule header_split [OF l])
  then show ?built unfolding p Packet.select_convs top_clear [OF top] by (intro conjI refl)
next
  assume b: ?built
  have "ParsePacket d = Some p"
    by (subst conjunct1 [OF b], subst (6) conjunct2 [OF conjunct2 [OF b]])
       (simp only: ParsePacket_data conjunct1 [OF conjunct2 [OF b]])
  moreover have "\<not> pkt_IsControl p"
    by (subst conjunct2 [OF conjunct2 [OF b]]) simp
  ultimately show ?parsed by blast
qed

text \<open>
  \<open>IsControlPacket\<close>, which the server applies to a raw datagram, agrees with the parser: a
  datagram with a full header is routed as control exactly when it parses to a control packet.
\<close>
lemma IsControlPacket_iff_parsed:
  assumes "16 \<le> length d"
  shows "IsControlPacket d \<longleftrightarrow> (\<exists>p. ParsePacket d = Some p \<and> pkt_IsControl p)"
proof -
  have "(d ! 0 AND 0x80 = 0) \<longleftrightarrow> \<not> bit (d ! 0) 7"
    using and_exp_eq_0_iff_not_bit [of "d ! 0" 7] by simp
  moreover have "bit (u32_at d 0) 31 \<longleftrightarrow> bit (d ! 0) 7"
    by (simp add: u32_at_def join32_def bit_simps)
  ultimately show ?thesis
    using assms by (simp add: IsControlPacket_def ParsePacket_def Let_def and_top_bit)
qed

section \<open>Handshakes: parsing inverts building\<close>

lemma trimNul_zeros:
  "sid \<noteq> [] \<Longrightarrow> last sid \<noteq> 0 \<Longrightarrow> j \<le> k \<Longrightarrow>
   trimNul (length sid + j) (sid @ replicate k 0) = sid"
proof (induction j)
  case 0
  then show ?case by (cases "length sid") (auto simp: last_conv_nth nth_append)
qed (simp add: nth_append)

lemma parseExtensions_built:
  assumes "sid \<noteq> []" "streamID_ok sid"
  shows "parseExtensions (buildStreamIDExtension sid) = sid"
proof -
  define w where "w = (length sid + 3) div 4"
  have w: "0 < w" "w < 65536" "length sid \<le> w * 4"
    using assms by (cases sid; auto simp: w_def streamID_ok_def)+
  have u: "unat (of_nat w :: u16) = w" using w by (intro unat_of_nat_small) simp
  have b: "buildStreamIDExtension sid = be16 5 @ be16 (of_nat w) @ sid @ replicate (w * 4 - length sid) 0"
    by (simp add: buildStreamIDExtension_def Let_def w_def)
  have "trimNul (w * 4) (sid @ replicate (w * 4 - length sid) 0) = sid"
    using trimNul_zeros [of sid "w * 4 - length sid" "w * 4 - length sid"] assms w by (simp add: streamID_ok_def)
  then show ?thesis
    using w u unfolding parseExtensions_def b
    by (subst parseExtensions_from.simps) (simp add: Let_def u16_at_skip)
qed

lemma ParseHandshake_BuildHandshake:
  assumes "streamID_ok (hs_StreamID hs)"
  shows "ParseHandshake (BuildHandshake hs) = Some hs"
proof -
  obtain a b c d where ip: "hs_PeerIP hs = (a, b, c, d)" by (cases "hs_PeerIP hs")
  let ?ext = "if hs_StreamID hs \<noteq> [] then buildStreamIDExtension (hs_StreamID hs) else []"
  let ?h = "be32 (hs_Version hs) @ be32 (hs_Encryption hs) @ be32 (hs_Extension hs) @
        be32 (hs_InitSeqNum hs) @ be32 (hs_MTU hs) @ be32 (hs_MaxFlowWindow hs) @
        be32 (hs_HandshakeType hs) @ be32 (hs_SocketID hs) @ be32 (hs_SynCookie hs)"
  have bh: "BuildHandshake hs = ?h @ [a, b, c, d] @ replicate 8 0 @ ?ext"
    by (simp add: BuildHandshake_def ip)
  have ext: "drop 48 (BuildHandshake hs) = ?ext" unfolding bh by simp
  have len: "length (BuildHandshake hs) = 48 + length ?ext" unfolding bh by simp
  have ipn: "BuildHandshake hs ! 36 = a" "BuildHandshake hs ! 37 = b" "BuildHandshake hs ! 38 = c"
      "BuildHandshake hs ! 39 = d"
    unfolding bh by (simp_all add: nth_append)
  have fields: "u32_at (BuildHandshake hs) 0 = hs_Version hs" "u32_at (BuildHandshake hs) 4 = hs_Encryption hs"
      "u32_at (BuildHandshake hs) 8 = hs_Extension hs" "u32_at (BuildHandshake hs) 12 = hs_InitSeqNum hs"
      "u32_at (BuildHandshake hs) 16 = hs_MTU hs" "u32_at (BuildHandshake hs) 20 = hs_MaxFlowWindow hs"
      "u32_at (BuildHandshake hs) 24 = hs_HandshakeType hs" "u32_at (BuildHandshake hs) 28 = hs_SocketID hs"
      "u32_at (BuildHandshake hs) 32 = hs_SynCookie hs"
    unfolding bh by (simp_all add: u32_at_skip)
  have "(if length (BuildHandshake hs) > 48 then parseExtensions ?ext else []) = hs_StreamID hs"
    using parseExtensions_built assms by (auto simp: len buildStreamIDExtension_def Let_def)
  moreover have "\<not> length (BuildHandshake hs) < 48" using len by simp
  ultimately show ?thesis
    unfolding ParseHandshake_def fields ipn ext
    by (simp only: if_False) (rule arg_cong [of _ _ Some], rule HandshakePacket.equality, simp_all add: ip)
qed

text \<open>
  C29. Handshake responses: the frame that \<open>BuildHandshakeResponse\<close> sends parses as a handshake
  control packet for the destination socket, and its payload parses back to every field of the
  handshake, the stream id included, provided the id does not end in NUL and its length in words
  fits the 16-bit field.
\<close>
theorem BuildHandshakeResponse_parses:
  assumes "streamID_ok (hs_StreamID hs)"
  shows "\<exists>p. ParsePacket (BuildHandshakeResponse hs dst) = Some p \<and> pkt_IsControl p \<and>
             pkt_CtrlType p = ctrlHandshake \<and> pkt_SocketID p = dst \<and>
             ParseHandshake (pkt_Payload p) = Some hs"
  using ParseHandshake_BuildHandshake [OF assms]
  by (simp add: BuildHandshakeResponse_def ParsePacket_control ctrlHandshake_def)

theorem BuildHandshakeResponse_parses_witness:
  "\<exists>p. ParsePacket (BuildHandshakeResponse
      \<lparr>hs_Version = 5, hs_Encryption = 0, hs_Extension = 0, hs_InitSeqNum = 12, hs_MTU = 1500,
       hs_MaxFlowWindow = 8192, hs_HandshakeType = HsConclusion, hs_SocketID = 77, hs_SynCookie = 9,
       hs_PeerIP = (127, 0, 0, 1), hs_StreamID = lit ''live/a''\<rparr> 3) = Some p \<and> pkt_IsControl p \<and>
     pkt_CtrlType p = ctrlHandshake \<and> pkt_SocketID p = 3 \<and>
     ParseHandshake (pkt_Payload p) = Some
      \<lparr>hs_Version = 5, hs_Encryption = 0, hs_Extension = 0, hs_InitSeqNum = 12, hs_MTU = 1500,
       hs_MaxFlowWindow = 8192, hs_HandshakeType = HsConclusion, hs_SocketID = 77, hs_SynCookie = 9,
       hs_PeerIP = (127, 0, 0, 1), hs_StreamID = lit ''live/a''\<rparr>"
  by (rule BuildHandshakeResponse_parses) (simp add: streamID_ok_def lit_def)

end
