(* ===== verification/TSDemux.thy ===== *)
theory TSDemux
  imports TSMux NalUnits
begin

text \<open>
  The MPEG-TS demultiplexer of the SRT receiver (\<open>pkg/protocol/srt/ts_parser.go\<close>). The code
  keeps it in the session; the model passes its state \<open>tsParser\<close>, the unread bytes and whether
  an event handler is set, and returns the frames handed to \<open>OnMediaFrame\<close> in order. A slice
  expression out of range is a run-time panic: the result is then \<open>None\<close>. The lemmas relate it
  to the muxer of \<open>TSMux\<close>: whatever that muxer cuts is put together again.
\<close>

section \<open>State\<close>

record tsStreamInfo =
  si_pid :: u16
  si_streamType :: u8
  si_codec :: CodecType
  si_kind :: TrackKind
  si_pesBuffer :: bytes
  si_hasPayload :: bool

record tsParser =
  tp_pmtPID :: u16
  tp_videoPID :: u16
  tp_audioPID :: u16
  tp_videoCodec :: CodecType
  tp_audioCodec :: CodecType
  tp_streams :: "u16 \<Rightarrow> tsStreamInfo option"

type_synonym frames = "(string \<times> MediaFrame) list"

definition newTSParser :: tsParser where
  "newTSParser = \<lparr>tp_pmtPID = 0, tp_videoPID = 0, tp_audioPID = 0, tp_videoCodec = 0,
     tp_audioCodec = 0, tp_streams = Map.empty\<rparr>"

definition codecFromStreamType :: "u8 \<Rightarrow> CodecType \<times> TrackKind" where
  "codecFromStreamType st =
     (if st = 0x1B then (CodecH264, TrackVideo)
      else if st = 0x24 then (CodecH265, TrackVideo)
      else if st = 0x02 then (CodecH264, TrackVideo)
      else if st = 0x0F then (CodecAAC, TrackAudio)
      else if st = 0x04 then (CodecAAC, TrackAudio)
      else if st = 0x90 then (CodecG711U, TrackAudio)
      else (0, 0))"

section \<open>TS packets\<close>

record tsPacket =
  tk_pid :: u16
  tk_payloadUnitStart :: bool
  tk_transportError :: bool
  tk_adaptationFieldControl :: u8
  tk_continuityCounter :: u8
  tk_payload :: bytes

definition parseTSPacket :: "bytes \<Rightarrow> tsPacket option" where
  "parseTSPacket buf =
     (if length buf < 188 \<or> buf ! 0 \<noteq> 0x47 then None
      else
        let afc = drop_bit 4 (buf ! 3) AND 0x03;
            off = (if afc = 0x02 \<or> afc = 0x03
                   then (if 5 + unat (buf ! 4) > length buf then length buf else 5 + unat (buf ! 4))
                   else 4) in
        Some \<lparr>tk_pid = push_bit 8 (ucast (buf ! 1 AND 0x1F)) OR ucast (buf ! 2),
              tk_payloadUnitStart = (buf ! 1 AND 0x40 \<noteq> 0),
              tk_transportError = (buf ! 1 AND 0x80 \<noteq> 0),
              tk_adaptationFieldControl = afc,
              tk_continuityCounter = buf ! 3 AND 0x0F,
              tk_payload = (if afc = 0x01 \<or> afc = 0x03 then drop off (take 188 buf) else [])\<rparr>)"

section \<open>Program tables\<close>

text \<open>The loop over the program entries of a PAT: the last usable entry wins.\<close>

function patEntries :: "bytes \<Rightarrow> nat \<Rightarrow> u16 \<Rightarrow> u16" where
  "patEntries body i pid =
     (if i + 4 \<le> length body then
        let programNum = u16_at body i; pmtPID = u16_at body (i + 2) AND 0x1FFF in
        patEntries body (i + 4) (if programNum \<noteq> 0 \<and> pmtPID \<noteq> 0 then pmtPID else pid)
      else pid)"
  by pat_completeness auto
termination
  by (relation "measure (\<lambda>(body, i, _). length body - i)") auto

definition parsePAT :: "tsParser \<Rightarrow> tsPacket \<Rightarrow> tsParser option" where
  "parsePAT p pkt =
     (if \<not> tk_payloadUnitStart pkt \<or> length (tk_payload pkt) < 1 then Some p
      else
        let off = 1 + unat (tk_payload pkt ! 0) in
        if off + 8 > length (tk_payload pkt) then Some p
        else
          let sec = drop off (tk_payload pkt);
              sectionLen = unat (u16_at sec 1 AND 0x0FFF) in
          if 3 + sectionLen > length sec then Some p
          else
            (case go_slice 8 (3 + int sectionLen - 4) sec of
               None \<Rightarrow> None
             | Some body \<Rightarrow> Some (p\<lparr>tp_pmtPID := patEntries body 0 (tp_pmtPID p)\<rparr>)))"

definition registerStream :: "tsParser \<Rightarrow> u8 \<Rightarrow> u16 \<Rightarrow> tsParser" where
  "registerStream p streamType esPID =
     (case codecFromStreamType streamType of (codec, kind) \<Rightarrow>
        if codec = 0 then p
        else
          let p = (case tp_streams p esPID of
                     Some _ \<Rightarrow> p
                   | None \<Rightarrow> p\<lparr>tp_streams := (tp_streams p)(esPID \<mapsto>
                       \<lparr>si_pid = esPID, si_streamType = streamType, si_codec = codec,
                        si_kind = kind, si_pesBuffer = [], si_hasPayload = False\<rparr>)\<rparr>) in
          if kind = TrackVideo \<and> tp_videoPID p = 0
          then p\<lparr>tp_videoPID := esPID, tp_videoCodec := codec\<rparr>
          else if kind = TrackAudio \<and> tp_audioPID p = 0
          then p\<lparr>tp_audioPID := esPID, tp_audioCodec := codec\<rparr>
          else p)"

function pmtEntries :: "bytes \<Rightarrow> nat \<Rightarrow> tsParser \<Rightarrow> tsParser" where
  "pmtEntries body i p =
     (if i + 5 \<le> length body then
        let esPID = u16_at body (i + 1) AND 0x1FFF;
            esInfoLen = unat (u16_at body (i + 3) AND 0x0FFF) in
        pmtEntries body (i + (5 + esInfoLen)) (registerStream p (body ! i) esPID)
      else p)"
  by pat_completeness auto
termination
  by (relation "measure (\<lambda>(body, i, _). length body - i)") auto

definition parsePMT :: "tsParser \<Rightarrow> tsPacket \<Rightarrow> tsParser option" where
  "parsePMT p pkt =
     (if \<not> tk_payloadUnitStart pkt \<or> length (tk_payload pkt) < 1 then Some p
      else
        let off = 1 + unat (tk_payload pkt ! 0) in
        if off + 12 > length (tk_payload pkt) then Some p
        else
          let sec = drop off (tk_payload pkt);
              sectionLen = unat (u16_at sec 1 AND 0x0FFF) in
          if 3 + sectionLen > length sec then Some p
          else
            let esStart = 12 + unat (u16_at sec 10 AND 0x0FFF) in
            (case go_slice (int esStart) (3 + int sectionLen - 4) sec of
               None \<Rightarrow> None
             | Some body \<Rightarrow> Some (pmtEntries body 0 p)))"

declare patEntries.simps [simp del] pmtEntries.simps [simp del]

section \<open>Elementary streams\<close>

definition parsePESHeader :: "bytes \<Rightarrow> bytes option" where
  "parsePESHeader payload =
     (if length payload < 9 then None
      else if payload ! 0 \<noteq> 0x00 \<or> payload ! 1 \<noteq> 0x00 \<or> payload ! 2 \<noteq> 0x01 then None
      else
        let off = 9 + unat (payload ! 8) in
        if off > length payload then None else Some (drop off payload))"

text \<open>\<open>start\<close> is the begin of the open NAL unit, \<open>None\<close> for the -1 of the code.\<close>

function splitNAL_loop :: "bytes \<Rightarrow> nat \<Rightarrow> nat option \<Rightarrow> bytes list" where
  "splitNAL_loop data i start =
     (let closed = (case start of None \<Rightarrow> [] | Some st \<Rightarrow> [take (i - st) (drop st data)]) in
      if i < length data then
        if i + 2 < length data \<and> data ! i = 0 \<and> data ! (i + 1) = 0 \<and> data ! (i + 2) = 0x01
        then closed @ splitNAL_loop data (i + 3) (Some (i + 3))
        else if i + 3 < length data \<and> data ! i = 0 \<and> data ! (i + 1) = 0 \<and> data ! (i + 2) = 0 \<and>
                data ! (i + 3) = 0x01
        then closed @ splitNAL_loop data (i + 4) (Some (i + 4))
        else splitNAL_loop data (i + 1) start
      else
        (case start of
           None \<Rightarrow> []
         | Some st \<Rightarrow> if st < length data then [drop st data] else []))"
  by pat_completeness auto
termination
  by (relation "measure (\<lambda>(data, i, _). length data - i)") auto

declare splitNAL_loop.simps [simp del]

definition splitNALUnits :: "bytes \<Rightarrow> bytes list" where
  "splitNALUnits data = splitNAL_loop data 0 None"

definition isKeyFrameNAL :: "CodecType \<Rightarrow> bytes \<Rightarrow> bool" where
  "isKeyFrameNAL codec nal =
     (if length nal = 0 then False
      else if codec = CodecH264 then nal ! 0 AND 0x1F = 5
      else if codec = CodecH265 then
        (let nalType = drop_bit 1 (nal ! 0) AND 0x3F in nalType \<ge> 16 \<and> nalType \<le> 21)
      else False)"

definition flushPES :: "bool \<Rightarrow> tsStreamInfo \<Rightarrow> frames" where
  "flushPES handler info =
     (if length (si_pesBuffer info) = 0 \<or> \<not> handler then []
      else
        let trackID = (if si_kind info = TrackAudio then ''audio'' else ''video'') in
        if si_codec info = CodecH264 \<or> si_codec info = CodecH265 then
          map (\<lambda>nal. (trackID, zero_frame\<lparr>fr_Type := FrameVideo, fr_Codec := si_codec info,
                         fr_Payload := nal, fr_Marker := isKeyFrameNAL (si_codec info) nal\<rparr>))
            (filter (\<lambda>nal. length nal \<noteq> 0) (splitNALUnits (si_pesBuffer info)))
        else if si_codec info = CodecAAC then
          [(trackID, zero_frame\<lparr>fr_Type := FrameAudio, fr_Codec := CodecAAC,
              fr_Payload := si_pesBuffer info\<rparr>)]
        else if si_codec info \<in> {CodecG711U, CodecG711A, CodecPCMU, CodecPCMA} then
          [(trackID, zero_frame\<lparr>fr_Type := FrameAudio, fr_Codec := si_codec info,
              fr_Payload := si_pesBuffer info\<rparr>)]
        else
          [(trackID, zero_frame\<lparr>fr_Type := FrameTypeFromKind (si_kind info),
              fr_Codec := si_codec info, fr_Payload := si_pesBuffer info\<rparr>)])"

definition processPES :: "bool \<Rightarrow> tsParser \<Rightarrow> tsPacket \<Rightarrow> tsParser \<times> frames" where
  "processPES handler p pkt =
     (case tp_streams p (tk_pid pkt) of
        None \<Rightarrow> (p, [])
      | Some info \<Rightarrow>
          if tk_payloadUnitStart pkt then
            let flushed = (if length (si_pesBuffer info) > 0 then flushPES handler info else []);
                info = info\<lparr>si_pesBuffer := [], si_hasPayload := False\<rparr>;
                info = (case parsePESHeader (tk_payload pkt) of
                          None \<Rightarrow> info
                        | Some es \<Rightarrow> info\<lparr>si_pesBuffer := si_pesBuffer info @ es,
                                          si_hasPayload := True\<rparr>) in
            (p\<lparr>tp_streams := (tp_streams p)(tk_pid pkt \<mapsto> info)\<rparr>, flushed)
          else
            (p\<lparr>tp_streams := (tp_streams p)(tk_pid pkt \<mapsto>
                 info\<lparr>si_pesBuffer := si_pesBuffer info @ tk_payload pkt\<rparr>)\<rparr>, []))"

definition processTSPacket :: "bool \<Rightarrow> tsParser \<Rightarrow> tsPacket \<Rightarrow> (tsParser \<times> frames) option" where
  "processTSPacket handler p pkt =
     (if tk_pid pkt = 0 then map_option (\<lambda>p. (p, [])) (parsePAT p pkt)
      else if tp_pmtPID p \<noteq> 0 \<and> tk_pid pkt = tp_pmtPID p
      then map_option (\<lambda>p. (p, [])) (parsePMT p pkt)
      else Some (processPES handler p pkt))"

section \<open>The byte stream\<close>

function find_sync :: "bytes \<Rightarrow> nat \<Rightarrow> nat option" where
  "find_sync buf i =
     (if i + 188 \<le> length buf then
        if buf ! i = 0x47 then Some i else find_sync buf (i + 1)
      else None)"
  by pat_completeness auto
termination
  by (relation "measure (\<lambda>(buf, i). length buf - i)") auto

declare find_sync.simps [simp del]

text \<open>
  The loop of \<open>feedTSData\<close> over the accumulated buffer: the parser, what is left in the buffer,
  the packet count and the frames.
\<close>

function feed_loop ::
  "bool \<Rightarrow> tsParser \<Rightarrow> bytes \<Rightarrow> nat \<Rightarrow> (tsParser \<times> bytes \<times> nat \<times> frames) option" where
  "feed_loop handler p buf n =
     (if length buf \<ge> 188 then
        (case find_sync buf 0 of
           None \<Rightarrow> Some (p, if length buf > 1 then drop (length buf - 1) buf else buf, n, [])
         | Some idx \<Rightarrow>
             let buf = drop idx buf in
             if length buf < 188 then Some (p, buf, n, [])
             else
               (case parseTSPacket (take 188 buf) of
                  None \<Rightarrow> feed_loop handler p (drop 188 buf) n
                | Some pkt \<Rightarrow>
                    if tk_transportError pkt \<or> length (tk_payload pkt) = 0
                    then feed_loop handler p (drop 188 buf) (n + 1)
                    else
                      (case processTSPacket handler p pkt of
                         None \<Rightarrow> None
                       | Some (p, out) \<Rightarrow>
                           map_option (\<lambda>(p, rest, n, out'). (p, rest, n, out @ out'))
                             (feed_loop handler p (drop 188 buf) (n + 1)))))
      else Some (p, buf, n, []))"
  by pat_completeness auto
termination
  by (relation "measure (\<lambda>(_, _, buf, _). length buf)") auto

declare feed_loop.simps [simp del]

section \<open>Specification\<close>

definition packetOf :: "u16 \<Rightarrow> bool \<Rightarrow> u8 \<Rightarrow> u8 \<Rightarrow> bytes \<Rightarrow> tsPacket" where
  "packetOf pid start afc cc chunk =
     \<lparr>tk_pid = pid, tk_payloadUnitStart = start, tk_transportError = False,
      tk_adaptationFieldControl = afc, tk_continuityCounter = cc, tk_payload = chunk\<rparr>"

text \<open>
  \<open>carries cc pid start payload packets\<close>: the packets all parse, belong to \<open>pid\<close>, count up from
  \<open>cc\<close>, start a unit with the first one only (if \<open>start\<close>), and their payloads in order are
  \<open>payload\<close>; each holds at least 176 bytes or all that is left.
\<close>

fun carries :: "u8 \<Rightarrow> u16 \<Rightarrow> bool \<Rightarrow> bytes \<Rightarrow> bytes list \<Rightarrow> bool" where
  "carries cc pid start payload [] \<longleftrightarrow> payload = []"
| "carries cc pid start payload (b # bs) \<longleftrightarrow>
     (case parseTSPacket b of
        None \<Rightarrow> False
      | Some t \<Rightarrow>
          length b = 188 \<and> tk_pid t = pid \<and> tk_payloadUnitStart t = start \<and>
          \<not> tk_transportError t \<and> tk_continuityCounter t = cc \<and> tk_payload t \<noteq> [] \<and>
          min 176 (length payload) \<le> length (tk_payload t) \<and>
          take (length (tk_payload t)) payload = tk_payload t \<and>
          carries ((cc + 1) AND 0x0F) pid False (drop (length (tk_payload t)) payload) bs)"

text \<open>Packets handed to the demultiplexer one by one.\<close>

fun run_packets :: "bool \<Rightarrow> tsParser \<Rightarrow> bytes list \<Rightarrow> (tsParser \<times> frames) option" where
  "run_packets handler p [] = Some (p, [])"
| "run_packets handler p (b # bs) =
     (case parseTSPacket b of
        None \<Rightarrow> run_packets handler p bs
      | Some t \<Rightarrow>
          if tk_transportError t \<or> tk_payload t = [] then run_packets handler p bs
          else
            (case processTSPacket handler p t of
               None \<Rightarrow> None
             | Some (p, out) \<Rightarrow> map_option (\<lambda>(p, out'). (p, out @ out')) (run_packets handler p bs)))"

text \<open>Datagrams fed one after the other to the loop of \<open>feedTSData\<close>.\<close>

fun feed_all ::
  "bool \<Rightarrow> tsParser \<Rightarrow> bytes \<Rightarrow> nat \<Rightarrow> bytes list \<Rightarrow> (tsParser \<times> bytes \<times> nat \<times> frames) option" where
  "feed_all handler p buf n [] = Some (p, buf, n, [])"
| "feed_all handler p buf n (d # ds) =
     (case feed_loop handler p (buf @ d) n of
        None \<Rightarrow> None
      | Some (p, buf, n, out) \<Rightarrow>
          map_option (\<lambda>(p, buf, n, out'). (p, buf, n, out @ out')) (feed_all handler p buf n ds))"

definition aligned :: "bytes list \<Rightarrow> bool" where
  "aligned bs \<longleftrightarrow> (\<forall>b \<in> set bs. length b = 188 \<and> b ! 0 = 0x47)"

definition with_pes :: "tsParser \<Rightarrow> u16 \<Rightarrow> tsStreamInfo \<Rightarrow> bytes \<Rightarrow> tsParser" where
  "with_pes p pid info b =
     p\<lparr>tp_streams := (tp_streams p)(pid \<mapsto> info\<lparr>si_pesBuffer := b\<rparr>)\<rparr>"

definition default_pids :: "TSMuxer \<Rightarrow> bool" where
  "default_pids m \<longleftrightarrow> mx_pmtPID m = 0x1000 \<and> mx_videoPID m = 0x100 \<and> mx_audioPID m = 0x101 \<and> mx_pcrPID m = 0x100"

definition tracks :: "tsParser \<Rightarrow> bytes \<Rightarrow> bytes \<Rightarrow> bool" where
  "tracks p v a \<longleftrightarrow>
     tp_pmtPID p = 0x1000 \<and> tp_videoPID p \<noteq> 0 \<and> tp_audioPID p \<noteq> 0 \<and>
     (\<exists>hv. tp_streams p 0x100 = Some \<lparr>si_pid = 0x100, si_streamType = 0x1B, si_codec = CodecH264,
        si_kind = TrackVideo, si_pesBuffer = v, si_hasPayload = hv\<rparr>) \<and>
     (\<exists>ha. tp_streams p 0x101 = Some \<lparr>si_pid = 0x101, si_streamType = 0x0F, si_codec = CodecAAC,
        si_kind = TrackAudio, si_pesBuffer = a, si_hasPayload = ha\<rparr>)"

fun mux_all :: "TSMuxer \<Rightarrow> MediaFrame list \<Rightarrow> bytes option" where
  "mux_all m [] = Some []"
| "mux_all m (f # fs) =
     (case MuxFrame m f of
        None \<Rightarrow> None
      | Some (out, m) \<Rightarrow> map_option (\<lambda>rest. out @ rest) (mux_all m fs))"

text \<open>What the receiver hands on for one frame of each kind.\<close>

definition video_out :: "bytes \<Rightarrow> frames" where
  "video_out v =
     map (\<lambda>nal. (''video'', zero_frame\<lparr>fr_Type := FrameVideo, fr_Codec := CodecH264,
            fr_Payload := nal, fr_Marker := isKeyFrameNAL CodecH264 nal\<rparr>))
       (filter (\<lambda>nal. nal \<noteq> []) (splitNALUnits v))"

definition audio_out :: "bytes \<Rightarrow> frames" where
  "audio_out a =
     (if a = [] then []
      else [(''audio'', zero_frame\<lparr>fr_Type := FrameAudio, fr_Codec := CodecAAC, fr_Payload := a\<rparr>)])"

text \<open>A frame is delivered when the next one of its kind starts.\<close>

fun deliver :: "bytes \<Rightarrow> bytes \<Rightarrow> MediaFrame list \<Rightarrow> frames" where
  "deliver v a [] = []"
| "deliver v a (f # fs) =
     (if fr_Type f = FrameVideo then video_out v @ deliver (fr_Payload f) a fs
      else audio_out a @ deliver v (fr_Payload f) fs)"

section \<open>Parsing what the muxer packs\<close>

lemma pid_bytes_bits:
  fixes pid :: u16 and us :: u8
  assumes us: "\<And>n. bit us n \<Longrightarrow> n = 6" and pid: "\<And>n. bit pid n \<Longrightarrow> n < 13"
  shows "push_bit 8 (ucast ((ucast (drop_bit 8 pid AND mask 5) OR us) AND mask 5)) OR
         ucast (ucast (pid AND mask 8) :: u8) = pid"
  by (rule bit_word_eqI) (auto simp: bit_simps dest: us pid)

lemma pid_bytes:
  fixes pid :: u16 and start :: bool
  assumes "pid < 0x2000"
  defines "b \<equiv> ucast (drop_bit 8 pid AND 0x1F) OR (if start then 0x40 else 0) :: u8"
  shows "push_bit 8 (ucast (b AND 0x1F)) OR ucast (ucast (pid AND 0xFF) :: u8) = pid"
    and "b AND 0x40 \<noteq> 0 \<longleftrightarrow> start" and "b AND 0x80 = 0"
proof -
  have m: "(0x1F :: u16) = mask 5" "(0x1F :: u8) = mask 5" "(0xFF :: u16) = mask 8"
    by (simp_all add: mask_eq_exp_minus_1)
  have us: "bit (if start then 0x40 else 0 :: u8) n \<longleftrightarrow> start \<and> n = 6" for n
    using bit_exp_word [where 'a = 8, of 6 n] by simp
  have pid: "bit pid n \<Longrightarrow> n < 13" for n
    using bit_small [of pid 13 n] assms(1) by (cases "n < 13") auto
  show "push_bit 8 (ucast (b AND 0x1F)) OR ucast (ucast (pid AND 0xFF) :: u8) = pid"
    unfolding b_def m by (rule pid_bytes_bits) (use us pid in auto)
  have "bit b 6 \<longleftrightarrow> start" unfolding b_def m by (simp add: bit_simps us)
  then show "b AND 0x40 \<noteq> 0 \<longleftrightarrow> start"
    using and_exp_eq_0_iff_not_bit [of b 6] by simp
  have "\<not> bit b 7" unfolding b_def m by (simp add: bit_simps us)
  then show "b AND 0x80 = 0" using and_exp_eq_0_iff_not_bit [of b 7] by simp
qed

lemma afc_byte:
  fixes afc cc :: u8
  assumes "afc < 4"
  shows "drop_bit 4 (push_bit 4 afc OR (cc AND 0x0F)) AND 0x03 = afc"
    and "(push_bit 4 afc OR (cc AND 0x0F)) AND 0x0F = cc AND 0x0F"
proof -
  have m: "(0x0F :: u8) = mask 4" "(0x03 :: u8) = mask 2" by (simp_all add: mask_eq_exp_minus_1)
  have afc: "bit afc n \<Longrightarrow> n < 2" for n
    using bit_small [of afc 2 n] assms by (cases "n < 2") auto
  show "drop_bit 4 (push_bit 4 afc OR (cc AND 0x0F)) AND 0x03 = afc"
    unfolding m by (rule bit_word_eqI) (auto simp: bit_simps dest: afc)
  show "(push_bit 4 afc OR (cc AND 0x0F)) AND 0x0F = cc AND 0x0F"
    unfolding m by (rule bit_word_eqI) (auto simp: bit_simps)
qed

lemma parseTSPacket_header:
  assumes pid: "pid < 0x2000" and r: "0 < r"
    and af: "af \<noteq> [] \<Longrightarrow> length af \<le> 182" "af = [] \<Longrightarrow> \<not> r < 184"
    and len: "length (packetHeader m pid start af r @ chunk) = 188"
  shows "parseTSPacket (packetHeader m pid start af r @ chunk) =
           Some (packetOf pid start (afControl af r) (mx_cc m pid AND 0x0F) chunk)"
proof -
  let ?b = "packetHeader m pid start af r @ chunk"
  have ctl: "afControl af r = (if af = [] then 1 else 3)"
    using r af(2) by (auto simp: afControl_def)
  have lt: "afControl af r < 4" using ctl by simp
  have n: "?b ! 0 = 0x47" "?b ! 1 = ucast (drop_bit 8 pid AND 0x1F) OR (if start then 0x40 else 0)"
      "?b ! 2 = ucast (pid AND 0xFF)" "?b ! 3 = push_bit 4 (afControl af r) OR (mx_cc m pid AND 0x0F)"
    by (simp_all add: packetHeader_def)
  have off: "af \<noteq> [] \<Longrightarrow> unat (?b ! 4) = length af"
    using af(1) by (simp add: packetHeader_def unat_of_nat_small)
  have hl: "length (packetHeader m pid start af r) = (if af = [] then 4 else 5 + length af)"
    by (simp add: packetHeader_def)
  have d: "drop (if afControl af r = 2 \<or> afControl af r = 3 then
        if 5 + unat (?b ! 4) > length ?b then length ?b else 5 + unat (?b ! 4) else 4) (take 188 ?b) = chunk"
    using off af(1) len hl unfolding ctl by (cases "af = []") auto
  have "\<not> (length ?b < 188 \<or> ?b ! 0 \<noteq> 0x47)" using len n(1) by simp
  moreover have "afControl af r = 1 \<or> afControl af r = 3" using ctl by auto
  ultimately show ?thesis
    unfolding parseTSPacket_def Let_def n afc_byte [OF lt] pid_bytes [OF pid] packetOf_def
    using d pid_bytes(2,3) [OF pid, of start] by (simp add: n(4))
qed

lemma cc_mask: "((c AND 0x0F) + 1) AND 0x0F = (c + 1) AND (0x0F :: u8)" "(c AND 0x0F) AND 0x0F = c AND (0x0F :: u8)"
proof -
  have m: "(0x0F :: u8) = mask 4" by (simp add: mask_eq_exp_minus_1)
  show "((c AND 0x0F) + 1) AND 0x0F = (c + 1) AND (0x0F :: u8)"
    unfolding m take_bit_eq_mask [symmetric]
    by transfer (simp add: take_bit_eq_mod mod_simps)
  show "(c AND 0x0F) AND 0x0F = c AND (0x0F :: u8)" by (simp add: and.assoc)
qed

lemma stuffTS_loop_carries:
  assumes "pid < 0x2000"
  shows "offset < length payload \<Longrightarrow> length payload - offset < f \<Longrightarrow>
    \<exists>pkts c. stuffTS_loop f m pid start payload withPCR pcr offset =
        Some (concat pkts, m\<lparr>mx_cc := (mx_cc m)(pid := c)\<rparr>) \<and> pkts \<noteq> [] \<and>
      carries (mx_cc m pid AND 0x0F) pid (start \<and> offset = 0) (drop offset payload) pkts"
proof (induction f arbitrary: m offset)
  case (Suc f)
  let ?r = "length payload - offset"
  let ?af = "afContent withPCR pcr offset ?r"
  define hdr where "hdr = packetHeader m pid (start \<and> offset = 0) ?af ?r"
  define n where "n = 188 - length hdr"
  define chunk where "chunk = take n (drop offset payload)"
  have r: "0 < ?r" using Suc.prems by simp
  have h: "length hdr < 188" "n \<le> ?r" "min 176 ?r \<le> n"
    using stuffPacket_eq(2-4) [OF Suc.prems(1), where m = m and pid = pid and payloadStart = start and withPCR = withPCR and pcr = pcr]
    by (simp_all add: hdr_def n_def)
  have c: "length (hdr @ chunk) = 188" "chunk \<noteq> []" "length chunk = n"
    using h by (auto simp: chunk_def n_def)
  have af: "?af \<noteq> [] \<Longrightarrow> length ?af \<le> 182" "?af = [] \<Longrightarrow> \<not> ?r < 184"
    using afContent_length [OF r, of withPCR pcr offset] by (cases "?r < 184"; auto)+
  have p: "parseTSPacket (hdr @ chunk) =
      Some (packetOf pid (start \<and> offset = 0) (afControl ?af ?r) (mx_cc m pid AND 0x0F) chunk)"
    unfolding hdr_def by (rule parseTSPacket_header [OF assms r af]) (use c in \<open>simp_all add: hdr_def\<close>)
  have step: "stuffTS_loop (Suc f) m pid start payload withPCR pcr offset =
      map_option (\<lambda>(out, m). (hdr @ chunk @ out, m))
        (stuffTS_loop f (bumpCC m pid) pid start payload withPCR pcr (offset + n))"
    using stuffTS_loop_more [OF Suc.prems(1)] by (simp add: hdr_def n_def chunk_def)
  have one: "carries (mx_cc m pid AND 0x0F) pid (start \<and> offset = 0) (drop offset payload) ((hdr @ chunk) # pkts)"
    if "carries ((mx_cc m pid + 1) AND 0x0F) pid False (drop (offset + n) payload) pkts" for pkts
    using that c p h(3) by (simp add: packetOf_def cc_mask chunk_def add.commute [of n offset])
  show ?case
  proof (cases "offset + n < length payload")
    case True
    have "0 < n" using h by (simp add: n_def)
    with True Suc.prems have "length payload - (offset + n) < f" by simp
    from Suc.IH [OF True this, of "bumpCC m pid"] obtain pkts c' where
      "stuffTS_loop f (bumpCC m pid) pid start payload withPCR pcr (offset + n) =
         Some (concat pkts, (bumpCC m pid)\<lparr>mx_cc := (mx_cc (bumpCC m pid))(pid := c')\<rparr>)"
      and k: "carries (mx_cc (bumpCC m pid) pid AND 0x0F) pid (start \<and> offset + n = 0) (drop (offset + n) payload) pkts"
      by blast
    moreover have "(bumpCC m pid)\<lparr>mx_cc := (mx_cc (bumpCC m pid))(pid := c')\<rparr> = m\<lparr>mx_cc := (mx_cc m)(pid := c')\<rparr>"
      by simp
    moreover have "carries ((mx_cc m pid + 1) AND 0x0F) pid False (drop (offset + n) payload) pkts"
      using k \<open>0 < n\<close> by (simp add: cc_mask)
    ultimately have "stuffTS_loop (Suc f) m pid start payload withPCR pcr offset =
         Some (concat ((hdr @ chunk) # pkts), m\<lparr>mx_cc := (mx_cc m)(pid := c')\<rparr>)"
      "carries (mx_cc m pid AND 0x0F) pid (start \<and> offset = 0) (drop offset payload) ((hdr @ chunk) # pkts)"
      using one [of pkts] unfolding step by (simp_all del: carries.simps fun_upd_apply)
    then show ?thesis by blast
  next
    case False
    then have e: "drop (offset + n) payload = []" by simp
    have "stuffTS_loop f (bumpCC m pid) pid start payload withPCR pcr (offset + n) = Some ([], bumpCC m pid)"
      using False Suc.prems h by (cases f) (auto simp: n_def)
    then have "stuffTS_loop (Suc f) m pid start payload withPCR pcr offset =
         Some (concat [hdr @ chunk], bumpCC m pid)"
      "carries (mx_cc m pid AND 0x0F) pid (start \<and> offset = 0) (drop offset payload) [hdr @ chunk]"
      using one [of "[]"] e unfolding step by simp_all
    then show ?thesis by blast
  qed
qed simp

lemma stuffTS_packets:
  assumes "payload \<noteq> []" "pid < 0x2000"
  shows "\<exists>pkts c. stuffTS m pid True payload withPCR pcr =
             Some (concat pkts, m\<lparr>mx_cc := (mx_cc m)(pid := c)\<rparr>) \<and> pkts \<noteq> [] \<and>
           carries (mx_cc m pid AND 0x0F) pid True payload pkts"
  using stuffTS_loop_carries [OF assms(2), of 0 payload "length payload + 1" m True withPCR pcr] assms(1)
  by (simp add: stuffTS_def)

text \<open>
  \<open>MuxPES\<close> returns for every payload and 13-bit PID, and the receiver's \<open>parseTSPacket\<close>
  undoes its packetisation: the output is a sequence of full packets that parse, belong to the
  PID, carry consecutive continuity counters, flag the start of the unit on the first packet only
  and carry exactly the PES header and the payload; only the counter of that PID changes.
\<close>
lemma MuxPES_carries:
  assumes "pid < 0x2000"
  shows "\<exists>pkts c. MuxPES m pid sid payload pts dts key =
             Some (concat pkts, m\<lparr>mx_cc := (mx_cc m)(pid := c)\<rparr>) \<and>
           carries (mx_cc m pid AND 0x0F) pid True (buildPESHeader sid payload pts dts @ payload) pkts"
proof -
  have "buildPESHeader sid payload pts dts @ payload \<noteq> []" by (simp add: buildPESHeader_def Let_def)
  from stuffTS_packets [OF this assms] show ?thesis
    by (cases key) (fastforce simp: MuxPES_def)+
qed

lemma feed_loop_short: "length buf < 188 \<Longrightarrow> feed_loop h p buf n = Some (p, buf, n, [])"
  by (subst feed_loop.simps) simp

lemma feed_loop_packet:
  assumes b: "length b = 188" "b ! 0 = 0x47"
  obtains t where "parseTSPacket b = Some t" and
    "feed_loop h p (b @ rest) n =
       (if tk_transportError t \<or> tk_payload t = [] then feed_loop h p rest (n + 1)
        else (case processTSPacket h p t of
                None \<Rightarrow> None
              | Some (p, out) \<Rightarrow> map_option (\<lambda>(p, rest, n, out'). (p, rest, n, out @ out'))
                  (feed_loop h p rest (n + 1))))"
proof -
  have f: "find_sync (b @ rest) 0 = Some 0"
    using b by (subst find_sync.simps) (simp add: nth_append)
  have d: "drop 188 (b @ rest) = rest" using b by simp
  obtain t where t: "parseTSPacket b = Some t"
    using b by (auto simp: parseTSPacket_def Let_def)
  show thesis
    by (rule that [OF t], subst feed_loop.simps) (use b f t d in \<open>simp add: Let_def split: option.split\<close>)
qed

lemma feed_loop_aligned:
  "aligned bs \<Longrightarrow> length r < 188 \<Longrightarrow>
   feed_loop h p (concat bs @ r) n =
     map_option (\<lambda>(p, out). (p, r, n + length bs, out)) (run_packets h p bs)"
proof (induction bs arbitrary: p n)
  case Nil
  then show ?case by (simp add: feed_loop_short)
next
  case (Cons b bs)
  then have b: "length b = 188" "b ! 0 = 0x47" "aligned bs" by (auto simp: aligned_def)
  obtain t where t: "parseTSPacket b = Some t" and
    s: "feed_loop h p (b @ concat bs @ r) n =
       (if tk_transportError t \<or> tk_payload t = [] then feed_loop h p (concat bs @ r) (n + 1)
        else (case processTSPacket h p t of
                None \<Rightarrow> None
              | Some (p, out) \<Rightarrow> map_option (\<lambda>(p, rest, n, out'). (p, rest, n, out @ out'))
                  (feed_loop h p (concat bs @ r) (n + 1))))"
    using feed_loop_packet [OF b(1,2), of h p "concat bs @ r" n] by blast
  have IH: "feed_loop h q (concat bs @ r) (n + 1) =
      map_option (\<lambda>(p, out). (p, r, n + 1 + length bs, out)) (run_packets h q bs)" for q
    by (rule Cons.IH [OF b(3) Cons.prems(2)])
  show ?case
    using t s unfolding IH
    by (auto simp: map_option_case split: option.splits prod.splits)
qed

lemma aligned_split:
  assumes "aligned bs" "s @ rest = concat bs"
  shows "\<exists>k r. s = concat (take k bs) @ r \<and> length r < 188 \<and> r @ rest = concat (drop k bs)"
  using assms
proof (induction bs arbitrary: s)
  case Nil
  then show ?case by auto
next
  case (Cons b bs)
  then have b: "length b = 188" "aligned bs" by (auto simp: aligned_def)
  show ?case
  proof (cases "length s < 188")
    case True
    with Cons.prems show ?thesis by (intro exI [of _ 0]) auto
  next
    case False
    have "take 188 (s @ rest) = b" "drop 188 (s @ rest) = concat bs"
      using Cons.prems(2) b by simp_all
    with False have "take 188 s = b" and s: "drop 188 s @ rest = concat bs" by simp_all
    then have s1: "s = b @ drop 188 s" by (metis append_take_drop_id)
    from Cons.IH [OF b(2) s] obtain k r where
      "drop 188 s = concat (take k bs) @ r" "length r < 188" "r @ rest = concat (drop k bs)" by blast
    with s1 show ?thesis
      by (intro exI [of _ "Suc k"] exI [of _ r]) (metis append.assoc concat.simps(2) drop_Suc_Cons take_Suc_Cons)
  qed
qed

lemma run_packets_append:
  "run_packets h p (as @ bs) =
     (case run_packets h p as of
        None \<Rightarrow> None
      | Some (p, out) \<Rightarrow> map_option (\<lambda>(p, out'). (p, out @ out')) (run_packets h p bs))"
proof (induction as arbitrary: p)
  case (Cons a as)
  then show ?case
    by (auto simp: map_option_case split: option.splits prod.splits)
qed (auto simp: map_option_case split: option.splits prod.splits)

lemma feed_all_aligned:
  assumes "aligned bs" "r @ concat ds = concat bs" "length r < 188"
  shows "feed_all h p r n ds =
    map_option (\<lambda>(p, out). (p, [], n + length bs, out)) (run_packets h p bs)"
  using assms
proof (induction ds arbitrary: r bs p n)
  case Nil
  then have "bs = []"
    by (cases bs) (auto simp: aligned_def)
  with Nil show ?case by simp
next
  case (Cons d ds)
  obtain k r' where k: "r @ d = concat (take k bs) @ r'" "length r' < 188"
      "r' @ concat ds = concat (drop k bs)"
    using aligned_split [of bs "r @ d" "concat ds"] Cons.prems by auto
  have a: "aligned (take k bs)" "aligned (drop k bs)"
    using Cons.prems(1) by (auto simp: aligned_def dest: in_set_takeD in_set_dropD)
  have IH: "feed_all h q r' m ds =
      map_option (\<lambda>(p, out). (p, [], m + length (drop k bs), out)) (run_packets h q (drop k bs))" for q m
    by (rule Cons.IH [OF a(2) k(3,2)])
  have len: "length (take k bs) + length (drop k bs) = length bs"
    by (metis append_take_drop_id length_append)
  have "feed_all h p r n (d # ds) =
    map_option (\<lambda>(p, out). (p, [], n + length bs, out)) (run_packets h p (take k bs @ drop k bs))"
    using feed_loop_aligned [OF a(1) k(2), of h p n] k(1) len
    unfolding run_packets_append
    by (auto simp: IH map_option_case split: option.splits prod.splits)
  then show ?case by simp
qed

lemma carries_aligned: "carries cc pid start payload bs \<Longrightarrow> aligned bs"
proof (induction bs arbitrary: cc start payload)
  case (Cons b bs)
  then show ?case
    by (fastforce simp: aligned_def parseTSPacket_def split: option.splits if_splits)
qed (simp add: aligned_def)

lemma aligned_append: "aligned (as @ bs) \<longleftrightarrow> aligned as \<and> aligned bs"
  by (auto simp: aligned_def)

lemma length_ptsBytes [byte_len, simp]: "length (ptsBytes pts pre) = 5"
  by (simp add: ptsBytes_def)

lemma length_buildPESHeader [byte_len]: "length (buildPESHeader sid es pts pts) = 14"
  by (simp add: buildPESHeader_def Let_def)

lemma parsePESHeader_build: "parsePESHeader (buildPESHeader sid es pts pts @ x) = Some x"
proof -
  have h: "buildPESHeader sid es pts pts ! 0 = 0" "buildPESHeader sid es pts pts ! Suc 0 = 0"
      "buildPESHeader sid es pts pts ! 2 = 1" "buildPESHeader sid es pts pts ! 8 = 5"
    by (simp_all add: buildPESHeader_def Let_def)
  show ?thesis
    by (simp add: parsePESHeader_def nth_append h byte_len)
qed

lemma run_continuation:
  "carries cc pid False payload bs \<Longrightarrow> pid \<noteq> 0 \<Longrightarrow> pid \<noteq> tp_pmtPID p \<Longrightarrow>
   run_packets h (with_pes p pid info b) bs = Some (with_pes p pid info (b @ payload), [])"
proof (induction bs arbitrary: cc payload b)
  case (Cons a bs)
  then obtain t where t: "parseTSPacket a = Some t" "tk_pid t = pid" "\<not> tk_payloadUnitStart t"
      "\<not> tk_transportError t" "tk_payload t \<noteq> []"
      "take (length (tk_payload t)) payload = tk_payload t"
      "carries ((cc + 1) AND 0x0F) pid False (drop (length (tk_payload t)) payload) bs"
    by (auto split: option.splits)
  have "processTSPacket h (with_pes p pid info b) t = Some (with_pes p pid info (b @ tk_payload t), [])"
    using t Cons.prems by (simp add: processTSPacket_def processPES_def with_pes_def)
  moreover have "tk_payload t @ drop (length (tk_payload t)) payload = payload"
    using t(6) by (metis append_take_drop_id)
  ultimately show ?case
    using t Cons.IH [OF t(7) Cons.prems(2,3), of "b @ tk_payload t"] by simp
qed simp

lemma run_PES:
  assumes c: "carries cc pid True (buildPESHeader sid es pts pts @ payload) bs"
    and pid: "pid \<noteq> 0" "pid \<noteq> tp_pmtPID p" and info: "tp_streams p pid = Some info"
  shows "run_packets h p bs =
    Some (with_pes p pid (info\<lparr>si_hasPayload := True\<rparr>) payload, flushPES h info)"
proof -
  let ?h = "buildPESHeader sid es pts pts"
  obtain a bs' where bs: "bs = a # bs'" using c by (cases bs) (auto simp: buildPESHeader_def Let_def)
  with c obtain t where t: "parseTSPacket a = Some t" "tk_pid t = pid" "tk_payloadUnitStart t"
      "\<not> tk_transportError t" "tk_payload t \<noteq> []"
      and n: "min 176 (length (?h @ payload)) \<le> length (tk_payload t)"
      and tk: "take (length (tk_payload t)) (?h @ payload) = tk_payload t"
      and rest: "carries ((cc + 1) AND 0x0F) pid False (drop (length (tk_payload t)) (?h @ payload)) bs'"
    by (auto split: option.splits)
  have n14: "14 \<le> length (tk_payload t)" using n by (simp add: byte_len)
  define x where "x = take (length (tk_payload t) - 14) payload"
  have x: "tk_payload t = ?h @ x"
    using tk n14 by (simp add: x_def byte_len)
  have d: "x @ drop (length (tk_payload t)) (?h @ payload) = payload"
    using n14 by (simp add: x_def byte_len)
  have sw: "info\<lparr>si_pesBuffer := x, si_hasPayload := True\<rparr> = info\<lparr>si_hasPayload := True, si_pesBuffer := x\<rparr>"
    by (cases info) simp
  have "processTSPacket h p t = Some (with_pes p pid (info\<lparr>si_hasPayload := True\<rparr>) x, flushPES h info)"
    using t(1-5) pid info parsePESHeader_build [of sid es pts x]
    by (simp add: processTSPacket_def processPES_def with_pes_def x flushPES_def Let_def sw)
  then show ?thesis
    using t run_continuation [OF rest pid, of h "info\<lparr>si_hasPayload := True\<rparr>" x] d
    unfolding bs by simp
qed

section \<open>Program tables of the muxer\<close>

lemma finishSection_eq:
  "finishSection (a # b # c # s) =
     (let l = length s + 4; s = a # (0xB0 OR of_nat (l div 256 mod 16)) # of_nat (l mod 256) # s in
      s @ be32 (crc32MPEG2 s))"
  by (simp add: finishSection_def Let_def numeral_2_eq_2)

lemma pidBytes_default:
  "pidBytes 0x1000 = [0xF0, 0]" "pidBytes 0x100 = [0xE1, 0]" "pidBytes 0x101 = [0xE1, 1]"
  by (simp_all add: pidBytes_def)

lemma PAT_section:
  assumes "default_pids m"
  shows "\<exists>crc. [0x00] @ buildPATSection m =
     [0, 0, 0xB0, 13, 0, 1, 0xC1, 0, 0, 0, 1, 0xF0, 0] @ be32 crc"
proof -
  have "buildPATSection m = finishSection [0, 0, 0, 0, 1, 0xC1, 0, 0, 0, 1, 0xF0, 0]"
    using assms by (simp add: buildPATSection_def default_pids_def pidBytes_default)
  then show ?thesis by (auto simp: finishSection_eq Let_def)
qed

lemma PMT_section:
  assumes "default_pids m"
  shows "\<exists>crc. [0x00] @ buildPMTSection m =
     [0, 2, 0xB0, 23, 0, 1, 0xC1, 0, 0, 0xE1, 0, 0xF0, 0,
      0x1B, 0xE1, 0, 0xF0, 0, 0x0F, 0xE1, 1, 0xF0, 0] @ be32 crc"
proof -
  have "buildPMTSection m = finishSection [2, 0, 0, 0, 1, 0xC1, 0, 0, 0xE1, 0, 0xF0, 0,
      0x1B, 0xE1, 0, 0xF0, 0, 0x0F, 0xE1, 1, 0xF0, 0]"
    using assms by (simp add: buildPMTSection_def default_pids_def pidBytes_default)
  then show ?thesis by (auto simp: finishSection_eq Let_def)
qed

lemma parsePAT_mux:
  assumes "default_pids m" "tk_payloadUnitStart t" "tk_payload t = [0x00] @ buildPATSection m"
  shows "parsePAT p t = Some (p\<lparr>tp_pmtPID := 0x1000\<rparr>)"
proof -
  obtain crc where "[0x00] @ buildPATSection m =
     [0, 0, 0xB0, 13, 0, 1, 0xC1, 0, 0, 0, 1, 0xF0, 0] @ be32 crc"
    using PAT_section [OF assms(1)] by blast
  then have t: "tk_payload t = [0, 0, 0xB0, 13, 0, 1, 0xC1, 0, 0, 0, 1, 0xF0, 0] @ be32 crc"
    using assms(3) by simp
  have len: "unat (u16_at (drop 1 (tk_payload t)) 1 AND 0x0FFF) = 13"
    unfolding t by (simp add: u16_at_def join16_def)
  have body: "go_slice 8 12 (drop 1 (tk_payload t)) = Some [0, 1, 0xF0, 0]"
    unfolding t by (simp add: go_slice_def)
  have pat: "patEntries [0, 1, 0xF0, 0] 0 q = 0x1000" for q
    by (simp add: patEntries.simps u16_at_def join16_def Let_def)
  show ?thesis
    using assms(2) len body pat unfolding parsePAT_def Let_def by (simp add: t)
qed

lemma parsePMT_mux:
  assumes "default_pids m" "tk_payloadUnitStart t" "tk_payload t = [0x00] @ buildPMTSection m"
  shows "parsePMT p t = Some (registerStream (registerStream p 0x1B 0x100) 0x0F 0x101)"
proof -
  obtain crc where "[0x00] @ buildPMTSection m =
     [0, 2, 0xB0, 23, 0, 1, 0xC1, 0, 0, 0xE1, 0, 0xF0, 0,
      0x1B, 0xE1, 0, 0xF0, 0, 0x0F, 0xE1, 1, 0xF0, 0] @ be32 crc"
    using PMT_section [OF assms(1)] by blast
  then have t: "tk_payload t = [0, 2, 0xB0, 23, 0, 1, 0xC1, 0, 0, 0xE1, 0, 0xF0, 0,
      0x1B, 0xE1, 0, 0xF0, 0, 0x0F, 0xE1, 1, 0xF0, 0] @ be32 crc"
    using assms(3) by simp
  have len: "unat (u16_at (drop 1 (tk_payload t)) 1 AND 0x0FFF) = 23"
    "unat (u16_at (drop 1 (tk_payload t)) 10 AND 0x0FFF) = 0"
    unfolding t by (simp_all add: u16_at_def join16_def)
  have body: "go_slice 12 22 (drop 1 (tk_payload t)) = Some [0x1B, 0xE1, 0, 0xF0, 0, 0x0F, 0xE1, 1, 0xF0, 0]"
    unfolding t by (simp add: go_slice_def)
  have pmt: "pmtEntries [0x1B, 0xE1, 0, 0xF0, 0, 0x0F, 0xE1, 1, 0xF0, 0] 0 q =
      registerStream (registerStream q 0x1B 0x100) 0x0F 0x101" for q
    by (simp add: pmtEntries.simps u16_at_def join16_def Let_def)
  show ?thesis
    using assms(2) len body pmt unfolding parsePMT_def Let_def by (simp add: t)
qed

section \<open>Muxing and demuxing frames\<close>

lemma splitNALUnits_Nil [simp]: "splitNALUnits [] = []"
  by (simp add: splitNALUnits_def splitNAL_loop.simps)

lemma carries_Nil: "carries cc pid start [] bs \<Longrightarrow> bs = []"
  by (cases bs) (auto split: option.splits)

lemma carries_single:
  assumes "carries cc pid start payload bs" "payload \<noteq> []" "length payload \<le> 176"
  obtains b t where "bs = [b]" "parseTSPacket b = Some t" "tk_pid t = pid"
    "tk_payloadUnitStart t = start" "\<not> tk_transportError t" "tk_payload t = payload"
proof -
  obtain b bs' where bs: "bs = b # bs'" using assms(1,2) by (cases bs) auto
  with assms(1) obtain t where t: "parseTSPacket b = Some t" "tk_pid t = pid"
    "tk_payloadUnitStart t = start" "\<not> tk_transportError t"
    "min 176 (length payload) \<le> length (tk_payload t)"
    "take (length (tk_payload t)) payload = tk_payload t"
    "carries ((cc + 1) AND 0x0F) pid False (drop (length (tk_payload t)) payload) bs'"
    by (auto split: option.splits)
  from t(5,6) assms(3) have "tk_payload t = payload" by simp
  with t(7) have "bs' = []" by (intro carries_Nil) simp
  with bs t \<open>tk_payload t = payload\<close> show thesis by (intro that) auto
qed

lemma run_table:
  assumes s: "payload \<noteq> []" "length payload \<le> 176" and pid: "pid < 0x2000"
    and step: "\<And>t. tk_pid t = pid \<Longrightarrow> tk_payloadUnitStart t \<Longrightarrow> tk_payload t = payload \<Longrightarrow>
                 processTSPacket h p t = Some (q, [])"
  obtains pkts c where "stuffTS m pid True payload False 0 = Some (concat pkts, m\<lparr>mx_cc := (mx_cc m)(pid := c)\<rparr>)"
    "aligned pkts" "run_packets h p pkts = Some (q, [])"
proof -
  from stuffTS_packets [OF s(1) pid, of m False 0] obtain pkts c where
    c: "stuffTS m pid True payload False 0 = Some (concat pkts, m\<lparr>mx_cc := (mx_cc m)(pid := c)\<rparr>)"
      "carries (mx_cc m pid AND 0x0F) pid True payload pkts" by blast
  from carries_single [OF c(2) s] obtain b t where
    t: "pkts = [b]" "parseTSPacket b = Some t" "tk_pid t = pid" "tk_payloadUnitStart t"
      "\<not> tk_transportError t" "tk_payload t = payload" by metis
  have "run_packets h p pkts = Some (q, [])" using t s step [of t] by simp
  then show thesis using that c carries_aligned by blast
qed

lemma length_PAT: "default_pids m \<Longrightarrow> length ([0x00] @ buildPATSection m) = 17"
  using PAT_section [of m] by auto

lemma length_PMT: "default_pids m \<Longrightarrow> length ([0x00] @ buildPMTSection m) = 27"
  using PMT_section [of m] by auto

lemma register_fresh:
  "tracks (registerStream (registerStream (newTSParser\<lparr>tp_pmtPID := 0x1000\<rparr>) 0x1B 0x100) 0x0F 0x101) [] []"
  by (auto simp: tracks_def registerStream_def codecFromStreamType_def newTSParser_def Let_def media_consts)

lemma register_known:
  "tracks p v a \<Longrightarrow> tracks (registerStream (registerStream (p\<lparr>tp_pmtPID := 0x1000\<rparr>) 0x1B 0x100) 0x0F 0x101) v a"
  by (auto simp: tracks_def registerStream_def codecFromStreamType_def Let_def media_consts)

lemma mux_tables:
  assumes m: "default_pids m" and p: "p = newTSParser \<and> v = [] \<and> a = [] \<or> tracks p v a"
  obtains pat pmt m1 m2 q where "MuxPAT m = Some (concat pat, m1)" "MuxPMT m1 = Some (concat pmt, m2)"
    "default_pids m1" "default_pids m2" "aligned pat" "aligned pmt"
    "run_packets h p (pat @ pmt) = Some (q, [])" "tracks q v a"
proof -
  let ?p1 = "p\<lparr>tp_pmtPID := 0x1000\<rparr>"
  let ?q = "registerStream (registerStream ?p1 0x1B 0x100) 0x0F 0x101"
  have l: "[0x00] @ buildPATSection m \<noteq> []" "length ([0x00] @ buildPATSection m) \<le> 176" "(0 :: u16) < 0x2000"
    using length_PAT [OF m] by simp_all
  obtain pat c where pat: "stuffTS m 0 True ([0x00] @ buildPATSection m) False 0 =
      Some (concat pat, m\<lparr>mx_cc := (mx_cc m)(0 := c)\<rparr>)" "aligned pat" "run_packets h p pat = Some (?p1, [])"
    by (rule run_table [OF l, of h p ?p1 m]) (use parsePAT_mux [OF m] in \<open>auto simp: processTSPacket_def\<close>)
  let ?m1 = "m\<lparr>mx_cc := (mx_cc m)(0 := c)\<rparr>"
  have m1: "default_pids ?m1" using m by (simp add: default_pids_def)
  have l: "[0x00] @ buildPMTSection ?m1 \<noteq> []" "length ([0x00] @ buildPMTSection ?m1) \<le> 176" "(0x1000 :: u16) < 0x2000"
    using length_PMT [OF m1] by simp_all
  obtain pmt d where pmt: "stuffTS ?m1 0x1000 True ([0x00] @ buildPMTSection ?m1) False 0 =
      Some (concat pmt, ?m1\<lparr>mx_cc := (mx_cc ?m1)(0x1000 := d)\<rparr>)" "aligned pmt"
      "run_packets h ?p1 pmt = Some (?q, [])"
    by (rule run_table [OF l, of h ?p1 ?q ?m1]) (use parsePMT_mux [OF m1] in \<open>auto simp: processTSPacket_def\<close>)
  have "tracks ?q v a" using p register_fresh register_known by blast
  moreover have "run_packets h p (pat @ pmt) = Some (?q, [])"
    using pat(3) pmt(3) by (simp add: run_packets_append)
  moreover have "MuxPAT m = Some (concat pat, ?m1)"
    using pat(1) by (simp add: MuxPAT_def tsPATPID_def)
  moreover have "MuxPMT ?m1 = Some (concat pmt, ?m1\<lparr>mx_cc := (mx_cc ?m1)(0x1000 := d)\<rparr>)"
    using pmt(1) m by (simp add: MuxPMT_def default_pids_def)
  moreover have "default_pids (?m1\<lparr>mx_cc := (mx_cc ?m1)(0x1000 := d)\<rparr>)" using m by (simp add: default_pids_def)
  ultimately show thesis using that pat(2) pmt(2) m1 by blast
qed

lemma mux_PES:
  assumes pid: "pid < 0x2000" "pid \<noteq> 0" "pid \<noteq> tp_pmtPID p" and info: "tp_streams p pid = Some info"
  obtains pkts c where "MuxPES m pid sid payload pts pts key = Some (concat pkts, m\<lparr>mx_cc := (mx_cc m)(pid := c)\<rparr>)"
    "aligned pkts" "run_packets h p pkts =
      Some (with_pes p pid (info\<lparr>si_hasPayload := True\<rparr>) payload, flushPES h info)"
proof -
  let ?d = "buildPESHeader sid payload pts pts @ payload"
  have "?d \<noteq> []" by (simp add: buildPESHeader_def Let_def)
  from stuffTS_packets [OF this pid(1), of m key "if key then pts * 300 else 0"] obtain pkts c where
    c: "stuffTS m pid True ?d key (if key then pts * 300 else 0) =
          Some (concat pkts, m\<lparr>mx_cc := (mx_cc m)(pid := c)\<rparr>)"
      "carries (mx_cc m pid AND 0x0F) pid True ?d pkts" by blast
  have "MuxPES m pid sid payload pts pts key = Some (concat pkts, m\<lparr>mx_cc := (mx_cc m)(pid := c)\<rparr>)"
    using c(1) by (cases key) (simp_all add: MuxPES_def)
  then show thesis using that run_PES [OF c(2) pid(2,3) info] carries_aligned [OF c(2)] by blast
qed

lemma flush_video:
  "flushPES True \<lparr>si_pid = 0x100, si_streamType = 0x1B, si_codec = CodecH264, si_kind = TrackVideo,
     si_pesBuffer = v, si_hasPayload = hv\<rparr> = video_out v"
  by (simp add: flushPES_def video_out_def media_consts)

lemma flush_audio:
  "flushPES True \<lparr>si_pid = 0x101, si_streamType = 0x0F, si_codec = CodecAAC, si_kind = TrackAudio,
     si_pesBuffer = a, si_hasPayload = ha\<rparr> = audio_out a"
  by (simp add: flushPES_def audio_out_def media_consts)

lemma mux_video:
  assumes m: "default_pids m" and p: "tracks p v a"
  obtains pkts m' q where "MuxPES m (mx_videoPID m) 0xE0 payload pts pts key = Some (concat pkts, m')"
    "default_pids m'" "aligned pkts" "run_packets True p pkts = Some (q, video_out v)" "tracks q payload a"
proof -
  obtain hv where i: "tp_streams p 0x100 = Some \<lparr>si_pid = 0x100, si_streamType = 0x1B, si_codec = CodecH264,
        si_kind = TrackVideo, si_pesBuffer = v, si_hasPayload = hv\<rparr>"
    using p by (auto simp: tracks_def)
  have pid: "(0x100 :: u16) < 0x2000" "(0x100 :: u16) \<noteq> 0" "0x100 \<noteq> tp_pmtPID p"
    using p by (auto simp: tracks_def)
  obtain pkts c where "MuxPES m 0x100 0xE0 payload pts pts key = Some (concat pkts, m\<lparr>mx_cc := (mx_cc m)(0x100 := c)\<rparr>)"
    "aligned pkts" "run_packets True p pkts = Some (with_pes p 0x100 \<lparr>si_pid = 0x100, si_streamType = 0x1B,
       si_codec = CodecH264, si_kind = TrackVideo, si_pesBuffer = v, si_hasPayload = True\<rparr> payload, video_out v)"
    using mux_PES [OF pid i, where m = m and sid = "0xE0" and payload = payload and pts = pts and key = key and h = True] unfolding flush_video by (auto intro: that)
  moreover have "default_pids (m\<lparr>mx_cc := (mx_cc m)(0x100 := c)\<rparr>)" using m by (simp add: default_pids_def)
  moreover have "tracks (with_pes p 0x100 \<lparr>si_pid = 0x100, si_streamType = 0x1B,
       si_codec = CodecH264, si_kind = TrackVideo, si_pesBuffer = v, si_hasPayload = True\<rparr> payload) payload a"
    using p by (auto simp: tracks_def with_pes_def)
  ultimately show thesis using that m by (auto simp: default_pids_def)
qed

lemma mux_audio:
  assumes m: "default_pids m" and p: "tracks p v a"
  obtains pkts m' q where "MuxPES m (mx_audioPID m) 0xC0 payload pts pts key = Some (concat pkts, m')"
    "default_pids m'" "aligned pkts" "run_packets True p pkts = Some (q, audio_out a)" "tracks q v payload"
proof -
  obtain ha where i: "tp_streams p 0x101 = Some \<lparr>si_pid = 0x101, si_streamType = 0x0F, si_codec = CodecAAC,
        si_kind = TrackAudio, si_pesBuffer = a, si_hasPayload = ha\<rparr>"
    using p by (auto simp: tracks_def)
  have pid: "(0x101 :: u16) < 0x2000" "(0x101 :: u16) \<noteq> 0" "0x101 \<noteq> tp_pmtPID p"
    using p by (auto simp: tracks_def)
  obtain pkts c where "MuxPES m 0x101 0xC0 payload pts pts key = Some (concat pkts, m\<lparr>mx_cc := (mx_cc m)(0x101 := c)\<rparr>)"
    "aligned pkts" "run_packets True p pkts = Some (with_pes p 0x101 \<lparr>si_pid = 0x101, si_streamType = 0x0F,
       si_codec = CodecAAC, si_kind = TrackAudio, si_pesBuffer = a, si_hasPayload = True\<rparr> payload, audio_out a)"
    using mux_PES [OF pid i, where m = m and sid = "0xC0" and payload = payload and pts = pts and key = key and h = True] unfolding flush_audio by (auto intro: that)
  moreover have "default_pids (m\<lparr>mx_cc := (mx_cc m)(0x101 := c)\<rparr>)" using m by (simp add: default_pids_def)
  moreover have "tracks (with_pes p 0x101 \<lparr>si_pid = 0x101, si_streamType = 0x0F,
       si_codec = CodecAAC, si_kind = TrackAudio, si_pesBuffer = a, si_hasPayload = True\<rparr> payload) v payload"
    using p by (auto simp: tracks_def with_pes_def)
  ultimately show thesis using that m by (auto simp: default_pids_def)
qed

lemma mux_frame_known:
  assumes m: "default_pids m" and p: "tracks p v a"
    and key: "\<not> (fr_Type f = FrameVideo \<and> fr_Marker f)" and ty: "fr_Type f = FrameVideo \<or> fr_Type f = FrameAudio"
  obtains pkts m' q where "MuxFrame m f = Some (concat pkts, m')" "default_pids m'" "aligned pkts"
    "run_packets True p pkts = Some (q, if fr_Type f = FrameVideo then video_out v else audio_out a)"
    "if fr_Type f = FrameVideo then tracks q (fr_Payload f) a else tracks q v (fr_Payload f)"
proof (cases "fr_Type f = FrameVideo")
  case True
  obtain pkts m' q where "MuxPES m (mx_videoPID m) 0xE0 (fr_Payload f) (framePTS f) (framePTS f) (fr_Marker f) = Some (concat pkts, m')"
    "default_pids m'" "aligned pkts" "run_packets True p pkts = Some (q, video_out v)" "tracks q (fr_Payload f) a"
    by (rule mux_video [OF m p]) (rule that)
  with True key show thesis by (intro that) (auto simp: MuxFrame_def Let_def media_consts)
next
  case False
  obtain pkts m' q where "MuxPES m (mx_audioPID m) 0xC0 (fr_Payload f) (framePTS f) (framePTS f) (fr_Marker f) = Some (concat pkts, m')"
    "default_pids m'" "aligned pkts" "run_packets True p pkts = Some (q, audio_out a)" "tracks q v (fr_Payload f)"
    by (rule mux_audio [OF m p]) (rule that)
  with False ty key show thesis by (intro that) (auto simp: MuxFrame_def Let_def media_consts)
qed

lemma mux_frame_key:
  assumes m: "default_pids m" and p: "p = newTSParser \<and> v = [] \<and> a = [] \<or> tracks p v a"
    and key: "fr_Type f = FrameVideo" "fr_Marker f"
  obtains pkts m' q where "MuxFrame m f = Some (concat pkts, m')" "default_pids m'" "aligned pkts"
    "run_packets True p pkts = Some (q, video_out v)" "tracks q (fr_Payload f) a"
proof -
  obtain pat pmt m1 m2 r where t: "MuxPAT m = Some (concat pat, m1)" "MuxPMT m1 = Some (concat pmt, m2)"
    "default_pids m1" "default_pids m2" "aligned pat" "aligned pmt"
    "run_packets True p (pat @ pmt) = Some (r, [])" "tracks r v a"
    by (rule mux_tables [OF m p]) (rule that)
  let ?m = "m2\<lparr>mx_patSent := True\<rparr>"
  have m3: "default_pids ?m" using t(4) by (simp add: default_pids_def)
  obtain pkts m' q where v: "MuxPES ?m (mx_videoPID ?m) 0xE0 (fr_Payload f) (framePTS f) (framePTS f) True = Some (concat pkts, m')"
    "default_pids m'" "aligned pkts" "run_packets True r pkts = Some (q, video_out v)" "tracks q (fr_Payload f) a"
    by (rule mux_video [OF m3 t(8)]) (rule that)
  have "MuxFrame m f = Some (concat ((pat @ pmt) @ pkts), m')"
    using key t(1,2) v(1) by (simp add: MuxFrame_def Let_def media_consts)
  moreover have "run_packets True p ((pat @ pmt) @ pkts) = Some (q, video_out v)"
    using run_packets_append [of True p "pat @ pmt" pkts] t(7) v(4) by simp
  moreover have "aligned ((pat @ pmt) @ pkts)" using t(5,6) v(3) by (simp add: aligned_append)
  ultimately show thesis using that v(2,5) by blast
qed

lemma mux_all_known:
  "default_pids m \<Longrightarrow> tracks p v a \<Longrightarrow> list_all (\<lambda>f. fr_Type f = FrameVideo \<or> fr_Type f = FrameAudio) fs \<Longrightarrow>
   \<exists>pkts q. mux_all m fs = Some (concat pkts) \<and> aligned pkts \<and> run_packets True p pkts = Some (q, deliver v a fs)"
proof (induction fs arbitrary: m p v a)
  case Nil
  then show ?case by (intro exI [of _ "[]"]) (simp add: aligned_def)
next
  case (Cons f fs)
  have ty: "fr_Type f = FrameVideo \<or> fr_Type f = FrameAudio" using Cons.prems by simp
  obtain pkts m' q where f: "MuxFrame m f = Some (concat pkts, m')" "default_pids m'" "aligned pkts"
    "run_packets True p pkts = Some (q, if fr_Type f = FrameVideo then video_out v else audio_out a)"
    "if fr_Type f = FrameVideo then tracks q (fr_Payload f) a else tracks q v (fr_Payload f)"
  proof (cases "fr_Type f = FrameVideo \<and> fr_Marker f")
    case True
    then have k: "fr_Type f = FrameVideo" "fr_Marker f" by simp_all
    show thesis
      by (rule mux_frame_key [OF Cons.prems(1) disjI2 [OF Cons.prems(2)] k], rule that) (simp_all add: k)
  next
    case False
    show thesis by (rule mux_frame_known [OF Cons.prems(1,2) False ty]) (rule that)
  qed
  obtain pkts' q' where "mux_all m' fs = Some (concat pkts')" "aligned pkts'"
    "run_packets True q pkts' = Some (q', if fr_Type f = FrameVideo then deliver (fr_Payload f) a fs else deliver v (fr_Payload f) fs)"
    using Cons.IH [OF f(2), of q "fr_Payload f" a] Cons.IH [OF f(2), of q v "fr_Payload f"] f(5) Cons.prems(3)
    by (cases "fr_Type f = FrameVideo") auto
  with f show ?case
    by (intro exI [of _ "pkts @ pkts'"]) (auto simp: aligned_append run_packets_append)
qed



text \<open>
  C30. A PAT makes the receiver panic exactly when it starts a unit, its section fits in the
  packet and announces fewer than nine bytes: the slice that skips the eight header bytes and
  the checksum then has its bounds crossed.
\<close>

theorem parsePAT_panics_iff:
  "parsePAT p pkt = None \<longleftrightarrow>
     tk_payloadUnitStart pkt \<and> tk_payload pkt \<noteq> [] \<and>
     1 + unat (tk_payload pkt ! 0) + 8 \<le> length (tk_payload pkt) \<and>
     (let sec = drop (1 + unat (tk_payload pkt ! 0)) (tk_payload pkt);
          sectionLen = unat (u16_at sec 1 AND 0x0FFF) in
      3 + sectionLen \<le> length sec \<and> sectionLen < 9)"
proof -
  define k where "k = unat (tk_payload pkt ! 0)"
  define sec where "sec = drop (1 + k) (tk_payload pkt)"
  define l where "l = unat (u16_at sec 1 AND 0x0FFF)"
  show ?thesis
    unfolding parsePAT_def Let_def k_def [symmetric] sec_def [symmetric] l_def [symmetric]
    by (auto simp: go_slice_def)
qed

lemma find_sync_bound: "find_sync buf i = Some k \<Longrightarrow> k + 188 \<le> length buf"
  by (induction buf i rule: find_sync.induct) (subst (asm) (2) find_sync.simps, auto split: if_splits)

text \<open>
  The receive buffer stays bounded: whatever bytes arrive, if feeding them does not panic
  fewer than one packet of bytes is kept.
\<close>

lemma feed_loop_bounded:
  assumes "feed_loop h p buf n = Some (p', rest, n', out)"
  shows "length rest < 188"
  using assms
proof (induction h p buf n arbitrary: p' rest n' out rule: feed_loop.induct)
  case (1 h p buf n)
  show ?case
  proof (cases "188 \<le> length buf")
    case True
    show ?thesis
    proof (cases "find_sync buf 0")
      case None
      with True 1(4) show ?thesis by (subst (asm) feed_loop.simps) auto
    next
      case (Some k)
      let ?b = "drop k buf"
      have b: "\<not> length ?b < 188" using find_sync_bound [OF Some] by auto
      note IH = 1(1-3) [OF True Some refl b]
      show ?thesis
        using True Some b 1(4) IH unfolding feed_loop.simps [of h p buf n]
        by (auto simp: Let_def split: option.splits if_splits)
    qed
  next
    case False
    with 1(4) show ?thesis by (subst (asm) feed_loop.simps) auto
  qed
qed

section \<open>Splitting NAL units\<close>

lemma splitNAL_step:
  "splitNAL_loop d i st =
     (let closed = (case st of None \<Rightarrow> [] | Some s \<Rightarrow> [take (i - s) (drop s d)]) in
      if i < length d then
        if code3 d i then closed @ splitNAL_loop d (i + 3) (Some (i + 3))
        else if code4 d i then closed @ splitNAL_loop d (i + 4) (Some (i + 4))
        else splitNAL_loop d (i + 1) st
      else (case st of None \<Rightarrow> [] | Some s \<Rightarrow> if s < length d then [drop s d] else []))"
  by (subst splitNAL_loop.simps) (simp only: code3_def code4_def Let_def)

lemma splitNAL_skip:
  assumes "\<And>k. i \<le> k \<Longrightarrow> k < j \<Longrightarrow> \<not> code3 d k \<and> \<not> code4 d k" "i \<le> j" "j \<le> length d"
  shows "splitNAL_loop d i st = splitNAL_loop d j st"
  using assms
proof (induction "j - i" arbitrary: i)
  case (Suc m)
  have "i < j" using Suc.hyps(2) by simp
  then have c: "\<not> code3 d i" "\<not> code4 d i" "i < length d"
    using Suc.prems(1) [of i] Suc.prems(3) by simp_all
  have "splitNAL_loop d i st = splitNAL_loop d (i + 1) st"
    by (subst splitNAL_step) (simp add: Let_def c)
  moreover have "splitNAL_loop d (i + 1) st = splitNAL_loop d j st"
  proof (rule Suc.hyps(1))
    show "\<not> code3 d k \<and> \<not> code4 d k" if "i + 1 \<le> k" "k < j" for k
      using Suc.prems(1) [of k] that by simp
  qed (use \<open>i < j\<close> Suc.hyps(2) Suc.prems(3) in simp_all)
  ultimately show ?case by simp
qed simp

lemma splitNAL_unit:
  assumes "nal_ok n"
  shows "splitNAL_loop (p @ n @ q) (length p) st = splitNAL_loop (p @ n @ q) (length p + length n) st"
  using no_code3_in_unit [OF assms] no_code4_in_unit [OF assms]
  by (intro splitNAL_skip) auto

lemma splitNAL_code:
  assumes "sc = [0, 0, 1] \<or> sc = [0, 0, 0, 1]"
  shows "splitNAL_loop (p @ sc @ r) (length p) st =
    (case st of None \<Rightarrow> [] | Some s \<Rightarrow> [take (length p - s) (drop s (p @ sc @ r))]) @
    splitNAL_loop (p @ sc @ r) (length p + length sc) (Some (length p + length sc))"
proof -
  consider "length sc = 3" "code3 (p @ sc @ r) (length p)"
    | "length sc = 4" "code4 (p @ sc @ r) (length p)" "\<not> code3 (p @ sc @ r) (length p)"
    using assms code3_at_start [of p r] code4_at_start [of p r] by fastforce
  then show ?thesis by cases (subst splitNAL_step, simp add: Let_def)+
qed

text \<open>Either kind of start code closes the open unit and opens the next.\<close>

lemma splitNAL_units:
  assumes "sc = [0, 0, 1] \<or> sc = [0, 0, 0, 1]"
  shows "list_all nal_ok ns \<Longrightarrow> s < length p \<Longrightarrow>
   splitNAL_loop (p @ concat (map (\<lambda>n. sc @ n) ns)) (length p) (Some s) = drop s p # ns"
proof (induction ns arbitrary: p s)
  case Nil
  then show ?case by (subst splitNAL_step) (simp add: Let_def)
next
  case (Cons n ns)
  let ?r = "concat (map (\<lambda>n. sc @ n) ns)" and ?k = "length p + length sc"
  let ?d = "p @ sc @ n @ ?r"
  have n: "nal_ok n" "n \<noteq> []" using Cons.prems by (auto simp: nal_ok_def)
  have "splitNAL_loop ?d (length p) (Some s) = drop s p # splitNAL_loop ?d ?k (Some ?k)"
    using splitNAL_code [OF assms, of p "n @ ?r" "Some s"] Cons.prems by simp
  also have "splitNAL_loop ?d ?k (Some ?k) = splitNAL_loop ?d (?k + length n) (Some ?k)"
    using splitNAL_unit [OF n(1), of "p @ sc" ?r "Some ?k"] by simp
  also have "\<dots> = n # ns"
    using Cons.IH [of ?k "p @ sc @ n"] Cons.prems n(2) by (simp add: add.assoc)
  finally show ?case by simp
qed

lemma splitNALUnits_coded:
  assumes sc: "sc = [0, 0, 1] \<or> sc = [0, 0, 0, 1]" and ns: "list_all nal_ok ns"
  shows "splitNALUnits (concat (map (\<lambda>n. sc @ n) ns)) = ns"
proof (cases ns)
  case (Cons n ms)
  let ?r = "concat (map (\<lambda>n. sc @ n) ms)" and ?k = "length sc"
  let ?d = "sc @ n @ ?r"
  have n: "nal_ok n" "n \<noteq> []" "list_all nal_ok ms" using ns Cons by (auto simp: nal_ok_def)
  have "splitNAL_loop ?d 0 None = splitNAL_loop ?d ?k (Some ?k)"
    using splitNAL_code [OF sc, of "[]" "n @ ?r" None] by simp
  also have "\<dots> = splitNAL_loop ?d (?k + length n) (Some ?k)"
    using splitNAL_unit [OF n(1), of sc ?r "Some ?k"] by simp
  also have "\<dots> = n # ms"
    using splitNAL_units [OF sc n(3), of ?k "sc @ n"] n(2) by simp
  finally show ?thesis by (simp add: splitNALUnits_def Cons)
qed simp

interpretation srt_split: nal_splitter splitNALUnits
  by unfold_locales (unfold annexB_def, rule splitNALUnits_coded, simp_all)

end
