(* ===== verification/SrtSessions.thy ===== *)
theory SrtSessions
  imports SrtPacket TSDemux
begin

text \<open>
  The SRT server and its sessions (\<open>pkg/protocol/srt/server.go\<close>, \<open>session.go\<close>). Sessions are
  objects that three maps point to, so the server state holds them in a list and the maps hold
  positions in it. Every handler returns what it sends and reports, in order, with the new server.
  Clock readings and the session id that \<open>uuid.NewString\<close> draws are arguments. The fields
  \<open>playing\<close>, \<open>tsBuffer\<close> and \<open>tsPackets\<close>, which nothing uses, are left out, and the socket is
  there: \<open>sendTo\<close> succeeds or its error is only logged.
\<close>

section \<open>State\<close>

record SrtSession =
  ss_id :: string
  ss_socketID :: u32
  ss_peerAddr :: string
  ss_peerSockID :: u32
  ss_streamID :: bytes
  ss_closed :: bool
  ss_createdAt :: int
  ss_lastActive :: int
  ss_tsParser :: tsParser
  ss_bytesReceived :: u64
  ss_packetsReceived :: u64

record SrtServer =
  sv_heap :: "SrtSession list"
  sv_sessions :: "string \<rightharpoonup> nat"
  sv_addrMap :: "string \<rightharpoonup> nat"
  sv_sockMap :: "u32 \<rightharpoonup> nat"
  sv_nextSock :: u32

datatype SrtOut =
    SrtSend string bytes
  | SrtEvent ProtocolEvent
  | SrtFrame string string MediaFrame

type_synonym srt_result = "SrtOut list \<times> SrtServer"

definition SrtNewServer :: SrtServer where
  "SrtNewServer =
     \<lparr>sv_heap = [], sv_sessions = Map.empty, sv_addrMap = Map.empty, sv_sockMap = Map.empty,
      sv_nextSock = 1000\<rparr>"

section \<open>Sessions\<close>

definition srtNewSession :: "string \<Rightarrow> string \<Rightarrow> u32 \<Rightarrow> bytes \<Rightarrow> int \<Rightarrow> SrtSession" where
  "srtNewSession sid addr socketID streamID now =
     \<lparr>ss_id = sid, ss_socketID = socketID, ss_peerAddr = addr, ss_peerSockID = 0, ss_streamID = streamID,
      ss_closed = False, ss_createdAt = now, ss_lastActive = now, ss_tsParser = newTSParser,
      ss_bytesReceived = 0, ss_packetsReceived = 0\<rparr>"

definition SetPeerSocketID :: "u32 \<Rightarrow> SrtSession \<Rightarrow> SrtSession" where
  "SetPeerSocketID i se = se\<lparr>ss_peerSockID := i\<rparr>"

definition touch :: "int \<Rightarrow> SrtSession \<Rightarrow> SrtSession" where
  "touch now se = se\<lparr>ss_lastActive := now\<rparr>"

definition recordStats :: "nat \<Rightarrow> SrtSession \<Rightarrow> SrtSession" where
  "recordStats payloadLen se =
     se\<lparr>ss_packetsReceived := ss_packetsReceived se + 1,
        ss_bytesReceived := ss_bytesReceived se + of_nat payloadLen\<rparr>"

definition videoTrack :: "bytes \<Rightarrow> TrackInfo" where
  "videoTrack streamID =
     \<lparr>ti_ID = ''video'', ti_Kind = TrackVideo, ti_Direction = TrackRecv, ti_Codec = CodecH264,
      ti_SampleRate = 0, ti_Channels = 0, ti_SSRC = 0, ti_StreamID = streamID\<rparr>"

definition SrtTracks :: "SrtSession \<Rightarrow> TrackInfo list" where
  "SrtTracks se = [videoTrack (ss_streamID se)]"

definition SrtMediaStats :: "SrtSession \<Rightarrow> string \<rightharpoonup> TrackStats" where
  "SrtMediaStats se =
     [''video'' \<mapsto> \<lparr>ts_PacketsSent = 0, ts_PacketsReceived = ss_packetsReceived se, ts_PacketsLost = 0,
                   ts_BytesSent = 0, ts_BytesReceived = ss_bytesReceived se\<rparr>]"

text \<open>The object behind a pointer, and an update of it.\<close>

definition at_session :: "nat \<Rightarrow> (SrtSession \<Rightarrow> SrtSession) \<Rightarrow> SrtServer \<Rightarrow> SrtServer" where
  "at_session r f s = s\<lparr>sv_heap := (sv_heap s)[r := f (sv_heap s ! r)]\<rparr>"

definition srtClose :: "nat \<Rightarrow> SrtServer \<Rightarrow> srt_result" where
  "srtClose r s =
     (let se = sv_heap s ! r in
      if ss_closed se then ([], s)
      else ([SrtSend (ss_peerAddr se) (BuildShutdown (ss_peerSockID se))],
            at_session r (\<lambda>se. se\<lparr>ss_closed := True\<rparr>) s))"

definition SrtSendCommand :: "nat \<Rightarrow> ProtocolCommand \<Rightarrow> SrtServer \<Rightarrow> srt_result" where
  "SrtSendCommand r cmd s =
     (case cmd_Type cmd of CmdHangup \<Rightarrow> srtClose r s | _ \<Rightarrow> ([], s))"

section \<open>Session tables\<close>

definition SrtGetSession :: "SrtServer \<Rightarrow> string \<Rightarrow> nat option" where
  "SrtGetSession s sid = sv_sessions s sid"

definition sessionByAddr :: "SrtServer \<Rightarrow> string \<Rightarrow> nat option" where
  "sessionByAddr s addr = sv_addrMap s addr"

definition dropSession :: "nat \<Rightarrow> SrtServer \<Rightarrow> SrtServer" where
  "dropSession r s =
     (let se = sv_heap s ! r in
      s\<lparr>sv_sessions := (sv_sessions s)(ss_id se := None),
        sv_addrMap := (sv_addrMap s)(ss_peerAddr se := None),
        sv_sockMap := (sv_sockMap s)(ss_peerSockID se := None)\<rparr>)"

definition SrtCloseSession :: "string \<Rightarrow> SrtServer \<Rightarrow> srt_result" where
  "SrtCloseSession sid s =
     (case sv_sessions s sid of
        None \<Rightarrow> ([], s)
      | Some r \<Rightarrow>
          srtClose r (s\<lparr>sv_sessions := (sv_sessions s)(sid := None),
                        sv_addrMap := (sv_addrMap s)(ss_peerAddr (sv_heap s ! r) := None),
                        sv_sockMap := (sv_sockMap s)(ss_peerSockID (sv_heap s ! r) := None)\<rparr>))"

definition srt_event :: "EventType \<Rightarrow> string \<Rightarrow> ProtocolEvent" where
  "srt_event t sid =
     \<lparr>ev_Type = t, ev_Protocol = ''srt'', ev_SessionID = sid, ev_From = [], ev_To = [], ev_Track = None\<rparr>"

definition cleanupSession :: "nat \<Rightarrow> SrtServer \<Rightarrow> srt_result" where
  "cleanupSession r s =
     (case srtClose r (dropSession r s) of
        (out, s') \<Rightarrow> (out @ [SrtEvent (srt_event EventHangup (ss_id (sv_heap s ! r)))], s'))"

section \<open>Handshakes\<close>

definition hsVersionV5 :: u32 where "hsVersionV5 = 5"
definition hsMtuDefault :: u32 where "hsMtuDefault = 1500"
definition hsFlowDefault :: u32 where "hsFlowDefault = 8192"

definition handleInduction :: "HandshakePacket \<Rightarrow> string \<Rightarrow> int \<Rightarrow> SrtServer \<Rightarrow> srt_result" where
  "handleInduction hs addr now s =
     (let cookie = of_int (now AND 0xFFFFFFFF);
          resp = \<lparr>hs_Version = hsVersionV5, hs_Encryption = 0, hs_Extension = hs_Extension hs,
                  hs_InitSeqNum = hs_InitSeqNum hs, hs_MTU = hsMtuDefault, hs_MaxFlowWindow = hsFlowDefault,
                  hs_HandshakeType = HsInduction, hs_SocketID = 0, hs_SynCookie = cookie,
                  hs_PeerIP = hs_PeerIP hs, hs_StreamID = []\<rparr> in
      ([SrtSend addr (BuildHandshakeResponse resp 0)], s))"

definition handleConclusion :: "HandshakePacket \<Rightarrow> string \<Rightarrow> int \<Rightarrow> string \<Rightarrow> SrtServer \<Rightarrow> srt_result" where
  "handleConclusion hs addr now sid s =
     (let localSockID = sv_nextSock s + 1;
          session = SetPeerSocketID (hs_SocketID hs) (srtNewSession sid addr localSockID (hs_StreamID hs) now);
          r = length (sv_heap s);
          s = s\<lparr>sv_heap := sv_heap s @ [session], sv_nextSock := localSockID,
                sv_sessions := (sv_sessions s)(sid \<mapsto> r), sv_addrMap := (sv_addrMap s)(addr \<mapsto> r),
                sv_sockMap := (sv_sockMap s)(hs_SocketID hs \<mapsto> r)\<rparr>;
          resp = \<lparr>hs_Version = hsVersionV5, hs_Encryption = 0, hs_Extension = hs_Extension hs,
                  hs_InitSeqNum = hs_InitSeqNum hs, hs_MTU = hsMtuDefault, hs_MaxFlowWindow = hsFlowDefault,
                  hs_HandshakeType = HsConclusion, hs_SocketID = localSockID, hs_SynCookie = hs_SynCookie hs,
                  hs_PeerIP = hs_PeerIP hs, hs_StreamID = []\<rparr> in
      ([SrtSend addr (BuildHandshakeResponse resp (hs_SocketID hs)),
        SrtEvent ((srt_event EventIncomingCall sid)\<lparr>ev_From := addr, ev_To := hs_StreamID hs\<rparr>),
        SrtEvent ((srt_event EventTrackAdded sid)\<lparr>ev_Track := Some (videoTrack (hs_StreamID hs))\<rparr>),
        SrtEvent (srt_event EventAnswered sid)], s))"

definition handleHandshake :: "Packet \<Rightarrow> string \<Rightarrow> int \<Rightarrow> string \<Rightarrow> SrtServer \<Rightarrow> srt_result" where
  "handleHandshake pkt addr now sid s =
     (case ParseHandshake (pkt_Payload pkt) of
        None \<Rightarrow> ([], s)
      | Some hs \<Rightarrow>
          if hs_HandshakeType hs = HsInduction then handleInduction hs addr now s
          else if hs_HandshakeType hs = HsConclusion then handleConclusion hs addr now sid s
          else ([], s))"

definition handleKeepalive :: "string \<Rightarrow> int \<Rightarrow> SrtServer \<Rightarrow> srt_result" where
  "handleKeepalive addr now s =
     (case sessionByAddr s addr of
        None \<Rightarrow> ([], s)
      | Some r \<Rightarrow> ([SrtSend addr (BuildKeepalive (ss_peerSockID (sv_heap s ! r)))], at_session r (touch now) s))"

definition handleShutdown :: "string \<Rightarrow> SrtServer \<Rightarrow> srt_result" where
  "handleShutdown addr s =
     (case sessionByAddr s addr of None \<Rightarrow> ([], s) | Some r \<Rightarrow> cleanupSession r s)"

definition handleControl :: "Packet \<Rightarrow> string \<Rightarrow> int \<Rightarrow> string \<Rightarrow> SrtServer \<Rightarrow> srt_result" where
  "handleControl pkt addr now sid s =
     (if pkt_CtrlType pkt = ctrlHandshake then handleHandshake pkt addr now sid s
      else if pkt_CtrlType pkt = ctrlKeepalive then handleKeepalive addr now s
      else if pkt_CtrlType pkt = ctrlShutdown then handleShutdown addr s
      else ([], s))"

section \<open>Data\<close>

definition getOrCreateDataOnlySession ::
  "string \<Rightarrow> int \<Rightarrow> string \<Rightarrow> SrtServer \<Rightarrow> nat \<times> SrtOut list \<times> SrtServer" where
  "getOrCreateDataOnlySession addr now sid s =
     (case sv_addrMap s addr of
        Some r \<Rightarrow> (r, [], s)
      | None \<Rightarrow>
          let localSock = sv_nextSock s + 1;
              r = length (sv_heap s);
              s = s\<lparr>sv_heap := sv_heap s @ [srtNewSession sid addr localSock [] now], sv_nextSock := localSock,
                    sv_sessions := (sv_sessions s)(sid \<mapsto> r), sv_addrMap := (sv_addrMap s)(addr \<mapsto> r)\<rparr> in
          (r, [SrtEvent ((srt_event EventIncomingCall sid)\<lparr>ev_From := addr\<rparr>),
               SrtEvent ((srt_event EventTrackAdded sid)\<lparr>ev_Track := Some (videoTrack [])\<rparr>),
               SrtEvent (srt_event EventAnswered sid)], s))"

text \<open>The scan over the TS packets of a payload moves an offset and has no other effect.\<close>

function tsScan :: "bytes \<Rightarrow> nat \<Rightarrow> nat" where
  "tsScan data off =
     (if off + 188 \<le> length data
      then (if data ! off \<noteq> 0x47 then tsScan data (off + 1) else tsScan data (off + 188))
      else off)"
  by pat_completeness auto
termination
  by (relation "measure (\<lambda>(data, off). length data - off)") auto

declare tsScan.simps [simp del]

definition handleTSPayload :: "string \<Rightarrow> bytes \<Rightarrow> SrtOut list" where
  "handleTSPayload sid data =
     (let off = tsScan data 0 in
      [SrtFrame sid ''video'' (zero_frame\<lparr>fr_Type := FrameVideo, fr_Codec := CodecH264, fr_Payload := data\<rparr>)])"

definition handleRtpPayload :: "string \<Rightarrow> bytes \<Rightarrow> SrtOut list" where
  "handleRtpPayload sid data =
     (if length data < 12 then []
      else if drop_bit 6 (data ! 0) AND 0x03 \<noteq> 2 then []
      else
        let cc = unat (data ! 0 AND 0x0F);
            marker = (data ! 1 AND 0x80 \<noteq> 0);
            pt = data ! 1 AND 0x7F;
            seq = u16_at data 2; ts = u32_at data 4; ssrc = u32_at data 8;
            headerLen = 12 + cc * 4 in
        if length data < headerLen then []
        else
          let (codec, kind) = (if pt < 96 \<and> (pt = 0 \<or> pt = 8) then (CodecPCMU, TrackAudio)
                               else (CodecH264, TrackVideo));
              trackID = (if kind = TrackAudio then ''audio'' else ''video'') in
          [SrtFrame sid trackID
             (zero_frame\<lparr>fr_Type := FrameTypeFromKind kind, fr_Codec := codec, fr_Payload := drop headerLen data,
                         fr_Timestamp := ts, fr_Sequence := seq, fr_SSRC := ssrc, fr_Marker := marker\<rparr>)])"

definition mediaPayload :: "string \<Rightarrow> Packet \<Rightarrow> SrtOut list" where
  "mediaPayload sid pkt =
     (let payload = pkt_Payload pkt in
      if payload ! 0 = 0x47 then handleTSPayload sid payload
      else if payload ! 0 AND 0xC0 = 0x80 then handleRtpPayload sid payload
      else [SrtFrame sid ''video''
              (zero_frame\<lparr>fr_Type := FrameVideo, fr_Codec := CodecH264, fr_Payload := payload,
                          fr_Timestamp := pkt_Timestamp pkt, fr_Sequence := ucast (pkt_SeqNum pkt)\<rparr>)])"

definition handleData :: "Packet \<Rightarrow> string \<Rightarrow> int \<Rightarrow> string \<Rightarrow> SrtServer \<Rightarrow> srt_result" where
  "handleData pkt addr now sid s =
     (let (r, out, s) = (case sessionByAddr s addr of
            Some r \<Rightarrow> (r, [], s)
          | None \<Rightarrow> getOrCreateDataOnlySession addr now sid s);
          s = at_session r (touch now) s in
      if pkt_Payload pkt = [] then (out, s)
      else (out @ mediaPayload (ss_id (sv_heap s ! r)) pkt,
            at_session r (recordStats (length (pkt_Payload pkt))) s))"

definition handlePacket :: "bytes \<Rightarrow> string \<Rightarrow> int \<Rightarrow> string \<Rightarrow> SrtServer \<Rightarrow> srt_result" where
  "handlePacket data addr now sid s =
     (case ParsePacket data of
        None \<Rightarrow> ([], s)
      | Some pkt \<Rightarrow>
          if pkt_IsControl pkt then handleControl pkt addr now sid s else handleData pkt addr now sid s)"

section \<open>Timeouts\<close>

text \<open>One pass of \<open>monitorLoop\<close>; \<open>Range\<close> visits the sessions in some order \<open>keys\<close>.\<close>

definition expired :: "int \<Rightarrow> SrtServer \<Rightarrow> nat \<Rightarrow> bool" where
  "expired now s r \<longleftrightarrow> now - ss_lastActive (sv_heap s ! r) > 30000000000"

fun monitorPass :: "int \<Rightarrow> string list \<Rightarrow> SrtServer \<Rightarrow> srt_result" where
  "monitorPass now [] s = ([], s)"
| "monitorPass now (k # keys) s =
     (case sv_sessions s k of
        None \<Rightarrow> monitorPass now keys s
      | Some r \<Rightarrow>
          if expired now s r
          then (case cleanupSession r s of
                  (out, s) \<Rightarrow> (case monitorPass now keys s of (out', s) \<Rightarrow> (out @ out', s)))
          else monitorPass now keys s)"

section \<open>Steps\<close>

text \<open>
  The goroutines of the server and the calls of the application, one handler at a time: a received
  datagram, the clean-up of a session that timed out, \<open>CloseSession\<close> and \<open>SendCommand\<close>. A new
  session id is one that was never used before.
\<close>

datatype SrtLabel = Recv | Timeout | CloseApi string | Command

inductive srt_step :: "SrtServer \<Rightarrow> SrtLabel \<Rightarrow> SrtOut list \<Rightarrow> SrtServer \<Rightarrow> bool" where
  step_recv: "sid \<notin> ss_id ` set (sv_heap s) \<Longrightarrow> handlePacket data addr now sid s = (out, s') \<Longrightarrow>
     srt_step s Recv out s'"
| step_timeout: "sv_sessions s k = Some r \<Longrightarrow> expired now s r \<Longrightarrow> cleanupSession r s = (out, s') \<Longrightarrow>
     srt_step s Timeout out s'"
| step_close: "SrtCloseSession sid s = (out, s') \<Longrightarrow> srt_step s (CloseApi sid) out s'"
| step_command: "r < length (sv_heap s) \<Longrightarrow> SrtSendCommand r cmd s = (out, s') \<Longrightarrow>
     srt_step s Command out s'"

inductive srt_reach :: "SrtServer \<Rightarrow> (SrtLabel \<times> SrtOut list) list \<Rightarrow> bool" where
  reach_init: "srt_reach SrtNewServer []"
| reach_step: "srt_reach s tr \<Longrightarrow> srt_step s l out s' \<Longrightarrow> srt_reach s' (tr @ [(l, out)])"

section \<open>Specification\<close>

text \<open>The tables agree with each other and the local socket ids count up from 1001.\<close>

definition points_to_live :: "SrtServer \<Rightarrow> nat \<Rightarrow> bool" where
  "points_to_live s r \<longleftrightarrow>
     r < length (sv_heap s) \<and> sv_sessions s (ss_id (sv_heap s ! r)) = Some r"

definition srt_inv :: "SrtServer \<Rightarrow> bool" where
  "srt_inv s \<longleftrightarrow>
     distinct (map ss_id (sv_heap s)) \<and>
     (\<forall>k r. sv_sessions s k = Some r \<longrightarrow> r < length (sv_heap s) \<and> ss_id (sv_heap s ! r) = k) \<and>
     (\<forall>a r. sv_addrMap s a = Some r \<longrightarrow> points_to_live s r \<and> ss_peerAddr (sv_heap s ! r) = a) \<and>
     (\<forall>q r. sv_sockMap s q = Some r \<longrightarrow> points_to_live s r \<and> ss_peerSockID (sv_heap s ! r) = q) \<and>
     sv_nextSock s = 1000 + of_nat (length (sv_heap s)) \<and>
     (\<forall>r < length (sv_heap s). ss_socketID (sv_heap s ! r) = 1001 + of_nat r)"

text \<open>
  The contract with the application: a session is announced, gets its track, is answered, may then
  deliver frames, and hangs up at most once, as the last thing that is heard of it.
\<close>

datatype Phase = Unknown | Announced | HasTrack | Live | Over

fun spec_out :: "(string \<Rightarrow> Phase) \<Rightarrow> SrtOut \<Rightarrow> (string \<Rightarrow> Phase) option" where
  "spec_out ph (SrtSend addr d) = Some ph"
| "spec_out ph (SrtFrame sid track frame) = (if ph sid = Live then Some ph else None)"
| "spec_out ph (SrtEvent e) =
     (let sid = ev_SessionID e in
      case (ev_Type e, ph sid) of
        (EventIncomingCall, Unknown) \<Rightarrow> Some (ph(sid := Announced))
      | (EventTrackAdded, Announced) \<Rightarrow> Some (ph(sid := HasTrack))
      | (EventAnswered, HasTrack) \<Rightarrow> Some (ph(sid := Live))
      | (EventHangup, Live) \<Rightarrow> Some (ph(sid := Over))
      | _ \<Rightarrow> None)"

fun spec_outs :: "(string \<Rightarrow> Phase) \<Rightarrow> SrtOut list \<Rightarrow> (string \<Rightarrow> Phase) option" where
  "spec_outs ph [] = Some ph"
| "spec_outs ph (x # xs) = Option.bind (spec_out ph x) (\<lambda>ph. spec_outs ph xs)"

text \<open>\<open>CloseSession\<close> is the application's own doing and ends a session without an event.\<close>

fun spec_label :: "SrtLabel \<Rightarrow> (string \<Rightarrow> Phase) \<Rightarrow> (string \<Rightarrow> Phase)" where
  "spec_label (CloseApi sid) ph = (if ph sid = Live then ph(sid := Over) else ph)"
| "spec_label l ph = ph"

fun spec_trace :: "(string \<Rightarrow> Phase) \<Rightarrow> (SrtLabel \<times> SrtOut list) list \<Rightarrow> (string \<Rightarrow> Phase) option" where
  "spec_trace ph [] = Some ph"
| "spec_trace ph ((l, out) # tr) = Option.bind (spec_outs ph out) (\<lambda>ph. spec_trace (spec_label l ph) tr)"

definition phases :: "SrtServer \<Rightarrow> string \<Rightarrow> Phase" where
  "phases s sid =
     (if sv_sessions s sid \<noteq> None then Live
      else if sid \<in> ss_id ` set (sv_heap s) then Over else Unknown)"

text \<open>A client that concludes a handshake, and the server after it did so twice.\<close>

definition client_hs :: HandshakePacket where
  "client_hs =
     \<lparr>hs_Version = 5, hs_Encryption = 0, hs_Extension = 0, hs_InitSeqNum = 12, hs_MTU = 1500,
      hs_MaxFlowWindow = 8192, hs_HandshakeType = HsConclusion, hs_SocketID = 77, hs_SynCookie = 9,
      hs_PeerIP = (127, 0, 0, 1), hs_StreamID = []\<rparr>"

definition concluded_once :: SrtServer where
  "concluded_once = snd (handlePacket (BuildHandshakeResponse client_hs 0) ''peer'' 0 ''s1'' SrtNewServer)"

definition concluded_twice :: SrtServer where
  "concluded_twice = snd (handlePacket (BuildHandshakeResponse client_hs 0) ''peer'' 5 ''s2'' concluded_once)"

section \<open>Elementary changes\<close>

definition keeps_identity :: "(SrtSession \<Rightarrow> SrtSession) \<Rightarrow> bool" where
  "keeps_identity f \<longleftrightarrow>
     (\<forall>se. ss_id (f se) = ss_id se \<and> ss_peerAddr (f se) = ss_peerAddr se \<and>
           ss_peerSockID (f se) = ss_peerSockID se \<and> ss_socketID (f se) = ss_socketID se)"

lemma keeps [simp]:
  "keeps_identity (touch now)" "keeps_identity (recordStats n)" "keeps_identity (\<lambda>se. se\<lparr>ss_closed := True\<rparr>)"
  by (simp_all add: keeps_identity_def touch_def recordStats_def)

lemma at_session_simps [simp]:
  "sv_sessions (at_session r f s) = sv_sessions s" "sv_addrMap (at_session r f s) = sv_addrMap s"
  "sv_sockMap (at_session r f s) = sv_sockMap s" "sv_nextSock (at_session r f s) = sv_nextSock s"
  "length (sv_heap (at_session r f s)) = length (sv_heap s)"
  by (simp_all add: at_session_def)

lemma at_session_fields:
  assumes "keeps_identity f"
  shows "i < length (sv_heap s) \<Longrightarrow> ss_id (sv_heap (at_session r f s) ! i) = ss_id (sv_heap s ! i)"
    "i < length (sv_heap s) \<Longrightarrow> ss_peerAddr (sv_heap (at_session r f s) ! i) = ss_peerAddr (sv_heap s ! i)"
    "i < length (sv_heap s) \<Longrightarrow> ss_peerSockID (sv_heap (at_session r f s) ! i) = ss_peerSockID (sv_heap s ! i)"
    "i < length (sv_heap s) \<Longrightarrow> ss_socketID (sv_heap (at_session r f s) ! i) = ss_socketID (sv_heap s ! i)"
    "map ss_id (sv_heap (at_session r f s)) = map ss_id (sv_heap s)"
proof -
  note k = assms [unfolded keeps_identity_def]
  show "i < length (sv_heap s) \<Longrightarrow> ss_id (sv_heap (at_session r f s) ! i) = ss_id (sv_heap s ! i)"
    "i < length (sv_heap s) \<Longrightarrow> ss_peerAddr (sv_heap (at_session r f s) ! i) = ss_peerAddr (sv_heap s ! i)"
    "i < length (sv_heap s) \<Longrightarrow> ss_peerSockID (sv_heap (at_session r f s) ! i) = ss_peerSockID (sv_heap s ! i)"
    "i < length (sv_heap s) \<Longrightarrow> ss_socketID (sv_heap (at_session r f s) ! i) = ss_socketID (sv_heap s ! i)"
    using k by (cases "r = i"; simp add: at_session_def)+
  have "map ss_id (sv_heap (at_session r f s)) = (map ss_id (sv_heap s))[r := ss_id (sv_heap s ! r)]"
    using k by (simp add: at_session_def map_update)
  then show "map ss_id (sv_heap (at_session r f s)) = map ss_id (sv_heap s)"
    by (cases "r < length (sv_heap s)") (simp_all add: list_update_same_conv list_update_beyond)
qed

lemma at_session_inv [simp]:
  assumes "keeps_identity f" "srt_inv s"
  shows "srt_inv (at_session r f s)" "phases (at_session r f s) = phases s"
proof -
  have "ss_id ` set (sv_heap (at_session r f s)) = ss_id ` set (sv_heap s)"
    by (metis at_session_fields(5) [OF assms(1)] set_map)
  then show "phases (at_session r f s) = phases s" by (simp add: phases_def fun_eq_iff)
  show "srt_inv (at_session r f s)"
    using assms(2) unfolding srt_inv_def points_to_live_def
    by (auto simp: at_session_fields [OF assms(1)])
qed

lemma srtClose_eq:
  "srtClose r s = (out, s') \<Longrightarrow>
     (\<exists>d a. out = [] \<or> out = [SrtSend a d]) \<and> (s' = s \<or> s' = at_session r (\<lambda>se. se\<lparr>ss_closed := True\<rparr>) s)"
  by (auto simp: srtClose_def Let_def split: if_splits)

lemma srtClose_inv:
  assumes "srtClose r s = (out, s')" "srt_inv s"
  shows "srt_inv s'" "phases s' = phases s" "spec_outs ph out = Some ph"
    "sv_sessions s' = sv_sessions s" "sv_addrMap s' = sv_addrMap s"
  using srtClose_eq [OF assms(1)] assms(2) by auto

lemma dropSession_inv:
  assumes "srt_inv s" "points_to_live s r"
  shows "srt_inv (dropSession r s)" "phases (dropSession r s) = (phases s)(ss_id (sv_heap s ! r) := Over)"
    "phases s (ss_id (sv_heap s ! r)) = Live"
proof -
  let ?i = "ss_id (sv_heap s ! r)"
  have r: "r < length (sv_heap s)" "sv_sessions s ?i = Some r" using assms(2) by (auto simp: points_to_live_def)
  have d: "distinct (map ss_id (sv_heap s))" using assms(1) by (simp add: srt_inv_def)
  have inj: "ss_id (sv_heap s ! j) = ?i \<longleftrightarrow> j = r" if "j < length (sv_heap s)" for j
    using d r(1) that by (simp add: distinct_conv_nth) metis
  show "srt_inv (dropSession r s)"
    using assms(1) inj unfolding srt_inv_def points_to_live_def dropSession_def Let_def
    by (auto simp: fun_upd_apply split: if_splits)
  show "phases (dropSession r s) = (phases s)(?i := Over)"
    using r by (auto simp: phases_def dropSession_def Let_def fun_eq_iff)
  show "phases s ?i = Live" using r by (simp add: phases_def)
qed

text \<open>Both ways to open a session add an object under a fresh id.\<close>

lemma addSession_inv:
  assumes inv: "srt_inv s" and fresh: "ss_id se \<notin> ss_id ` set (sv_heap s)"
    and sock: "ss_socketID se = sv_nextSock s + 1"
    and socks: "socks = sv_sockMap s \<or> socks = (sv_sockMap s)(ss_peerSockID se \<mapsto> length (sv_heap s))"
  defines "s' \<equiv> s\<lparr>sv_heap := sv_heap s @ [se], sv_nextSock := sv_nextSock s + 1,
      sv_sessions := (sv_sessions s)(ss_id se \<mapsto> length (sv_heap s)),
      sv_addrMap := (sv_addrMap s)(ss_peerAddr se \<mapsto> length (sv_heap s)), sv_sockMap := socks\<rparr>"
  shows "srt_inv s'" "phases s' = (phases s)(ss_id se := Live)" "phases s (ss_id se) = Unknown"
proof -
  have sub: "sv_sessions s k = Some r \<Longrightarrow> r < length (sv_heap s) \<and> ss_id (sv_heap s ! r) = k" for k r
    using inv by (simp add: srt_inv_def)
  then have n: "sv_sessions s (ss_id se) = None"
    using fresh by (cases "sv_sessions s (ss_id se)") (metis image_eqI nth_mem)+
  then show "phases s (ss_id se) = Unknown" using fresh by (simp add: phases_def)
  show "phases s' = (phases s)(ss_id se := Live)"
    by (auto simp: phases_def s'_def fun_eq_iff)
  have old: "points_to_live s' r" "r < length (sv_heap s)" if "points_to_live s r" for r
    using that n by (auto simp: points_to_live_def s'_def nth_append)
  have new: "points_to_live s' (length (sv_heap s))" by (simp add: points_to_live_def s'_def)
  have "distinct (map ss_id (sv_heap s'))" using inv fresh by (simp add: srt_inv_def s'_def)
  moreover have "\<forall>k r. sv_sessions s' k = Some r \<longrightarrow> r < length (sv_heap s') \<and> ss_id (sv_heap s' ! r) = k"
    using sub by (auto simp: s'_def nth_append less_SucI)
  moreover have "\<forall>a r. sv_addrMap s' a = Some r \<longrightarrow> points_to_live s' r \<and> ss_peerAddr (sv_heap s' ! r) = a"
    using inv old new by (auto simp: srt_inv_def s'_def nth_append)
  moreover have "\<forall>q r. sv_sockMap s' q = Some r \<longrightarrow> points_to_live s' r \<and> ss_peerSockID (sv_heap s' ! r) = q"
    using inv old new socks by (auto simp: srt_inv_def s'_def nth_append split: if_splits)
  moreover have "sv_nextSock s' = 1000 + of_nat (length (sv_heap s'))"
    using inv by (simp add: srt_inv_def s'_def)
  moreover have "\<forall>r < length (sv_heap s'). ss_socketID (sv_heap s' ! r) = 1001 + of_nat r"
    using inv sock by (auto simp: srt_inv_def s'_def nth_append less_Suc_eq)
  ultimately show "srt_inv s'" unfolding srt_inv_def by blast
qed

lemma spec_outs_append:
  "spec_outs ph (xs @ ys) = Option.bind (spec_outs ph xs) (\<lambda>ph. spec_outs ph ys)"
  by (induction xs arbitrary: ph) (auto split: Option.bind_split)

text \<open>The opening events of a session.\<close>

lemma spec_opening:
  assumes "ph sid = Unknown" "ev_Type a = EventIncomingCall" "ev_Type b = EventTrackAdded"
    "ev_SessionID a = sid" "ev_SessionID b = sid"
  shows "spec_outs ph [SrtEvent a, SrtEvent b, SrtEvent (srt_event EventAnswered sid)] = Some (ph(sid := Live))"
  using assms by (simp add: Let_def srt_event_def)

lemma spec_opening_reply:
  assumes "ph sid = Unknown" "ev_Type a = EventIncomingCall" "ev_Type b = EventTrackAdded"
    "ev_SessionID a = sid" "ev_SessionID b = sid"
  shows "spec_outs ph [SrtSend ad d, SrtEvent a, SrtEvent b, SrtEvent (srt_event EventAnswered sid)] =
           Some (ph(sid := Live))"
  using spec_opening [of ph sid a b] assms by simp

section \<open>Handlers\<close>

text \<open>What the proofs need of a handler: invariant and contract.\<close>

definition good :: "SrtServer \<Rightarrow> srt_result \<Rightarrow> bool" where
  "good s res \<longleftrightarrow> srt_inv (snd res) \<and> spec_outs (phases s) (fst res) = Some (phases (snd res))"

lemma cleanupSession_good:
  assumes "srt_inv s" "points_to_live s r"
  shows "good s (cleanupSession r s)"
proof -
  obtain out s' where c: "srtClose r (dropSession r s) = (out, s')" by fastforce
  note d = dropSession_inv [OF assms]
  note k = srtClose_inv [OF c d(1)]
  have "spec_outs (phases s) (out @ [SrtEvent (srt_event EventHangup (ss_id (sv_heap s ! r)))]) =
      Some ((phases s)(ss_id (sv_heap s ! r) := Over))"
    using k(3) d(3) by (simp add: spec_outs_append srt_event_def Let_def)
  then show ?thesis using k d by (simp add: good_def cleanupSession_def c)
qed

lemma handleConclusion_good:
  assumes "srt_inv s" "sid \<notin> ss_id ` set (sv_heap s)"
  shows "good s (handleConclusion hs addr now sid s)"
proof -
  let ?se = "SetPeerSocketID (hs_SocketID hs) (srtNewSession sid addr (sv_nextSock s + 1) (hs_StreamID hs) now)"
  have f: "ss_id ?se = sid" "ss_peerAddr ?se = addr" "ss_peerSockID ?se = hs_SocketID hs"
    "ss_socketID ?se = sv_nextSock s + 1" by (simp_all add: SetPeerSocketID_def srtNewSession_def)
  note a = addSession_inv [of s ?se, unfolded f, OF assms refl disjI2, OF refl]
  show ?thesis
    unfolding good_def handleConclusion_def Let_def fst_conv snd_conv
    using a spec_opening_reply [of "phases s" sid] by (simp add: srt_event_def)
qed

lemma getOrCreate_good:
  assumes "srt_inv s" "sid \<notin> ss_id ` set (sv_heap s)"
    "getOrCreateDataOnlySession addr now sid s = (r, out, s')"
  shows "good s (out, s')" "points_to_live s' r"
proof -
  let ?se = "srtNewSession sid addr (sv_nextSock s + 1) [] now"
  have f: "ss_id ?se = sid" "ss_peerAddr ?se = addr" "ss_socketID ?se = sv_nextSock s + 1"
    by (simp_all add: srtNewSession_def)
  note a = addSession_inv [of s ?se, unfolded f, OF assms(1,2) refl disjI1, OF refl]
  have "good s (out, s') \<and> points_to_live s' r"
  proof (cases "sv_addrMap s addr")
    case None
    with assms(3) a spec_opening [of "phases s" sid] show ?thesis
      by (auto simp: getOrCreateDataOnlySession_def Let_def good_def points_to_live_def srt_event_def f)
  next
    case (Some q)
    with assms show ?thesis
      by (auto simp: getOrCreateDataOnlySession_def good_def srt_inv_def)
  qed
  then show "good s (out, s')" "points_to_live s' r" by auto
qed

lemma mediaPayload_frames: "x \<in> set (mediaPayload sid pkt) \<Longrightarrow> \<exists>t f. x = SrtFrame sid t f"
  by (auto simp: mediaPayload_def handleTSPayload_def handleRtpPayload_def Let_def split: if_splits prod.splits)

lemma spec_outs_frames:
  "(\<And>x. x \<in> set xs \<Longrightarrow> \<exists>t f. x = SrtFrame sid t f) \<Longrightarrow> ph sid = Live \<Longrightarrow> spec_outs ph xs = Some ph"
proof (induction xs)
  case (Cons x xs)
  from Cons.prems(1) [of x] obtain t f where "x = SrtFrame sid t f" by auto
  with Cons show ?case by simp
qed simp

lemma handleData_good:
  assumes "srt_inv s" "sid \<notin> ss_id ` set (sv_heap s)"
  shows "good s (handleData pkt addr now sid s)"
proof -
  obtain r out s1 where g: "(case sessionByAddr s addr of Some r \<Rightarrow> (r, [], s)
      | None \<Rightarrow> getOrCreateDataOnlySession addr now sid s) = (r, out, s1)" by (metis prod_cases3)
  have s1: "good s (out, s1)" "points_to_live s1 r"
    using g getOrCreate_good [OF assms] assms(1)
    by (auto simp: sessionByAddr_def good_def srt_inv_def split: option.splits)
  then have inv: "srt_inv s1" by (simp add: good_def)
  let ?id = "ss_id (sv_heap (at_session r (touch now) s1) ! r)"
  have "?id = ss_id (sv_heap s1 ! r)" using s1(2) by (simp add: at_session_fields(1) points_to_live_def)
  then have "phases s1 ?id = Live" using s1(2) by (simp add: phases_def points_to_live_def)
  then have "spec_outs (phases s1) (mediaPayload ?id pkt) = Some (phases s1)"
    using mediaPayload_frames by (intro spec_outs_frames)
  then show ?thesis
    using s1 inv unfolding handleData_def Let_def g prod.case
    by (auto simp: good_def spec_outs_append)
qed

lemma handlePacket_good:
  assumes "srt_inv s" "sid \<notin> ss_id ` set (sv_heap s)"
  shows "good s (handlePacket data addr now sid s)"
proof -
  have none: "good s ([], s)" using assms(1) by (simp add: good_def)
  have "good s (handleInduction hs addr now s)" for hs
    using assms(1) by (simp add: good_def handleInduction_def Let_def)
  then have "good s (handleHandshake pkt addr now sid s)" for pkt
    using none handleConclusion_good [OF assms]
    by (auto simp: handleHandshake_def split: option.splits)
  moreover have "good s (handleKeepalive addr now s)"
    using none assms(1) by (auto simp: handleKeepalive_def good_def split: option.splits)
  moreover have "good s (handleShutdown addr s)"
    using none cleanupSession_good [OF assms(1)] assms(1)
    by (auto simp: handleShutdown_def sessionByAddr_def srt_inv_def split: option.splits)
  ultimately show ?thesis
    using none handleData_good [OF assms]
    by (auto simp: handlePacket_def handleControl_def split: option.splits)
qed

lemma closeSession_inv:
  assumes "srt_inv s" "SrtCloseSession sid s = (out, s')"
  shows "srt_inv s'" "spec_outs (phases s) out = Some (phases s)" "spec_label (CloseApi sid) (phases s) = phases s'"
proof -
  have "srt_inv s' \<and> spec_outs (phases s) out = Some (phases s) \<and> spec_label (CloseApi sid) (phases s) = phases s'"
  proof (cases "sv_sessions s sid")
    case None
    with assms show ?thesis by (auto simp: SrtCloseSession_def phases_def)
  next
    case (Some r)
    with assms(1) have r: "points_to_live s r" "ss_id (sv_heap s ! r) = sid"
      by (auto simp: srt_inv_def points_to_live_def)
    have c: "srtClose r (dropSession r s) = (out, s')"
      using assms(2) Some r(2) by (simp add: SrtCloseSession_def dropSession_def Let_def)
    note d = dropSession_inv [OF assms(1) r(1), unfolded r(2)]
    from srtClose_inv [OF c d(1)] d show ?thesis by simp
  qed
  then show "srt_inv s'" "spec_outs (phases s) out = Some (phases s)" "spec_label (CloseApi sid) (phases s) = phases s'"
    by blast+
qed

lemma srt_step_good:
  assumes "srt_step s l out s'" "srt_inv s"
  shows "srt_inv s'"
    "\<exists>ph. spec_outs (phases s) out = Some ph \<and> spec_label l ph = phases s'"
proof -
  have "srt_inv s' \<and> (\<exists>ph. spec_outs (phases s) out = Some ph \<and> spec_label l ph = phases s')"
    using assms(1)
  proof cases
    case (step_recv sid data addr now)
    then show ?thesis using handlePacket_good [OF assms(2), of sid data addr now] by (simp add: good_def)
  next
    case (step_timeout k r now)
    then have "points_to_live s r" using assms(2) by (auto simp: srt_inv_def points_to_live_def)
    from cleanupSession_good [OF assms(2) this] step_timeout show ?thesis by (simp add: good_def)
  next
    case (step_close sid)
    then show ?thesis using closeSession_inv [OF assms(2)] by blast
  next
    case (step_command r cmd)
    then have "srtClose r s = (out, s') \<or> (out, s') = ([], s)"
      by (auto simp: SrtSendCommand_def split: CommandType.splits)
    then show ?thesis using srtClose_inv [OF _ assms(2)] step_command(1) assms(2) by auto
  qed
  then show "srt_inv s'" "\<exists>ph. spec_outs (phases s) out = Some ph \<and> spec_label l ph = phases s'" by blast+
qed

lemma srt_inv_init [simp]: "srt_inv SrtNewServer" "phases SrtNewServer = (\<lambda>_. Unknown)"
  by (auto simp: srt_inv_def SrtNewServer_def phases_def)

lemma srt_reach_inv: "srt_reach s tr \<Longrightarrow> srt_inv s"
  by (induction rule: srt_reach.induct) (auto dest: srt_step_good(1))

lemma spec_trace_append:
  "spec_trace ph (tr @ tr') = Option.bind (spec_trace ph tr) (\<lambda>ph. spec_trace ph tr')"
  by (induction tr arbitrary: ph) (auto split: Option.bind_split)

section \<open>Properties\<close>




lemma handlePacket_conclusion:
  assumes "streamID_ok (hs_StreamID hs)" "hs_HandshakeType hs = HsConclusion"
  shows "handlePacket (BuildHandshakeResponse hs dst) addr now sid s = handleConclusion hs addr now sid s"
  using ParseHandshake_BuildHandshake [OF assms(1)] assms(2)
  by (simp add: handlePacket_def BuildHandshakeResponse_def ParsePacket_control handleControl_def
      handleHandshake_def ctrlHandshake_def HsInduction_def HsConclusion_def)

lemma client_conclusion:
  "handlePacket (BuildHandshakeResponse client_hs 0) addr now sid s = handleConclusion client_hs addr now sid s"
  by (rule handlePacket_conclusion) (simp_all add: client_hs_def streamID_ok_def)

lemma concluded_heap:
  "map ss_id (sv_heap concluded_once) = [''s1'']" "map ss_id (sv_heap concluded_twice) = [''s1'', ''s2'']"
  "map ss_peerAddr (sv_heap concluded_twice) = [''peer'', ''peer'']"
  "sv_sessions concluded_twice ''s1'' = Some 0" "sv_sessions concluded_twice ''s2'' = Some 1"
  "sv_addrMap concluded_twice ''peer'' = Some 1" "ss_lastActive (sv_heap concluded_twice ! 1) = 5"
  by (simp_all add: concluded_twice_def concluded_once_def client_conclusion handleConclusion_def Let_def
      SrtNewServer_def SetPeerSocketID_def srtNewSession_def)

lemma concluded_dom: "dom (sv_sessions concluded_twice) \<subseteq> {''s1'', ''s2''}"
  by (auto simp: concluded_twice_def concluded_once_def client_conclusion handleConclusion_def Let_def
      SrtNewServer_def split: if_splits)

lemma concluded_reach: "srt_reach concluded_twice
   [(Recv, fst (handlePacket (BuildHandshakeResponse client_hs 0) ''peer'' 0 ''s1'' SrtNewServer)),
    (Recv, fst (handlePacket (BuildHandshakeResponse client_hs 0) ''peer'' 5 ''s2'' concluded_once))]"
proof -
  have 1: "srt_reach concluded_once
      [(Recv, fst (handlePacket (BuildHandshakeResponse client_hs 0) ''peer'' 0 ''s1'' SrtNewServer))]"
    unfolding concluded_once_def
    by (rule reach_step [OF reach_init, simplified], rule step_recv [where sid = "''s1''"])
       (simp_all add: SrtNewServer_def)
  have "''s2'' \<notin> ss_id ` set (sv_heap concluded_once)"
    unfolding set_map [symmetric] concluded_heap(1) by simp
  then have "srt_step concluded_once Recv
      (fst (handlePacket (BuildHandshakeResponse client_hs 0) ''peer'' 5 ''s2'' concluded_once)) concluded_twice"
    unfolding concluded_twice_def by (rule step_recv) simp
  from reach_step [OF 1 this] show ?thesis by simp
qed


text \<open>
  C38. A repeated handshake cuts its own session off. When a peer has concluded a second handshake,
  its address leads to the new session. If then the old one is cleaned up, the new session stays
  in the session table but the address leads nowhere, and the next data packet of the peer opens
  yet another session.
\<close>

theorem srt_cleanup_detaches:
  assumes "srt_reach s tr" "sv_sessions s k1 = Some r1" "sv_sessions s k2 = Some r2" "k1 \<noteq> k2"
    "ss_peerAddr (sv_heap s ! r1) = a" "sessionByAddr s a = Some r2"
  shows "sv_sessions (snd (cleanupSession r1 s)) k2 = Some r2 \<and>
         sessionByAddr (snd (cleanupSession r1 s)) a = None \<and>
         sv_sessions (snd (handleData pkt a now sid (snd (cleanupSession r1 s)))) sid =
           Some (length (sv_heap s))"
proof -
  note inv = srt_reach_inv [OF assms(1)]
  have k1: "ss_id (sv_heap s ! r1) = k1" using inv assms(2) by (simp add: srt_inv_def)
  obtain out s' where c: "srtClose r1 (dropSession r1 s) = (out, s')" by fastforce
  have e: "snd (cleanupSession r1 s) = s'" by (simp add: cleanupSession_def c)
  have s': "sv_sessions s' = (sv_sessions s)(k1 := None)" "sv_addrMap s' = (sv_addrMap s)(a := None)"
    "length (sv_heap s') = length (sv_heap s)"
    using srtClose_eq [OF c] assms(5) by (auto simp: dropSession_def Let_def k1)
  then show ?thesis
    using assms(3,4) unfolding e
    by (simp add: sessionByAddr_def handleData_def getOrCreateDataOnlySession_def Let_def)
qed

theorem srt_cleanup_detaches_witness:
  "sv_sessions (snd (cleanupSession 0 concluded_twice)) ''s2'' = Some 1 \<and>
   sessionByAddr (snd (cleanupSession 0 concluded_twice)) ''peer'' = None \<and>
   sv_sessions (snd (handleData \<lparr>pkt_IsControl = False, pkt_CtrlType = 0, pkt_Subtype = 0, pkt_SeqNum = 1,
       pkt_MsgNo = 0, pkt_Timestamp = 0, pkt_SocketID = 0, pkt_Payload = [1]\<rparr> ''peer'' 9 ''s3''
     (snd (cleanupSession 0 concluded_twice)))) ''s3'' = Some (length (sv_heap concluded_twice))"
proof (rule srt_cleanup_detaches [OF concluded_reach concluded_heap(4,5)])
  have "map ss_peerAddr (sv_heap concluded_twice) ! 0 = ''peer''" unfolding concluded_heap(3) by simp
  moreover have "length (sv_heap concluded_twice) = 2" using arg_cong [OF concluded_heap(3), of length] by simp
  ultimately show "ss_peerAddr (sv_heap concluded_twice ! 0) = ''peer''" by simp
  show "sessionByAddr concluded_twice ''peer'' = Some 1" by (simp add: sessionByAddr_def concluded_heap)
qed simp

section \<open>The monitor\<close>

lemma cleanupSession_effect:
  assumes "srt_inv s" "sv_sessions s k = Some r"
  shows "srt_inv (snd (cleanupSession r s))"
    "sv_sessions (snd (cleanupSession r s)) = (sv_sessions s)(k := None)"
    "sv_sessions s j = Some q \<Longrightarrow> expired now (snd (cleanupSession r s)) q = expired now s q"
    "SrtEvent (srt_event EventHangup k) \<in> set (fst (cleanupSession r s))"
proof -
  have r: "points_to_live s r" "ss_id (sv_heap s ! r) = k" "r < length (sv_heap s)"
    using assms by (auto simp: srt_inv_def points_to_live_def)
  show "srt_inv (snd (cleanupSession r s))"
    using cleanupSession_good [OF assms(1) r(1)] by (simp add: good_def)
  obtain out s' where c: "srtClose r (dropSession r s) = (out, s')" by fastforce
  have e: "cleanupSession r s = (out @ [SrtEvent (srt_event EventHangup k)], s')"
    by (simp add: cleanupSession_def c r(2))
  show "SrtEvent (srt_event EventHangup k) \<in> set (fst (cleanupSession r s))" by (simp add: e)
  show "sv_sessions (snd (cleanupSession r s)) = (sv_sessions s)(k := None)"
    using srtClose_eq [OF c] by (auto simp: e dropSession_def Let_def r(2))
  have "sv_heap s' = sv_heap s \<or> sv_heap s' = (sv_heap s)[r := (sv_heap s ! r)\<lparr>ss_closed := True\<rparr>]"
    using srtClose_eq [OF c] by (auto simp: dropSession_def Let_def at_session_def)
  then show "expired now (snd (cleanupSession r s)) q = expired now s q" if "sv_sessions s j = Some q"
    using r(3) by (cases "q = r") (auto simp: e expired_def)
qed

lemma monitorPass_effect:
  assumes "srt_inv s"
  shows "sv_sessions (snd (monitorPass now keys s)) k =
      (case sv_sessions s k of
         Some r \<Rightarrow> if k \<in> set keys \<and> expired now s r then None else Some r
       | None \<Rightarrow> None) \<and>
    (\<forall>r. sv_sessions s k = Some r \<and> k \<in> set keys \<and> expired now s r \<longrightarrow>
       SrtEvent (srt_event EventHangup k) \<in> set (fst (monitorPass now keys s)))"
  using assms
proof (induction keys arbitrary: s)
  case Nil
  then show ?case by (simp split: option.splits)
next
  case (Cons j keys)
  show ?case
  proof (cases "\<exists>q. sv_sessions s j = Some q \<and> expired now s q")
    case False
    then have "monitorPass now (j # keys) s = monitorPass now keys s" by (auto split: option.splits)
    with Cons.IH [OF Cons.prems] False show ?thesis by (auto split: option.splits if_splits)
  next
    case True
    then obtain q where q: "sv_sessions s j = Some q" "expired now s q" by blast
    define s1 where "s1 = snd (cleanupSession q s)"
    note c = cleanupSession_effect [OF Cons.prems q(1), folded s1_def]
    have m: "monitorPass now (j # keys) s =
        (fst (cleanupSession q s) @ fst (monitorPass now keys s1), snd (monitorPass now keys s1))"
      using q by (simp add: s1_def split: prod.splits)
    show ?thesis
    proof (cases "k = j")
      case True
      with Cons.IH [OF c(1)] c(2,4) q show ?thesis unfolding m by simp
    next
      case False
      with Cons.IH [OF c(1)] c(2,3) show ?thesis unfolding m by (auto split: option.splits if_splits)
    qed
  qed
qed



section \<open>RTP payloads\<close>

lemma rtp_bytes:
  fixes x y :: u8 and m :: bool
  assumes "x < 2 ^ 4" "y < 2 ^ 7"
  defines "b \<equiv> (if m then 0x80 else 0) OR y"
  shows "drop_bit 6 (0x80 OR x) AND 0x03 = 2" "(0x80 OR x) AND 0x0F = x" "b AND 0x7F = y" "b AND 0x80 \<noteq> 0 \<longleftrightarrow> m"
proof -
  have top: "bit (0x80 :: u8) i \<longleftrightarrow> i = 7" "bit (2 :: u8) i \<longleftrightarrow> i = 1" for i
    using bit_exp_word [where 'a = 8, of 7 i] bit_exp_word [where 'a = 8, of 1 i] by simp_all
  have masks: "(0x0F :: u8) = mask 4" "(0x7F :: u8) = mask 7" "(0x03 :: u8) = mask 2"
    by (simp_all add: mask_eq_exp_minus_1)
  have sm: "\<And>i. 4 \<le> i \<Longrightarrow> \<not> bit x i" "\<And>i. 7 \<le> i \<Longrightarrow> \<not> bit y i"
    using bit_small [of x 4] bit_small [of y 7] assms(1,2) by auto
  show "drop_bit 6 (0x80 OR x) AND 0x03 = 2" unfolding masks
    by (rule bit_word_eqI) (auto simp: bit_simps top sm)
  show "(0x80 OR x) AND 0x0F = x" unfolding masks
  proof (rule bit_word_eqI)
    fix n assume "n < LENGTH(8)"
    then show "bit ((0x80 OR x) AND mask 4) n \<longleftrightarrow> bit x n"
      using sm(1) [of n] top(1) [of n] by (cases "n < 4") (auto simp: bit_and_iff bit_or_iff bit_mask_iff)
  qed
  show "b AND 0x7F = y" unfolding masks b_def
  proof (rule bit_word_eqI)
    fix n assume "n < LENGTH(8)"
    then show "bit (((if m then 0x80 else 0) OR y) AND mask 7) n \<longleftrightarrow> bit y n"
      using sm(2) [of n] top(1) [of n] by (cases "n < 7") (auto simp: bit_and_iff bit_or_iff bit_mask_iff)
  qed
  show "b AND 0x80 \<noteq> 0 \<longleftrightarrow> m"
    using and_exp_eq_0_iff_not_bit [of b 7] sm(2) [of 7] by (auto simp: bit_simps top b_def)
qed

text \<open>
  C39. RTP packets inside SRT: from a version 2 packet with any CSRC list, no extension and no
  padding, the application gets the payload with its sequence number, time stamp, source and
  marker on the track of its payload type. Payload types 0 and 8 both come out as PCMU.
\<close>

theorem srt_rtp_forward:
  assumes "n < 16" "length csrcs = 4 * n" "pt < 128"
  shows "handleRtpPayload sid
      ([0x80 OR of_nat n, (if m then 0x80 else 0) OR of_nat pt] @ be16 seq @ be32 ts @ be32 ssrc @ csrcs @ payload) =
     [SrtFrame sid (if pt = 0 \<or> pt = 8 then ''audio'' else ''video'')
        (zero_frame\<lparr>fr_Type := (if pt = 0 \<or> pt = 8 then FrameAudio else FrameVideo),
                    fr_Codec := (if pt = 0 \<or> pt = 8 then CodecPCMU else CodecH264), fr_Payload := payload,
                    fr_Timestamp := ts, fr_Sequence := seq, fr_SSRC := ssrc, fr_Marker := m\<rparr>)]"
proof -
  let ?a = "0x80 OR of_nat n :: u8" let ?b = "(if m then 0x80 else 0) OR of_nat pt :: u8"
  let ?d = "[?a, ?b] @ be16 seq @ be32 ts @ be32 ssrc @ csrcs @ payload"
  have "(of_nat n :: u8) < 2 ^ 4" "(of_nat pt :: u8) < 2 ^ 7"
    using assms(1,3) by (simp_all add: word_less_nat_alt unat_of_nat_small)
  note b = rtp_bytes(1,2) [OF this] rtp_bytes(3,4) [OF this, of m]
  have u: "unat (of_nat n :: u8) = n" "unat (of_nat pt :: u8) = pt"
    using assms by (simp_all add: unat_of_nat_small)
  have pt: "(of_nat pt :: u8) = 0 \<longleftrightarrow> pt = 0" "(of_nat pt :: u8) = 8 \<longleftrightarrow> pt = 8" "(of_nat pt :: u8) < 96 \<longleftrightarrow> pt < 96"
    using u(2) by (auto simp: word_unat_eq_iff word_less_nat_alt)
  have f: "?d ! 0 = ?a" "?d ! 1 = ?b" "u16_at ?d 2 = seq" "u32_at ?d 4 = ts" "u32_at ?d 8 = ssrc"
    "12 + n * 4 \<le> length ?d" "12 \<le> length ?d"
    using assms(2) by (simp_all add: u16_at_def u32_at_def be16_def be32_def nth_append)
  have dr: "drop (12 + n * 4) ?d = payload"
    using assms(2) by (simp only: drop_append) simp
  show ?thesis
    unfolding handleRtpPayload_def Let_def f(1-5) b u(1)
    unfolding dr using f(6,7) by (auto simp: pt media_consts FrameTypeFromKind_def)
qed

theorem srt_rtp_forward_witness:
  "handleRtpPayload ''x'' ([0x80 OR of_nat 0, (if True then 0x80 else 0) OR of_nat 8] @ be16 3 @ be32 4 @ be32 5 @ [] @ [9]) =
     [SrtFrame ''x'' ''audio''
        (zero_frame\<lparr>fr_Type := FrameAudio, fr_Codec := CodecPCMU, fr_Payload := [9],
                    fr_Timestamp := 4, fr_Sequence := 3, fr_SSRC := 5, fr_Marker := True\<rparr>)]"
  using srt_rtp_forward [of 0 "[]" 8 "''x''" True 3 4 5 "[9]"] by simp

end
