(* ===== verification/GbReceiver.thy ===== *)
theory GbReceiver
  imports TSDemux
begin

text \<open>
  The GB28181 program-stream receiver (\<open>pkg/protocol/gb28181/ps_receiver.go\<close>): the walk over
  start codes, PES headers, time stamps, Annex-B splitting and the frames and track events handed
  to the event handler. \<open>pion/rtp\<close> is not part of the sources, so its \<open>Unmarshal\<close> is an argument
  of \<open>processPacket\<close>. The table \<open>pesBuf\<close>, which the code creates and never uses, is left out.
\<close>

section \<open>State and events\<close>

record PSReceiver =
  ps_deviceID :: bytes
  ps_closed :: bool
  ps_videoReported :: bool
  ps_audioReported :: bool
  ps_videoSeq :: u16
  ps_audioSeq :: u16
  ps_rtpSSRC :: u32
  ps_packetsRecv :: u64
  ps_bytesRecv :: u64

datatype ps_event = TrackAdded TrackInfo | FrameEvent string MediaFrame

text \<open>What \<open>rtp.Packet.Unmarshal\<close> returns of a packet without error.\<close>

record rtp_packet =
  rtp_Version :: u8
  rtp_Payload :: bytes
  rtp_Timestamp :: u32
  rtp_SequenceNumber :: u16
  rtp_Marker :: bool

definition NewPSReceiver :: "bytes \<Rightarrow> u32 \<Rightarrow> PSReceiver" where
  "NewPSReceiver deviceID now =
     \<lparr>ps_deviceID = deviceID, ps_closed = False, ps_videoReported = False,
      ps_audioReported = False, ps_videoSeq = 0, ps_audioSeq = 0, ps_rtpSSRC = now,
      ps_packetsRecv = 0, ps_bytesRecv = 0\<rparr>"

section \<open>Start codes and sections\<close>

definition findStartCode :: "bytes \<Rightarrow> nat \<Rightarrow> nat option" where
  "findStartCode data pos =
     find (\<lambda>i. data ! i = 0x00 \<and> data ! (i + 1) = 0x00 \<and> data ! (i + 2) = 0x01)
       [pos..<length data - 3]"

definition skipPackHeader :: "bytes \<Rightarrow> nat \<Rightarrow> nat option" where
  "skipPackHeader data start =
     (if start + 14 > length data then None
      else
        let stuffingLen = unat (data ! (start + 13) AND 0x07);
            end = start + 14 + stuffingLen in
        if end > length data then None else Some end)"

definition skipSection :: "bytes \<Rightarrow> nat \<Rightarrow> nat option" where
  "skipSection data start =
     (if start + 6 > length data then None
      else
        let len = unat (u16_at data (start + 4)); end = start + 6 + len in
        if len = 0 then Some (length data)
        else if end > length data then Some (length data)
        else Some end)"

text \<open>The \<open>int64\<close> time stamps use 33 bits and are never negative.\<close>

definition parsePTS :: "bytes \<Rightarrow> u64" where
  "parsePTS b =
     (if length b < 5 then 0
      else push_bit 29 (ucast (b ! 0 AND 0x0E)) OR push_bit 22 (ucast (b ! 1)) OR
           push_bit 14 (ucast (b ! 2 AND 0xFE)) OR push_bit 7 (ucast (b ! 3)) OR
           drop_bit 1 (ucast (b ! 4 AND 0xFE)))"

record pesPacket =
  pes_StreamID :: u8
  pes_PayloadLen :: nat
  pes_PTS :: u64
  pes_DTS :: u64
  pes_HasPTS :: bool
  pes_HasDTS :: bool
  pes_Payload :: bytes

definition parsePES :: "bytes \<Rightarrow> nat \<Rightarrow> (pesPacket \<times> nat) option" where
  "parsePES data start =
     (if start + 9 > length data then None
      else
        let len = unat (u16_at data (start + 4));
            flags2 = data ! (start + 8);
            optStart = start + 9;
            pesHeaderDataLen = unat (data ! (start + 8));
            pesHeaderDataLen = (if optStart + pesHeaderDataLen > length data then 0
                                else pesHeaderDataLen);
            ptsOnly = (pesHeaderDataLen \<ge> 5 \<and> flags2 AND 0xC0 = 0x80);
            ptsDts = (\<not> ptsOnly \<and> pesHeaderDataLen \<ge> 10 \<and> flags2 AND 0xC0 = 0xC0);
            payloadEnd = (if len = 0 then length data else start + 6 + len);
            payloadEnd = (if payloadEnd > length data then length data else payloadEnd);
            payloadStart = optStart + pesHeaderDataLen;
            payloadStart = (if payloadStart > payloadEnd then payloadEnd else payloadStart) in
        Some (\<lparr>pes_StreamID = data ! (start + 3), pes_PayloadLen = len,
               pes_PTS = (if ptsOnly \<or> ptsDts then parsePTS (drop optStart data) else 0),
               pes_DTS = (if ptsDts then parsePTS (drop (optStart + 5) data) else 0),
               pes_HasPTS = (ptsOnly \<or> ptsDts), pes_HasDTS = ptsDts,
               pes_Payload = take (payloadEnd - payloadStart) (drop payloadStart data)\<rparr>,
              payloadEnd))"

section \<open>Annex-B splitting\<close>

definition nextCode :: "bytes \<Rightarrow> nat \<Rightarrow> nat option" where
  "nextCode data nalStart =
     find (\<lambda>i. data ! i = 0 \<and> data ! (i + 1) = 0 \<and> data ! (i + 2) = 1)
       [nalStart + 1..<length data - 3]"

definition startCodeLen :: "bytes \<Rightarrow> nat \<Rightarrow> nat" where
  "startCodeLen data pos =
     (if pos + 4 \<le> length data \<and> data ! pos = 0 \<and> data ! (pos + 1) = 0 \<and> data ! (pos + 2) = 0 \<and>
         data ! (pos + 3) = 1 then 4
      else if pos + 3 \<le> length data \<and> data ! pos = 0 \<and> data ! (pos + 1) = 0 \<and>
              data ! (pos + 2) = 1 then 3
      else 0)"

function splitAnnexB_from :: "bytes \<Rightarrow> nat \<Rightarrow> bytes list" where
  "splitAnnexB_from data pos =
     (if pos < length data then
        if startCodeLen data pos = 0 then splitAnnexB_from data (pos + 1)
        else
          let nalStart = pos + startCodeLen data pos in
          (case nextCode data nalStart of
             Some next \<Rightarrow>
               take (next - nalStart) (drop nalStart data) # splitAnnexB_from data next
           | None \<Rightarrow> [drop nalStart data])
      else [])"
  by pat_completeness auto
termination
  by (relation "measure (\<lambda>(data, pos). length data - pos)")
     (auto simp: nextCode_def find_Some_iff nth_append)

declare splitAnnexB_from.simps [simp del]

definition splitAnnexB :: "bytes \<Rightarrow> bytes list" where
  "splitAnnexB data = splitAnnexB_from data 0"

definition NaluType :: "bytes \<Rightarrow> u8" where
  "NaluType nal = (if length nal = 0 then 0 else nal ! 0 AND 0x1F)"

section \<open>Frames\<close>

definition reportVideoTrack :: "PSReceiver \<Rightarrow> PSReceiver \<times> ps_event list" where
  "reportVideoTrack r =
     (if ps_videoReported r then (r, [])
      else (r\<lparr>ps_videoReported := True\<rparr>,
            [TrackAdded \<lparr>ti_ID = ''video'', ti_Kind = TrackVideo, ti_Direction = TrackRecv,
               ti_Codec = CodecH264, ti_SampleRate = 90000, ti_Channels = 0, ti_SSRC = 0,
               ti_StreamID = ps_deviceID r\<rparr>]))"

definition reportAudioTrack :: "PSReceiver \<Rightarrow> PSReceiver \<times> ps_event list" where
  "reportAudioTrack r =
     (if ps_audioReported r then (r, [])
      else (r\<lparr>ps_audioReported := True\<rparr>,
            [TrackAdded \<lparr>ti_ID = ''audio'', ti_Kind = TrackAudio, ti_Direction = TrackRecv,
               ti_Codec = CodecG711U, ti_SampleRate = 8000, ti_Channels = 1, ti_SSRC = 0,
               ti_StreamID = ps_deviceID r\<rparr>]))"

text \<open>The loop over the NAL units; \<open>last\<close> is whether the unit is the last of the list.\<close>

fun forwardNALs :: "PSReceiver \<Rightarrow> u32 \<Rightarrow> bool \<Rightarrow> bytes list \<Rightarrow> PSReceiver \<times> ps_event list" where
  "forwardNALs r rtpTS rtpMarker [] = (r, [])"
| "forwardNALs r rtpTS rtpMarker (nal # nals) =
     (if length nal = 0 then forwardNALs r rtpTS rtpMarker nals
      else
        let frame = zero_frame\<lparr>fr_Type := FrameVideo, fr_Codec := CodecH264, fr_Payload := nal,
              fr_Timestamp := rtpTS, fr_Sequence := ps_videoSeq r, fr_SampleRate := 90000,
              fr_SSRC := ps_rtpSSRC r, fr_Marker := rtpMarker \<and> nals = []\<rparr>;
            (r, evs) = forwardNALs (r\<lparr>ps_videoSeq := ps_videoSeq r + 1\<rparr>) rtpTS rtpMarker nals in
        (r, FrameEvent ''video'' frame # evs))"

definition handleVideoPES ::
  "PSReceiver \<Rightarrow> pesPacket \<Rightarrow> u32 \<Rightarrow> bool \<Rightarrow> PSReceiver \<times> ps_event list" where
  "handleVideoPES r pes rtpTS rtpMarker =
     (if length (pes_Payload pes) = 0 then (r, [])
      else
        let (r, ev) = reportVideoTrack r;
            (r, evs) = forwardNALs r rtpTS rtpMarker (splitAnnexB (pes_Payload pes)) in
        (r, ev @ evs))"

definition handleAudioPES :: "PSReceiver \<Rightarrow> pesPacket \<Rightarrow> u32 \<Rightarrow> PSReceiver \<times> ps_event list" where
  "handleAudioPES r pes rtpTS =
     (if length (pes_Payload pes) = 0 then (r, [])
      else
        let (r, ev) = reportAudioTrack r;
            frame = zero_frame\<lparr>fr_Type := FrameAudio, fr_Codec := CodecG711U,
              fr_Payload := pes_Payload pes, fr_Timestamp := rtpTS, fr_Sequence := ps_audioSeq r,
              fr_SampleRate := 8000, fr_Channels := 1, fr_SSRC := ps_rtpSSRC r, fr_Marker := True\<rparr> in
        (r\<lparr>ps_audioSeq := ps_audioSeq r + 1\<rparr>, ev @ [FrameEvent ''audio'' frame]))"

text \<open>The switch on the stream code: where to go on and what was reported.\<close>

definition psStep ::
  "PSReceiver \<Rightarrow> bytes \<Rightarrow> nat \<Rightarrow> u32 \<Rightarrow> bool \<Rightarrow> (nat \<times> PSReceiver \<times> ps_event list) option" where
  "psStep r data start rtpTS rtpMarker =
     (let streamCode = data ! (start + 3) in
      if streamCode = 0xBA then map_option (\<lambda>end. (end, r, [])) (skipPackHeader data start)
      else if streamCode = 0xBB then map_option (\<lambda>end. (end, r, [])) (skipSection data start)
      else if streamCode = 0xBC then map_option (\<lambda>end. (end, r, [])) (skipSection data start)
      else if streamCode = 0xE0 \<or> streamCode \<ge> 0xE0 \<and> streamCode \<le> 0xEF then
        map_option (\<lambda>(pes, end). (end, handleVideoPES r pes rtpTS rtpMarker)) (parsePES data start)
      else if streamCode = 0xC0 \<or> streamCode \<ge> 0xC0 \<and> streamCode \<le> 0xDF then
        map_option (\<lambda>(pes, end). (end, handleAudioPES r pes rtpTS)) (parsePES data start)
      else map_option (\<lambda>end. (end, r, [])) (skipSection data start))"

fun parsePS_loop ::
  "nat \<Rightarrow> PSReceiver \<Rightarrow> bytes \<Rightarrow> nat \<Rightarrow> u32 \<Rightarrow> bool \<Rightarrow> (PSReceiver \<times> ps_event list) option" where
  "parsePS_loop 0 r data pos rtpTS rtpMarker = None"
| "parsePS_loop (Suc f) r data pos rtpTS rtpMarker =
     (if pos < length data then
        (case findStartCode data pos of
           None \<Rightarrow> Some (r, [])
         | Some start \<Rightarrow>
             (case psStep r data start rtpTS rtpMarker of
                None \<Rightarrow> Some (r, [])
              | Some (end, r, ev) \<Rightarrow>
                  map_option (\<lambda>(r, evs). (r, ev @ evs))
                    (parsePS_loop f r data end rtpTS rtpMarker)))
      else Some (r, []))"

text \<open>The fuel covers every byte; \<open>None\<close> would be a walk that does not end.\<close>

definition parsePSStream ::
  "PSReceiver \<Rightarrow> bytes \<Rightarrow> u32 \<Rightarrow> bool \<Rightarrow> (PSReceiver \<times> ps_event list) option" where
  "parsePSStream r data rtpTS rtpMarker = parsePS_loop (length data + 1) r data 0 rtpTS rtpMarker"

definition processPacket ::
  "(bytes \<Rightarrow> rtp_packet option) \<Rightarrow> PSReceiver \<Rightarrow> bytes \<Rightarrow> (PSReceiver \<times> ps_event list) option" where
  "processPacket unmarshal r data =
     (let (psPayload, rtpTS, rtpMarker) =
            (case unmarshal data of
               Some pkt \<Rightarrow> if rtp_Version pkt = 2
                           then (rtp_Payload pkt, rtp_Timestamp pkt, rtp_Marker pkt)
                           else (data, 0, False)
             | None \<Rightarrow> (data, 0, False)) in
      if length psPayload = 0 then Some (r, [])
      else parsePSStream r psPayload rtpTS rtpMarker)"

text \<open>One successful iteration of \<open>readLoop\<close>.\<close>

definition receivePacket ::
  "(bytes \<Rightarrow> rtp_packet option) \<Rightarrow> PSReceiver \<Rightarrow> bytes \<Rightarrow> (PSReceiver \<times> ps_event list) option" where
  "receivePacket unmarshal r data =
     (if ps_closed r then Some (r, [])
      else processPacket unmarshal
             (r\<lparr>ps_packetsRecv := ps_packetsRecv r + 1,
               ps_bytesRecv := ps_bytesRecv r + of_nat (length data)\<rparr>) data)"

section \<open>Specification\<close>

fun of_track :: "string \<Rightarrow> ps_event \<Rightarrow> bool" where
  "of_track i (TrackAdded t) \<longleftrightarrow> ti_ID t = i"
| "of_track i (FrameEvent j f) \<longleftrightarrow> j = i"

text \<open>
  The events of one track in a run of the receiver: the track is announced once, before its
  first frame, and its frames carry consecutive sequence numbers (modulo \<open>2^16\<close>).
\<close>

definition track_run :: "string \<Rightarrow> bool \<Rightarrow> u16 \<Rightarrow> ps_event list \<Rightarrow> bool \<Rightarrow> u16 \<Rightarrow> bool" where
  "track_run i reported seq evs reported' seq' \<longleftrightarrow>
     (\<exists>ann fs. filter (of_track i) evs = ann @ map (FrameEvent i) fs \<and>
        map fr_Sequence fs = map (\<lambda>k. seq + of_nat k) [0..<length fs] \<and>
        seq' = seq + of_nat (length fs) \<and>
        (if reported then ann = [] \<and> reported'
         else if reported' then \<exists>t. ann = [TrackAdded t]
         else ann = [] \<and> fs = []))"

abbreviation video_run :: "PSReceiver \<Rightarrow> ps_event list \<Rightarrow> PSReceiver \<Rightarrow> bool" where
  "video_run r evs r' \<equiv>
     track_run ''video'' (ps_videoReported r) (ps_videoSeq r) evs (ps_videoReported r') (ps_videoSeq r')"

abbreviation audio_run :: "PSReceiver \<Rightarrow> ps_event list \<Rightarrow> PSReceiver \<Rightarrow> bool" where
  "audio_run r evs r' \<equiv>
     track_run ''audio'' (ps_audioReported r) (ps_audioSeq r) evs (ps_audioReported r') (ps_audioSeq r')"

text \<open>Datagrams received one after the other.\<close>

fun receive_all ::
  "(bytes \<Rightarrow> rtp_packet option) \<Rightarrow> PSReceiver \<Rightarrow> bytes list \<Rightarrow> (PSReceiver \<times> ps_event list) option" where
  "receive_all unmarshal r [] = Some (r, [])"
| "receive_all unmarshal r (d # ds) =
     (case receivePacket unmarshal r d of
        None \<Rightarrow> None
      | Some (r, evs) \<Rightarrow> map_option (\<lambda>(r, evs'). (r, evs @ evs')) (receive_all unmarshal r ds))"

section \<open>The walk over start codes ends\<close>

lemma findStartCode_Some:
  "findStartCode data pos = Some i \<Longrightarrow> pos \<le> i \<and> i + 3 < length data"
  by (auto simp: findStartCode_def find_Some_iff)

lemma psStep_progress:
  "psStep r data start ts mk = Some (end, res) \<Longrightarrow> start < length data \<Longrightarrow> start < end"
  by (auto simp: psStep_def Let_def skipPackHeader_def skipSection_def parsePES_def split: if_splits)

lemma parsePS_loop_total:
  "length data - pos < f \<Longrightarrow> \<exists>res. parsePS_loop f r data pos ts mk = Some res"
proof (induction f arbitrary: r pos)
  case (Suc f)
  show ?case
  proof (cases "pos < length data")
    case True
    show ?thesis
    proof (cases "findStartCode data pos")
      case (Some start)
      then have s: "pos \<le> start" "start < length data" using findStartCode_Some by fastforce+
      show ?thesis
      proof (cases "psStep r data start ts mk")
        case (Some x)
        obtain e r' ev where x: "x = (e, r', ev)" by (cases x)
        with Some psStep_progress [of r data start ts mk] s have "start < e" by auto
        then have "length data - e < f" using s Suc.prems True by simp
        from Suc.IH [OF this, of r'] True Some x \<open>findStartCode data pos = Some start\<close>
        show ?thesis by auto
      qed (use True \<open>findStartCode data pos = Some start\<close> in simp)
    qed (use True in simp)
  qed simp
qed simp

lemma processPacket_returns: "\<exists>r' evs. processPacket unmarshal r data = Some (r', evs)"
proof -
  have "\<exists>r' evs. parsePSStream r d ts mk = Some (r', evs)" for d ts mk
    using parsePS_loop_total [of d 0 "length d + 1" r ts mk] by (auto simp: parsePSStream_def)
  then show ?thesis
    by (auto simp: processPacket_def Let_def split: option.splits)
qed

lemma receivePacket_total: "\<exists>r' evs. receivePacket unmarshal r data = Some (r', evs)"
  using processPacket_returns by (simp add: receivePacket_def)

section \<open>Time stamps\<close>

text \<open>The bits of the time stamp in each of its five bytes.\<close>

lemma pts_byte0:
  fixes pts :: u64 and pre one me :: u8 and ne :: u64
  assumes pre: "\<And>n. bit pre n \<Longrightarrow> \<not> bit me n" and one: "\<And>n. bit one n \<Longrightarrow> \<not> bit me n"
    and me: "\<And>n. bit me n \<longleftrightarrow> 1 \<le> n \<and> n < 4" and ne: "\<And>n. bit ne n \<longleftrightarrow> 1 \<le> n \<and> n < 4"
  shows "bit (push_bit 29 (ucast ((pre OR ucast (drop_bit 29 pts AND ne) OR one) AND me)) :: u64) n \<longleftrightarrow>
    30 \<le> n \<and> n < 33 \<and> bit pts n"
proof -
  define x where "x = (pre OR ucast (drop_bit 29 pts AND ne) OR one) AND me"
  have x: "bit x k \<longleftrightarrow> 1 \<le> k \<and> k < 4 \<and> bit pts (29 + k)" for k
    using pre [of k] one [of k] by (auto simp: x_def bit_simps me ne)
  show ?thesis unfolding x_def [symmetric]
    by (cases "29 \<le> n") (auto simp: bit_push_bit_iff bit_ucast_iff x dest: bit_imp_le_length)
qed

lemma pts_byte:
  fixes pts :: u64
  shows "bit (push_bit m (ucast (ucast (drop_bit m pts AND mask 8) :: u8)) :: u64) n \<longleftrightarrow>
    m \<le> n \<and> n < m + 8 \<and> bit pts n"
  by (auto simp: bit_simps dest: bit_imp_le_length)

lemma pts_marker_byte:
  fixes pts :: u64 and one mf :: u8
  assumes one: "\<And>n. bit one n \<Longrightarrow> \<not> bit mf n" and mf: "\<And>n. bit mf n \<longleftrightarrow> 1 \<le> n \<and> n < 8"
  shows "bit (push_bit m (ucast ((ucast (drop_bit m pts AND mask 8) OR one) AND mf)) :: u64) n \<longleftrightarrow>
    m < n \<and> n < m + 8 \<and> bit pts n"
proof -
  define x where "x = (ucast (drop_bit m pts AND mask 8) OR one) AND mf"
  have x: "bit x k \<longleftrightarrow> 1 \<le> k \<and> k < 8 \<and> bit pts (m + k)" for k
    using one [of k] by (auto simp: x_def bit_simps mf)
  show ?thesis unfolding x_def [symmetric]
    by (cases "m \<le> n") (auto simp: bit_push_bit_iff bit_ucast_iff x dest: bit_imp_le_length)
qed

lemma pts_low_byte:
  fixes pts :: u64 and one mf :: u8 and nf :: u64
  assumes one: "\<And>n. bit one n \<Longrightarrow> \<not> bit mf n" and mf: "\<And>n. bit mf n \<longleftrightarrow> 1 \<le> n \<and> n < 8"
    and nf: "\<And>n. bit nf n \<longleftrightarrow> 1 \<le> n \<and> n < 8"
    and q: "\<And>n. bit q n \<longleftrightarrow> 1 \<le> n \<and> n < 64 \<and> bit pts (n - 1)"
  shows "bit (drop_bit 1 (ucast ((ucast (q AND nf) OR one) AND mf)) :: u64) n \<longleftrightarrow> n < 7 \<and> bit pts n"
proof -
  define x where "x = (ucast (q AND nf) OR one) AND mf"
  have x: "bit x k \<longleftrightarrow> 1 \<le> k \<and> k < 8 \<and> bit pts (k - 1)" for k
    using one [of k] by (auto simp: x_def bit_simps mf nf q)
  show ?thesis unfolding x_def [symmetric]
    by (auto simp: bit_drop_bit_eq bit_ucast_iff x dest: bit_imp_le_length)
qed

lemma mask_bits:
  "bit (0x0E :: 'a::len word) n \<longleftrightarrow> 1 \<le> n \<and> n < 4 \<and> n < LENGTH('a)"
  "bit (0xFE :: 'a::len word) n \<longleftrightarrow> 1 \<le> n \<and> n < 8 \<and> n < LENGTH('a)"
proof -
  have "(0x0E :: 'a word) = push_bit 1 (mask 3)" "(0xFE :: 'a word) = push_bit 1 (mask 7)"
    by (simp_all add: mask_eq_exp_minus_1 push_bit_eq_mult)
  then show "bit (0x0E :: 'a::len word) n \<longleftrightarrow> 1 \<le> n \<and> n < 4 \<and> n < LENGTH('a)"
    "bit (0xFE :: 'a::len word) n \<longleftrightarrow> 1 \<le> n \<and> n < 8 \<and> n < LENGTH('a)"
    by (simp_all only: bit_push_bit_iff bit_mask_iff) auto
qed

text \<open>
  Time stamps survive: the receiver's \<open>parsePTS\<close> reads back every 33-bit time stamp that the
  HLS muxer's \<open>ptsBytes\<close> writes, with each of the three prefixes the muxer uses.
\<close>

lemma parsePTS_ptsBytes:
  assumes "pts < 2 ^ 33" "pre \<in> {0x21, 0x31, 0x11}"
  shows "parsePTS (ptsBytes pts pre @ rest) = pts"
proof -
  have pts: "bit pts n \<Longrightarrow> n < 33" for n
    using bit_small [of pts 33 n] assms(1) by (cases "n < 33") auto
  have one: "bit (0x01 :: u8) n \<longleftrightarrow> n = 0" for n by (simp add: bit_1_iff)
  have "pre AND 0x0E = 0" using assms(2) by auto
  then have pre: "bit pre n \<Longrightarrow> \<not> bit (0x0E :: u8) n" for n
    using bit_and_iff [of pre "0x0E" n] by simp
  have m8: "bit (0x0E :: u8) n \<longleftrightarrow> 1 \<le> n \<and> n < 4" "bit (0xFE :: u8) n \<longleftrightarrow> 1 \<le> n \<and> n < 8"
      "bit (0x0E :: u64) n \<longleftrightarrow> 1 \<le> n \<and> n < 4" "bit (0xFE :: u64) n \<longleftrightarrow> 1 \<le> n \<and> n < 8" for n
    by (simp_all only: mask_bits) auto
  have o8: "bit (0x01 :: u8) n \<Longrightarrow> \<not> bit (0x0E :: u8) n" "bit (0x01 :: u8) n \<Longrightarrow> \<not> bit (0xFE :: u8) n" for n
    by (simp_all only: m8 one) auto
  have q: "bit (push_bit 1 pts) n \<longleftrightarrow> 1 \<le> n \<and> n < 64 \<and> bit pts (n - 1)" for n
    by (auto simp only: bit_push_bit_iff) (auto dest: bit_imp_le_length)
  have m: "(0xFF :: u64) = mask 8" by (simp add: mask_eq_exp_minus_1)
  have b: "parsePTS (ptsBytes pts pre @ rest) =
      push_bit 29 (ucast ((pre OR ucast (drop_bit 29 pts AND 0x0E) OR 0x01) AND 0x0E)) OR
      push_bit 22 (ucast (ucast (drop_bit 22 pts AND mask 8) :: u8)) OR
      push_bit 14 (ucast ((ucast (drop_bit 14 pts AND mask 8) OR 0x01) AND (0xFE :: u8))) OR
      push_bit 7 (ucast (ucast (drop_bit 7 pts AND mask 8) :: u8)) OR
      drop_bit 1 (ucast ((ucast (push_bit 1 pts AND 0xFE) OR 0x01) AND (0xFE :: u8)))"
    unfolding parsePTS_def ptsBytes_def m by (simp del: push_bit_of_1)
  show ?thesis
  proof (rule bit_word_eqI)
    fix n assume "n < LENGTH(64)"
    have "bit (parsePTS (ptsBytes pts pre @ rest)) n \<longleftrightarrow>
        30 \<le> n \<and> n < 33 \<and> bit pts n \<or> 22 \<le> n \<and> n < 22 + 8 \<and> bit pts n \<or>
        14 < n \<and> n < 14 + 8 \<and> bit pts n \<or> 7 \<le> n \<and> n < 7 + 8 \<and> bit pts n \<or> n < 7 \<and> bit pts n"
      unfolding b bit_or_iff
      by (simp only: pts_byte0 [OF pre o8(1) m8(1,3)] pts_byte pts_marker_byte [OF o8(2) m8(2)]
            pts_low_byte [OF o8(2) m8(2,4) q])
    then show "bit (parsePTS (ptsBytes pts pre @ rest)) n \<longleftrightarrow> bit pts n" using pts [of n] by auto
  qed
qed

section \<open>PES headers\<close>

text \<open>
  C31. PES time stamps are lost. On a PES packet with a standard header, as the HLS muxer builds
  it with one or two time stamps, \<open>parsePES\<close> finds the payload but never a time stamp: it tests
  the time-stamp flags in the byte that holds the header length.
\<close>

theorem parsePES_misses_PTS:
  "\<exists>pes. parsePES (buildPESHeader sid es pts dts @ es) 0 =
      Some (pes, length (buildPESHeader sid es pts dts @ es)) \<and>
    pes_Payload pes = es \<and> pes_StreamID pes = sid \<and> \<not> pes_HasPTS pes \<and> \<not> pes_HasDTS pes"
proof -
  let ?hl = "if pts = dts then 5 else 10 :: nat"
  let ?h = "buildPESHeader sid es pts dts"
  let ?len = "?hl + 3 + length es"
  let ?f = "if ?len > 0xFFFF then 0 else ?len"
  have h: "length ?h = 9 + ?hl" "?h ! 3 = sid" "?h ! 4 = of_nat (?f div 256)"
      "?h ! 5 = of_nat (?f mod 256)" "?h ! 8 = of_nat ?hl"
    by (simp_all add: buildPESHeader_def Let_def ptsBytes_def)
  have f: "u16_at (?h @ es) (0 + 4) = of_nat ?f"
    using join16_of_nat [of ?f] h by (simp add: u16_at_def nth_append)
  have uf: "unat (of_nat ?f :: u16) = ?f" by (rule unat_of_nat_small) simp
  have hl: "unat (of_nat ?hl :: u8) = ?hl" "of_nat ?hl AND 0xC0 = (0 :: u8)" by simp_all
  have e: "(if ?f = 0 then length (?h @ es) else 0 + 6 + ?f) = length (?h @ es)" using h(1) by simp
  have b8: "(?h @ es) ! (0 + 8) = of_nat ?hl" "(?h @ es) ! (0 + 3) = sid"
    using h by (simp_all add: nth_append)
  show ?thesis
    unfolding parsePES_def Let_def b8 f uf hl e
    using h(1) by simp
qed

lemma track_run_refl: "track_run i rep seq [] rep seq"
  by (auto simp: track_run_def)

lemma track_run_other: "filter (of_track i) evs = [] \<Longrightarrow> track_run i rep seq evs rep seq"
  by (auto simp: track_run_def)

lemma track_run_announce:
  "filter (of_track i) evs = [TrackAdded t] \<Longrightarrow> track_run i False seq evs True seq"
  unfolding track_run_def by (intro exI [of _ "[TrackAdded t]"] exI [of _ "[]"]) simp

lemma track_run_frame:
  "filter (of_track i) evs = [FrameEvent i f] \<Longrightarrow> fr_Sequence f = seq \<Longrightarrow>
   track_run i True seq evs True (seq + 1)"
  unfolding track_run_def by (intro exI [of _ "[]"] exI [of _ "[f]"]) simp

lemma track_run_single [simp]:
  "ti_ID t = i \<Longrightarrow> track_run i False seq [TrackAdded t] True seq"
  "ti_ID t \<noteq> i \<Longrightarrow> track_run i rep seq [TrackAdded t] rep seq"
  "i \<noteq> j \<Longrightarrow> track_run i rep seq [FrameEvent j f] rep seq"
  by (simp_all add: track_run_announce track_run_other)

lemma numbers_append:
  fixes a :: u16
  assumes "map fr_Sequence fs = map (\<lambda>k. a + of_nat k) [0..<length fs]"
    and "map fr_Sequence gs = map (\<lambda>k. (a + of_nat (length fs)) + of_nat k) [0..<length gs]"
  shows "map fr_Sequence (fs @ gs) = map (\<lambda>k. a + of_nat k) [0..<length (fs @ gs)]"
proof -
  have "map (\<lambda>k. a + of_nat k) [length fs..<length fs + length gs] =
      map (\<lambda>k. (a + of_nat (length fs)) + of_nat k) [0..<length gs]"
    by (rule nth_equalityI) (auto simp: add.assoc)
  then show ?thesis using assms by (simp add: upt_add_eq_append [of 0])
qed

lemma track_run_trans:
  assumes "track_run i a s e b t" "track_run i b t e' c u"
  shows "track_run i a s (e @ e') c u"
proof -
  obtain ann fs where 1: "filter (of_track i) e = ann @ map (FrameEvent i) fs"
      "map fr_Sequence fs = map (\<lambda>k. s + of_nat k) [0..<length fs]" "t = s + of_nat (length fs)"
      "if a then ann = [] \<and> b else if b then \<exists>t. ann = [TrackAdded t] else ann = [] \<and> fs = []"
    using assms(1) unfolding track_run_def by blast
  obtain ann' gs where 2: "filter (of_track i) e' = ann' @ map (FrameEvent i) gs"
      "map fr_Sequence gs = map (\<lambda>k. t + of_nat k) [0..<length gs]" "u = t + of_nat (length gs)"
      "if b then ann' = [] \<and> c else if c then \<exists>t. ann' = [TrackAdded t] else ann' = [] \<and> gs = []"
    using assms(2) unfolding track_run_def by blast
  have n: "map fr_Sequence (fs @ gs) = map (\<lambda>k. s + of_nat k) [0..<length (fs @ gs)]"
    using 1(2,3) 2(2) by (intro numbers_append) simp_all
  show ?thesis
    unfolding track_run_def
    by (rule exI [of _ "ann @ ann'"], rule exI [of _ "fs @ gs"])
       (use 1 2 n in \<open>auto split: if_splits\<close>)
qed

lemma forwardNALs_runs:
  "forwardNALs r ts mk nals = (r', evs) \<Longrightarrow> ps_videoReported r \<Longrightarrow>
   video_run r evs r' \<and> audio_run r evs r' \<and> ps_closed r' = ps_closed r"
proof (induction nals arbitrary: r evs)
  case (Cons nal nals)
  show ?case
  proof (cases "nal = []")
    case False
    let ?r = "r\<lparr>ps_videoSeq := ps_videoSeq r + 1\<rparr>"
    obtain f evs' where f: "forwardNALs ?r ts mk nals = (r', evs')" "evs = FrameEvent ''video'' f # evs'"
      "fr_Sequence f = ps_videoSeq r"
      using Cons.prems(1) False by (auto simp: Let_def split: prod.splits)
    have IH: "video_run ?r evs' r'" "audio_run ?r evs' r'" "ps_closed r' = ps_closed r"
      using Cons.IH [OF f(1)] Cons.prems(2) by simp_all
    have "track_run ''video'' True (ps_videoSeq r) [FrameEvent ''video'' f] True (ps_videoSeq r + 1)"
      by (rule track_run_frame [OF _ f(3)]) simp
    then have "video_run r ([FrameEvent ''video'' f] @ evs') r'"
      using IH(1) Cons.prems(2) by (intro track_run_trans [of _ _ _ "[FrameEvent ''video'' f]"]) simp_all
    moreover have "track_run ''audio'' (ps_audioReported r) (ps_audioSeq r) [FrameEvent ''video'' f]
        (ps_audioReported r) (ps_audioSeq r)"
      by (rule track_run_other) simp
    then have "audio_run r ([FrameEvent ''video'' f] @ evs') r'"
      using IH(2) by (intro track_run_trans [of _ _ _ "[FrameEvent ''video'' f]"]) simp_all
    ultimately show ?thesis using f(2) IH(3) by simp
  qed (use Cons in simp)
qed (simp add: track_run_refl)

lemma handleVideoPES_runs:
  assumes "handleVideoPES r pes ts mk = (r', evs)"
  shows "video_run r evs r' \<and> audio_run r evs r' \<and> ps_closed r' = ps_closed r"
proof (cases "pes_Payload pes = []")
  case True
  then show ?thesis using assms by (simp add: handleVideoPES_def track_run_refl)
next
  case False
  obtain r1 ev where rep: "reportVideoTrack r = (r1, ev)" by (cases "reportVideoTrack r")
  obtain evs' where f: "forwardNALs r1 ts mk (splitAnnexB (pes_Payload pes)) = (r', evs')" "evs = ev @ evs'"
    using assms False rep by (auto simp: handleVideoPES_def Let_def split: prod.splits)
  have r1: "video_run r ev r1" "audio_run r ev r1" "ps_videoReported r1" "ps_closed r1 = ps_closed r"
    using rep by (auto simp: reportVideoTrack_def track_run_refl
        split: if_splits)
  then show ?thesis
    using forwardNALs_runs [OF f(1) r1(3)] f(2) by (auto intro: track_run_trans)
qed

lemma handleAudioPES_runs:
  assumes "handleAudioPES r pes ts = (r', evs)"
  shows "video_run r evs r' \<and> audio_run r evs r' \<and> ps_closed r' = ps_closed r"
proof (cases "pes_Payload pes = []")
  case True
  then show ?thesis using assms by (simp add: handleAudioPES_def track_run_refl)
next
  case False
  obtain r1 ev where rep: "reportAudioTrack r = (r1, ev)" by (cases "reportAudioTrack r")
  obtain f where f: "evs = ev @ [FrameEvent ''audio'' f]" "fr_Sequence f = ps_audioSeq r1"
    and r': "r' = r1\<lparr>ps_audioSeq := ps_audioSeq r1 + 1\<rparr>"
    using assms False rep by (auto simp: handleAudioPES_def Let_def split: prod.splits)
  have r1: "video_run r ev r1" "audio_run r ev r1" "ps_audioReported r1" "ps_closed r1 = ps_closed r"
    using rep by (auto simp: reportAudioTrack_def track_run_refl
        split: if_splits)
  have "audio_run r1 [FrameEvent ''audio'' f] r'" unfolding r'
    using f(2) r1(3) track_run_frame [of "''audio''" "[FrameEvent ''audio'' f]" f] by simp
  moreover have "video_run r1 [FrameEvent ''audio'' f] r'" unfolding r'
    by simp
  ultimately show ?thesis unfolding f(1) using r1 r' by (auto intro: track_run_trans)
qed

lemma psStep_runs:
  "psStep r data start ts mk = Some (e, r', evs) \<Longrightarrow>
   video_run r evs r' \<and> audio_run r evs r' \<and> ps_closed r' = ps_closed r"
  unfolding psStep_def Let_def
  by (auto simp: track_run_refl split: if_splits dest!: handleVideoPES_runs handleAudioPES_runs)

lemma parsePS_loop_runs:
  "parsePS_loop f r data pos ts mk = Some (r', evs) \<Longrightarrow>
   video_run r evs r' \<and> audio_run r evs r' \<and> ps_closed r' = ps_closed r"
proof (induction f arbitrary: r pos evs)
  case (Suc f)
  show ?case
  proof (cases "\<exists>start e r1 ev evs'. pos < length data \<and> findStartCode data pos = Some start \<and>
      psStep r data start ts mk = Some (e, r1, ev) \<and> parsePS_loop f r1 data e ts mk = Some (r', evs') \<and>
      evs = ev @ evs'")
    case True
    then obtain start e r1 ev evs' where s: "psStep r data start ts mk = Some (e, r1, ev)"
      "parsePS_loop f r1 data e ts mk = Some (r', evs')" "evs = ev @ evs'" by blast
    from psStep_runs [OF s(1)] Suc.IH [OF s(2)] s(3) show ?thesis by (auto intro: track_run_trans)
  next
    case False
    with Suc.prems have "r' = r" "evs = []" by (auto split: if_splits option.splits)
    then show ?thesis by (simp add: track_run_refl)
  qed
qed simp

lemma processPacket_cases:
  "\<exists>d ts mk. processPacket unmarshal r data =
     (if length d = 0 then Some (r, []) else parsePSStream r d ts mk)"
  unfolding processPacket_def Let_def split_beta by (rule exI)+ (rule refl)

lemma receivePacket_runs:
  assumes "receivePacket unmarshal r data = Some (r', evs)"
  shows "video_run r evs r' \<and> audio_run r evs r' \<and> ps_closed r' = ps_closed r"
proof (cases "ps_closed r")
  case True
  then show ?thesis using assms by (simp add: receivePacket_def track_run_refl)
next
  case False
  let ?r = "r\<lparr>ps_packetsRecv := ps_packetsRecv r + 1, ps_bytesRecv := ps_bytesRecv r + of_nat (length data)\<rparr>"
  have "processPacket unmarshal ?r data = Some (r', evs)"
    using assms False by (simp add: receivePacket_def)
  moreover obtain d ts mk where "processPacket unmarshal ?r data =
      (if length d = 0 then Some (?r, []) else parsePSStream ?r d ts mk)"
    using processPacket_cases by blast
  ultimately have "(if length d = 0 then Some (?r, []) else parsePSStream ?r d ts mk) = Some (r', evs)"
    by (simp only:)
  note res = this
  show ?thesis
  proof (cases "length d = 0")
    case True
    with res have "r' = ?r" "evs = []" by simp_all
    then show ?thesis by (simp add: track_run_refl)
  next
    case False
    with res have "parsePSStream ?r d ts mk = Some (r', evs)" by (simp only: if_False)
    from parsePS_loop_runs [OF this [unfolded parsePSStream_def]] show ?thesis by simp
  qed
qed

text \<open>
  C20. Events of a receiver. For any sequence of datagrams and any \<open>Unmarshal\<close>, the receiver
  handles all of them; of each of its two tracks it announces the track at most once, before the
  first frame and only then, and numbers its frames consecutively.
\<close>

theorem receive_all_runs:
  "\<exists>r' evs. receive_all unmarshal r ds = Some (r', evs) \<and> video_run r evs r' \<and> audio_run r evs r'"
proof (induction ds arbitrary: r)
  case (Cons d ds)
  have "\<exists>r1 ev. receivePacket unmarshal r d = Some (r1, ev)"
    using receivePacket_total by blast
  then obtain r1 ev where 1: "receivePacket unmarshal r d = Some (r1, ev)" by blast
  obtain r' evs where 2: "receive_all unmarshal r1 ds = Some (r', evs)" "video_run r1 evs r'" "audio_run r1 evs r'"
    using Cons.IH [of r1] by blast
  from receivePacket_runs [OF 1] 1 2 show ?case by (auto intro: track_run_trans)
qed (simp add: track_run_refl)

section \<open>Splitting Annex-B payloads\<close>

lemma find_upt_first:
  assumes "a \<le> j" "j < b" "P j" "\<And>k. a \<le> k \<Longrightarrow> k < j \<Longrightarrow> \<not> P k"
  shows "find P [a..<b] = Some j"
  unfolding find_Some_iff using assms by (intro exI [of _ "j - a"]) auto

lemma nextCode_code3:
  "nextCode d s = find (code3 d) [s + 1..<length d - 3]"
  unfolding nextCode_def by (rule find_cong) (auto simp: code3_def)

lemma startCodeLen_codes:
  "startCodeLen d i = (if code4 d i then 4 else if code3 d i then 3 else 0)"
  by (auto simp: startCodeLen_def code3_def code4_def)

text \<open>
  A unit behind a start code, followed by another one: the search finds the last three bytes
  of the next start code, \<open>z\<close> being the zero byte in front of them if it has four.
\<close>

lemma splitAnnexB_more:
  fixes p q :: bytes
  assumes n: "nal_ok n" and m: "m \<noteq> []" and z: "z = [] \<or> z = [0]"
    and c: "sc = [0, 0, 1] \<or> sc = [0, 0, 0, 1]"
  defines "d \<equiv> p @ sc @ n @ z @ [0, 0, 1] @ m @ q"
  shows "splitAnnexB_from d (length p) =
           (n @ z) # splitAnnexB_from d (length p + length sc + length n + length z)"
proof -
  let ?s = "length p + length sc" and ?j = "length p + length sc + length n + length z"
  have sl: "startCodeLen d (length p) = length sc"
  proof (rule disjE [OF c])
    assume "sc = [0, 0, 1]"
    moreover from this have "\<not> code4 d (length p)" by (simp add: d_def code4_def nth_append)
    ultimately show ?thesis using code3_at_start [of p] by (simp add: startCodeLen_codes d_def)
  next
    assume "sc = [0, 0, 0, 1]"
    then show ?thesis using code4_at_start [of p] by (simp add: startCodeLen_codes d_def)
  qed
  have j: "code3 d ?j"
    using code3_at_start [of "p @ sc @ n @ z" "m @ q"] by (simp add: d_def add.assoc)
  have no: "\<not> code3 d k" if "?s \<le> k" "k < ?j" for k
  proof (cases "k < ?s + length n")
    case True
    then show ?thesis
      using no_code3_in_unit [OF n, of "p @ sc" k "z @ [0, 0, 1] @ m @ q"] that by (simp add: d_def)
  next
    case False
    with that z have "z = [0]" "k = length (p @ sc @ n)" by auto
    then show ?thesis using code4_at_start(2) [of "p @ sc @ n" "m @ q"] by (simp add: d_def)
  qed
  have "0 < length n" "0 < length m" using n m by (auto simp: nal_ok_def)
  then have "nextCode d ?s = Some ?j"
    unfolding nextCode_code3 using j no by (intro find_upt_first) (auto simp: d_def Suc_le_eq)
  moreover have "take (?j - ?s) (drop ?s d) = n @ z" by (simp add: d_def)
  ultimately show ?thesis
    using sl c by (subst splitAnnexB_from.simps) (auto simp: d_def Let_def)
qed

lemma splitAnnexB_last:
  assumes n: "nal_ok n" and c: "sc = [0, 0, 1] \<or> sc = [0, 0, 0, 1]"
  shows "splitAnnexB_from (p @ sc @ n) (length p) = [n]"
proof -
  let ?s = "length p + length sc" and ?d = "p @ sc @ n"
  have sl: "startCodeLen ?d (length p) = length sc"
  proof (rule disjE [OF c])
    assume "sc = [0, 0, 1]"
    moreover from this have "\<not> code4 ?d (length p)" by (simp add: code4_def nth_append)
    ultimately show ?thesis using code3_at_start [of p] by (simp add: startCodeLen_codes)
  next
    assume "sc = [0, 0, 0, 1]"
    then show ?thesis using code4_at_start [of p] by (simp add: startCodeLen_codes)
  qed
  have "nextCode ?d ?s = None"
    unfolding nextCode_code3 find_None_iff
    using no_code3_in_unit [OF n, of "p @ sc" _ "[]"] by auto
  then show ?thesis
    using sl c by (subst splitAnnexB_from.simps) (auto simp: Let_def)
qed

lemma splitAnnexB_from3:
  "list_all nal_ok (n # ns) \<Longrightarrow>
   splitAnnexB_from (p @ annexB (n # ns)) (length p) = n # ns"
proof (induction ns arbitrary: n p)
  case Nil
  then show ?case using splitAnnexB_last [of n "[0, 0, 1]" p] by (simp add: annexB_def)
next
  case (Cons m ns)
  then have n: "nal_ok n" "m \<noteq> []" by (auto simp: nal_ok_def)
  have "splitAnnexB_from (p @ annexB (n # m # ns)) (length p) =
      n # splitAnnexB_from ((p @ [0, 0, 1] @ n) @ annexB (m # ns)) (length (p @ [0, 0, 1] @ n))"
    using splitAnnexB_more [OF n(1,2), of "[]" "[0, 0, 1]" p "annexB ns"] by (simp add: annexB_def)
  also have "\<dots> = n # m # ns" using Cons.IH [of m "p @ [0, 0, 1] @ n"] Cons.prems by simp
  finally show ?case .
qed

interpretation gb_split: nal_splitter splitAnnexB
proof
  fix nals assume "list_all nal_ok nals"
  then show "splitAnnexB (annexB nals) = nals"
    using splitAnnexB_from3 [of "hd nals" "tl nals" "[]"]
    by (cases nals) (simp_all add: splitAnnexB_def annexB_def splitAnnexB_from.simps)
qed

lemma splitAnnexB_from4:
  "list_all nal_ok (n # ns) \<Longrightarrow>
   splitAnnexB_from (p @ [0, 0, 1] @ n @ annexB4 ns) (length p) =
     map (\<lambda>n. n @ [0]) (butlast (n # ns)) @ [last (n # ns)]"
proof (induction ns arbitrary: n p)
  case Nil
  then show ?case using splitAnnexB_last [of n "[0, 0, 1]" p] by (simp add: annexB4_def)
next
  case (Cons m ns)
  then have n: "nal_ok n" "m \<noteq> []" by (auto simp: nal_ok_def)
  have "splitAnnexB_from (p @ [0, 0, 1] @ n @ annexB4 (m # ns)) (length p) =
      (n @ [0]) # splitAnnexB_from ((p @ [0, 0, 1] @ n @ [0]) @ [0, 0, 1] @ m @ annexB4 ns)
        (length (p @ [0, 0, 1] @ n @ [0]))"
    using splitAnnexB_more [OF n(1,2), of "[0]" "[0, 0, 1]" p "annexB4 ns"] by (simp add: annexB4_def)
  also have "\<dots> = (n @ [0]) # map (\<lambda>n. n @ [0]) (butlast (m # ns)) @ [last (m # ns)]"
    using Cons.IH [of m "p @ [0, 0, 1] @ n @ [0]"] Cons.prems by simp
  finally show ?case by simp
qed

text \<open>
  Both splitters take apart what they are meant for: a stream of NAL units behind three-byte
  start codes comes back as exactly those units, from the SRT and from the GB28181 receiver.
\<close>

lemma splitters_agree:
  assumes "list_all nal_ok nals"
  shows "splitNALUnits (annexB nals) = nals \<and> splitAnnexB (annexB nals) = nals"
  using srt_split.split_annexB [OF assms] gb_split.split_annexB [OF assms] by blast

text \<open>
  With four-byte start codes the two receivers differ: the SRT splitter still returns the
  units, the GB28181 splitter leaves the first byte of the following start code at the end of
  every unit but the last.
\<close>

lemma splitters_differ_on_long_codes:
  assumes "list_all nal_ok nals" "nals \<noteq> []"
  shows "splitNALUnits (annexB4 nals) = nals \<and>
    splitAnnexB (annexB4 nals) = map (\<lambda>n. n @ [0]) (butlast nals) @ [last nals]"
proof -
  obtain n ns where nals: "nals = n # ns" using assms(2) by (cases nals) auto
  then have n: "nal_ok n" using assms(1) by simp
  have "splitAnnexB_from (annexB4 nals) 0 = map (\<lambda>n. n @ [0]) (butlast nals) @ [last nals]"
  proof (cases ns)
    case Nil
    then show ?thesis using splitAnnexB_last [OF n, of "[0, 0, 0, 1]" "[]"] by (simp add: nals annexB4_def)
  next
    case (Cons m ms)
    then have m: "m \<noteq> []" "list_all nal_ok (m # ms)" using assms(1) nals by (auto simp: nal_ok_def)
    have "splitAnnexB_from (annexB4 nals) 0 = (n @ [0]) # splitAnnexB_from
        (([0, 0, 0, 1] @ n @ [0]) @ [0, 0, 1] @ m @ annexB4 ms) (length ([0, 0, 0, 1] @ n @ [0]))"
      using splitAnnexB_more [OF n m(1), of "[0]" "[0, 0, 0, 1]" "[]" "annexB4 ms"]
      by (simp add: nals Cons annexB4_def)
    also have "\<dots> = (n @ [0]) # map (\<lambda>n. n @ [0]) (butlast (m # ms)) @ [last (m # ms)]"
      using splitAnnexB_from4 [OF m(2), of "[0, 0, 0, 1] @ n @ [0]"] by simp
    finally show ?thesis by (simp add: nals Cons)
  qed
  moreover have "splitNALUnits (annexB4 nals) = nals"
    unfolding annexB4_def by (rule splitNALUnits_coded [OF _ assms(1)]) simp
  ultimately show ?thesis by (simp add: splitAnnexB_def)
qed

end
