(* ===== verification/GoText.thy ===== *)
theory GoText
  imports Complex_Main Prelude
begin

text \<open>
  What the streaming servers use of Go's standard library to print text: \<open>fmt.Sprintf\<close> with
  \<open>%d\<close> and \<open>%.3f\<close>, \<open>time.Duration.Seconds\<close>, the \<open>strings\<close> functions of the URL handlers and the
  responses of \<open>net/http\<close>. Floating-point values are rationals with the rounding of IEEE
  double precision written out (magnitudes below the normal range do not occur).
\<close>

section \<open>Decimal numbers\<close>

definition digit :: "nat \<Rightarrow> char" where
  "digit d = char_of (48 + d)"

fun itoa :: "nat \<Rightarrow> string" where
  "itoa n = (if n < 10 then [digit n] else itoa (n div 10) @ [digit (n mod 10)])"

declare itoa.simps [simp del]

section \<open>Double precision\<close>

text \<open>Rounding to the nearest integer, ties to even, and to 53 significant bits.\<close>

definition rne :: "rat \<Rightarrow> int" where
  "rne r =
     (let f = \<lfloor>r\<rfloor>; d = r - of_int f in
      if d < 1/2 \<or> d = 1/2 \<and> even f then f else f + 1)"

function ilog2 :: "int \<Rightarrow> int" where
  "ilog2 n = (if n \<le> 1 then 0 else 1 + ilog2 (n div 2))"
  by auto
termination
  by (relation "measure nat") auto

declare ilog2.simps [simp del]

definition round53 :: "rat \<Rightarrow> rat" where
  "round53 x =
     (if x = 0 then 0 else
      let (p, q) = quotient_of \<bar>x\<bar>;
          k = ilog2 p - ilog2 q;
          e = (if 2 powi k \<le> \<bar>x\<bar> then k else k - 1);
          ulp = 2 powi (e - 52) in
      sgn x * of_int (rne (\<bar>x\<bar> / ulp)) * ulp)"

text \<open>A \<open>time.Duration\<close> is its number of nanoseconds; Go's division truncates towards zero.\<close>

definition go_quot :: "int \<Rightarrow> int \<Rightarrow> int" where
  "go_quot a b = sgn a * sgn b * (\<bar>a\<bar> div \<bar>b\<bar>)"

definition Seconds :: "int \<Rightarrow> rat" where
  "Seconds d =
     (let sec = go_quot d 1000000000; nsec = d - sec * 1000000000 in
      round53 (of_int sec + round53 (of_int nsec / 1000000000)))"

text \<open>The conversion \<open>int(f)\<close>, and \<open>%.3f\<close>.\<close>

definition go_trunc :: "rat \<Rightarrow> int" where
  "go_trunc x = (if x < 0 then - \<lfloor>- x\<rfloor> else \<lfloor>x\<rfloor>)"

definition fmt3 :: "rat \<Rightarrow> string" where
  "fmt3 x =
     (let k = nat (rne (\<bar>x\<bar> * 1000)) in
      (if x < 0 then ''-'' else '''') @ itoa (k div 1000) @ ''.'' @
      [digit (k div 100 mod 10), digit (k div 10 mod 10), digit (k mod 10)])"

text \<open>\<open>%d\<close> of a signed integer.\<close>

definition fmt_int :: "int \<Rightarrow> string" where
  "fmt_int i = (if i < 0 then ''-'' @ itoa (nat (- i)) else itoa (nat i))"

section \<open>strings and net/http\<close>

definition TrimPrefix :: "string \<Rightarrow> string \<Rightarrow> string" where
  "TrimPrefix s p = (if take (length p) s = p then drop (length p) s else s)"

definition HasSuffix :: "string \<Rightarrow> string \<Rightarrow> bool" where
  "HasSuffix s x = (length x \<le> length s \<and> drop (length s - length x) s = x)"

definition Contains :: "string \<Rightarrow> string \<Rightarrow> bool" where
  "Contains s x = (\<exists>i \<in> set [0..<length s + 1]. take (length x) (drop i s) = x)"

text \<open>\<open>SplitN(s, sep, 2)\<close> for a separator of one character.\<close>

definition SplitN2 :: "string \<Rightarrow> char \<Rightarrow> string list" where
  "SplitN2 s c =
     (case dropWhile (\<lambda>x. x \<noteq> c) s of
        [] \<Rightarrow> [s]
      | _ # r \<Rightarrow> [takeWhile (\<lambda>x. x \<noteq> c) s, r])"

record HttpResponse =
  rsp_Status :: nat
  rsp_ContentType :: string
  rsp_CacheControl :: string
  rsp_Body :: bytes

definition nl :: string where "nl = [CHR 0x0A]"
definition dq :: string where "dq = [CHR 0x22]"

definition http_Error :: "string \<Rightarrow> nat \<Rightarrow> HttpResponse" where
  "http_Error msg code =
     \<lparr>rsp_Status = code, rsp_ContentType = ''text/plain; charset=utf-8'', rsp_CacheControl = '''',
      rsp_Body = lit (msg @ nl)\<rparr>"

section \<open>Lemmas\<close>

lemma digit_inj: "a < 10 \<Longrightarrow> b < 10 \<Longrightarrow> digit a = digit b \<longleftrightarrow> a = b"
  by (simp add: digit_def char_of_eq_iff take_bit_nat_eq_self)

lemma itoa_nonempty [simp]: "itoa n \<noteq> []"
  by (subst itoa.simps) simp

lemma itoa_nonempty' [simp]: "[] \<noteq> itoa n"
  by (metis itoa_nonempty)

lemma itoa_digits: "c \<in> set (itoa n) \<Longrightarrow> \<exists>d < 10. c = digit d"
proof (induction n rule: itoa.induct)
  case (1 n)
  show ?case
  proof (cases "n < 10")
    case True
    with 1 show ?thesis by (subst (asm) (2) itoa.simps) auto
  next
    case False
    with "1.prems" have "c \<in> set (itoa (n div 10)) \<or> c = digit (n mod 10)"
      by (subst (asm) itoa.simps) auto
    moreover have "\<exists>d < 10. digit (n mod 10) = digit d" by (rule exI [of _ "n mod 10"]) simp
    ultimately show ?thesis using "1.IH" False by metis
  qed
qed

lemma itoa_small: "n < 10 \<Longrightarrow> itoa n = [digit n]"
  by (subst itoa.simps) simp

lemma itoa_big: "10 \<le> n \<Longrightarrow> itoa n = itoa (n div 10) @ [digit (n mod 10)]"
  by (subst itoa.simps) simp

lemma itoa_inj [simp]: "itoa m = itoa n \<longleftrightarrow> m = n"
proof (induction m arbitrary: n rule: itoa.induct)
  case (1 m)
  show ?case
  proof (cases "m < 10 \<or> n < 10")
    case True
    then show ?thesis
      by (cases "m < 10"; cases "n < 10") (auto simp: itoa_small itoa_big digit_inj not_less)
  next
    case False
    then have "itoa m = itoa n \<longleftrightarrow> m div 10 = n div 10 \<and> m mod 10 = n mod 10"
      using 1 by (simp add: itoa_big digit_inj)
    then show ?thesis by (metis div_mod_decomp)
  qed
qed

text \<open>A character that is not a digit separates a number from what follows.\<close>

definition is_digit :: "char \<Rightarrow> bool" where
  "is_digit c = (48 \<le> (of_char c :: nat) \<and> (of_char c :: nat) < 58)"

lemma is_digit_digit [simp]: "d < 10 \<Longrightarrow> is_digit (digit d)"
  by (simp add: is_digit_def digit_def)

lemma itoa_is_digit: "c \<in> set (itoa n) \<Longrightarrow> is_digit c"
  using itoa_digits [of c n] by auto

lemma takeWhile_itoa:
  "\<not> is_digit c \<Longrightarrow> takeWhile is_digit (itoa n @ c # r) = itoa n"
  using itoa_is_digit by (simp add: takeWhile_append2)

lemma itoa_sep_inj:
  assumes "\<not> is_digit c" "\<not> is_digit d"
  shows "itoa m @ c # r = itoa n @ d # s \<longleftrightarrow> m = n \<and> c = d \<and> r = s"
proof
  assume *: "itoa m @ c # r = itoa n @ d # s"
  then have "itoa m = itoa n"
    using takeWhile_itoa assms by metis
  with * show "m = n \<and> c = d \<and> r = s" by auto
qed auto

lemma digit_not_nl: "\<not> is_digit c \<Longrightarrow> c \<notin> set (itoa n)"
  using itoa_is_digit by blast

lemma fmt3_chars: "c \<in> set (fmt3 x) \<Longrightarrow> is_digit c \<or> c = CHR ''.'' \<or> c = CHR ''-''"
  using itoa_is_digit by (auto simp: fmt3_def Let_def split: if_splits)

lemma dropWhile_sep: "c \<notin> set a \<Longrightarrow> dropWhile (\<lambda>x. x \<noteq> c) (a @ c # r) = c # r"
  by (induction a) auto

lemma takeWhile_sep: "c \<notin> set a \<Longrightarrow> takeWhile (\<lambda>x. x \<noteq> c) (a @ c # r) = a"
  by (induction a) auto

lemma SplitN2_none: "c \<notin> set s \<Longrightarrow> SplitN2 s c = [s]"
proof -
  assume "c \<notin> set s"
  then have "dropWhile (\<lambda>x. x \<noteq> c) s = []" by (auto simp: dropWhile_eq_Nil_conv)
  then show ?thesis unfolding SplitN2_def by (simp only: list.case)
qed

lemma SplitN2_sep: "c \<notin> set a \<Longrightarrow> SplitN2 (a @ c # r) c = [a, r]"
  by (simp add: SplitN2_def dropWhile_sep takeWhile_sep)

lemma TrimPrefix_append [simp]: "TrimPrefix (p @ s) p = s"
  by (simp add: TrimPrefix_def)

lemma HasSuffix_iff: "HasSuffix s x \<longleftrightarrow> (\<exists>p. s = p @ x)"
  by (auto simp: HasSuffix_def intro: exI [of _ "take (length s - length x) s"])
     (metis append_take_drop_id)

lemma HasSuffix_append [simp]: "HasSuffix (s @ x) x"
  by (simp add: HasSuffix_def)

section \<open>Whole numbers are exact\<close>

lemma ilog2_one [simp]: "ilog2 1 = 0"
  by (subst ilog2.simps) simp

lemma ilog2_bounds: "1 \<le> n \<Longrightarrow> 0 \<le> ilog2 n \<and> 2 ^ nat (ilog2 n) \<le> n \<and> n < 2 ^ Suc (nat (ilog2 n))"
proof (induction n rule: ilog2.induct)
  case (1 n)
  show ?case
  proof (cases "n \<le> 1")
    case True
    with 1 have "n = 1" by simp
    then show ?thesis by simp
  next
    case False
    then have h: "0 \<le> ilog2 (n div 2) \<and> 2 ^ nat (ilog2 (n div 2)) \<le> n div 2 \<and>
        n div 2 < 2 ^ Suc (nat (ilog2 (n div 2)))" using "1.IH" by simp
    have l: "ilog2 n = 1 + ilog2 (n div 2)" using False by (simp add: ilog2.simps [of n])
    then have "nat (ilog2 n) = Suc (nat (ilog2 (n div 2)))" using h by linarith
    then show ?thesis using h l by (simp only: power_Suc) linarith
  qed
qed

lemma rne_of_int [simp]: "rne (of_int n) = n"
  by (simp add: rne_def)

lemma round53_of_int:
  assumes "\<bar>n\<bar> < 2 ^ 53"
  shows "round53 (of_int n) = of_int n"
proof (cases "n = 0")
  case False
  define a where "a = \<bar>n\<bar>"
  have a: "1 \<le> a" "a < 2 ^ 53" using False assms by (auto simp: a_def)
  note l = ilog2_bounds [OF a(1)]
  define k where "k = nat (ilog2 a)"
  have k: "ilog2 a = int k" "2 ^ k \<le> a" "a < 2 ^ Suc k" using l by (simp_all add: k_def)
  have "k \<le> 52"
  proof (rule ccontr)
    assume "\<not> k \<le> 52"
    then have "(2 :: int) ^ 53 \<le> 2 ^ k" by (intro power_increasing) auto
    with k(2) a(2) show False by linarith
  qed
  have q: "quotient_of \<bar>of_int n\<bar> = (a, 1)" by (simp add: a_def flip: of_int_abs)
  have ge: "2 powi int k \<le> (of_int a :: rat)"
    using k(2) by (metis of_int_le_iff of_int_numeral of_int_power power_int_of_nat)
  define u where "u = (2 :: rat) powi (int k - 52)"
  have u: "u * 2 ^ (52 - k) = 1"
  proof -
    have "u = 2 ^ k / 2 ^ 52"
      unfolding u_def using power_int_diff [of "2 :: rat" "int k" 52] by simp
    then have "u * 2 ^ (52 - k) = (2 ^ k * 2 ^ (52 - k)) / 2 ^ 52" by simp
    also have "(2 :: rat) ^ k * 2 ^ (52 - k) = 2 ^ 52" using \<open>k \<le> 52\<close> by (simp only: power_add [symmetric]) simp
    finally show ?thesis by simp
  qed
  have "(of_int a :: rat) / u = of_int (a * 2 ^ (52 - k))"
  proof -
    have "u \<noteq> 0" using u by auto
    then show ?thesis using u by (simp add: divide_eq_eq mult.assoc mult.commute [of _ u])
  qed
  then have "rne (of_int a / u) = a * 2 ^ (52 - k)" by (simp only: rne_of_int)
  then have "of_int (rne (of_int a / u)) * u = (of_int a :: rat)"
    using u by (simp add: mult.commute mult.left_commute)
  moreover have "sgn (of_int n :: rat) * of_int a = of_int n" by (simp add: a_def sgn_if)
  moreover have "\<bar>of_int n :: rat\<bar> = of_int a" by (simp add: a_def)
  ultimately show ?thesis
    using False ge unfolding round53_def q prod.case Let_def k(1) ilog2_one
    by (simp add: u_def mult.assoc)
qed (simp add: round53_def)

lemma go_trunc_of_int [simp]: "go_trunc (of_int n) = n"
  by (simp add: go_trunc_def)

end
