(* ===== verification/SegWindow.thy ===== *)
theory SegWindow
  imports GoText
begin

text \<open>
  What the HLS and the DASH segmenter share: the sliding window of the newest segments, trimmed
  to the configured maximum after every cut. The locale \<open>segment_window\<close> is the contract of a
  stream that keeps such a window; its lemmas are proved once and hold of both servers.
\<close>

section \<open>Runs and windows\<close>

text \<open>A sequence of operations that may panic; \<open>None\<close> is a panic or a call that never returns.\<close>

fun run_opt :: "('i \<Rightarrow> 's \<Rightarrow> 's option) \<Rightarrow> 'i list \<Rightarrow> 's \<Rightarrow> 's option" where
  "run_opt f [] s = Some s"
| "run_opt f (i # is) s = Option.bind (f i s) (run_opt f is)"

text \<open>The code that trims old segments, with the panic of a negative maximum.\<close>

definition trimWindow :: "int \<Rightarrow> 'g list \<Rightarrow> 'g list option" where
  "trimWindow mx xs =
     (if int (length xs) > mx then go_slice (int (length xs) - mx) (int (length xs)) xs else Some xs)"

text \<open>The \<open>n\<close> sequence numbers before \<open>seq\<close>.\<close>

definition seq_window :: "u64 \<Rightarrow> nat \<Rightarrow> u64 list" where
  "seq_window seq n = map (\<lambda>k. seq - of_nat (n - k)) [0..<n]"

section \<open>Lemmas\<close>

lemma run_opt_append:
  "run_opt f (xs @ ys) s = Option.bind (run_opt f xs s) (run_opt f ys)"
  by (induction xs arbitrary: s) (auto split: Option.bind_split)

lemma run_opt_total:
  assumes "\<And>i s. P s \<Longrightarrow> \<exists>s'. f i s = Some s' \<and> P s'" "P s"
  shows "\<exists>s'. run_opt f is s = Some s' \<and> P s'"
  using assms(2)
proof (induction "is" arbitrary: s)
  case (Cons i "is")
  obtain s1 where "f i s = Some s1" "P s1" using assms(1) [OF Cons.prems] by blast
  with Cons.IH show ?case by auto
qed simp

lemma trimWindow_drop:
  "0 \<le> mx \<Longrightarrow> trimWindow mx xs = Some (drop (length xs - nat mx) xs)"
  by (auto simp: trimWindow_def go_slice_def nat_diff_distrib)

lemma trimWindow_panics: "trimWindow mx xs = None \<longleftrightarrow> mx < 0"
  by (auto simp: trimWindow_def go_slice_def)

lemma set_trimWindow: "trimWindow mx xs = Some ys \<Longrightarrow> set ys \<subseteq> set xs"
  by (auto simp: trimWindow_def go_slice_def split: if_splits dest: in_set_takeD in_set_dropD)

lemma find_unique:
  "x \<in> set xs \<Longrightarrow> f x = v \<Longrightarrow> inj_on f (set xs) \<Longrightarrow> find (\<lambda>y. f y = v) xs = Some x"
  by (induction xs) (auto simp: inj_on_def)

lemma length_seq_window [simp]: "length (seq_window seq n) = n"
  by (simp add: seq_window_def)

lemma seq_window_extend: "seq_window seq n @ [seq] = seq_window (seq + 1) (Suc n)"
  by (rule nth_equalityI) (auto simp: seq_window_def nth_append Suc_diff_le of_nat_diff less_Suc_eq)

lemma drop_seq_window: "drop j (seq_window seq n) = seq_window seq (n - j)"
  by (rule nth_equalityI) (auto simp: seq_window_def)

lemma seq_window_mem: "x \<in> set (seq_window seq n) \<longleftrightarrow> (\<exists>j. 0 < j \<and> j \<le> n \<and> x = seq - of_nat j)"
proof
  assume "\<exists>j. 0 < j \<and> j \<le> n \<and> x = seq - of_nat j"
  then obtain j where j: "0 < j" "j \<le> n" "x = seq - of_nat j" by blast
  then have "x = (\<lambda>k. seq - of_nat (n - k)) (n - j)" "n - j \<in> set [0..<n]" by auto
  then show "x \<in> set (seq_window seq n)" unfolding seq_window_def set_map by (rule image_eqI)
next
  assume "x \<in> set (seq_window seq n)"
  then obtain k where "k < n" "x = seq - of_nat (n - k)" 
    by (auto simp only: seq_window_def set_map set_upt atLeastLessThan_iff)
  then show "\<exists>j. 0 < j \<and> j \<le> n \<and> x = seq - of_nat j" by (intro exI [of _ "n - k"]) simp
qed

lemma of_nat_u64_inj:
  assumes "a < 2 ^ 64" "b < 2 ^ 64"
  shows "(of_nat a :: u64) = of_nat b \<longleftrightarrow> a = b"
proof -
  have "unat (of_nat a :: u64) = a" "unat (of_nat b :: u64) = b"
    using assms by (intro unat_of_nat_small; simp)+
  then show ?thesis by metis
qed

lemma seq_window_notin: "n < 2 ^ 64 \<Longrightarrow> seq \<notin> set (seq_window seq n)"
  using of_nat_u64_inj [of _ 0] by (auto simp: seq_window_mem)

lemma distinct_seq_window: "n < 2 ^ 64 \<Longrightarrow> distinct (seq_window seq n)"
  by (auto simp: seq_window_def distinct_map inj_on_def of_nat_u64_inj)

section \<open>The contract of a stream with a segment window\<close>

locale segment_window =
  fixes push :: "'i \<Rightarrow> 's \<Rightarrow> 's option"
    and segs :: "'s \<Rightarrow> 'g list"
    and next_seq :: "'s \<Rightarrow> u64"
    and max_segs :: "'s \<Rightarrow> int"
    and seg_seq :: "'g \<Rightarrow> u64"
  assumes push_total: "0 \<le> max_segs s \<Longrightarrow> push i s \<noteq> None"
    and push_max: "push i s = Some s' \<Longrightarrow> max_segs s' = max_segs s"
    and push_step: "push i s = Some s' \<Longrightarrow>
      segs s' = segs s \<and> next_seq s' = next_seq s \<or>
      (\<exists>g. seg_seq g = next_seq s \<and> next_seq s' = next_seq s + 1 \<and>
           trimWindow (max_segs s) (segs s @ [g]) = Some (segs s'))"
begin

definition window :: "'s \<Rightarrow> bool" where
  "window s \<longleftrightarrow> int (length (segs s)) \<le> max_segs s \<and>
     map seg_seq (segs s) = seq_window (next_seq s) (length (segs s))"

lemma window_push:
  assumes "window s" "push i s = Some s'"
  shows "window s'"
  using push_step [OF assms(2)]
proof
  assume "segs s' = segs s \<and> next_seq s' = next_seq s"
  with assms push_max show ?thesis by (simp add: window_def)
next
  assume "\<exists>g. seg_seq g = next_seq s \<and> next_seq s' = next_seq s + 1 \<and>
           trimWindow (max_segs s) (segs s @ [g]) = Some (segs s')"
  then obtain g where g: "seg_seq g = next_seq s" "next_seq s' = next_seq s + 1"
    "trimWindow (max_segs s) (segs s @ [g]) = Some (segs s')" by blast
  have mx: "0 \<le> max_segs s" using assms(1) by (auto simp: window_def)
  define j where "j = length (segs s @ [g]) - nat (max_segs s)"
  have d: "segs s' = drop j (segs s @ [g])" using g(3) mx by (simp add: trimWindow_drop j_def)
  have "map seg_seq (segs s') = drop j (map seg_seq (segs s) @ [next_seq s])"
    by (simp only: d drop_map [symmetric] g(1) [symmetric] map_append list.map)
  also have "\<dots> = seq_window (next_seq s') (Suc (length (segs s)) - j)"
    using assms(1) g(2) by (simp add: window_def seq_window_extend drop_seq_window)
  also have "Suc (length (segs s)) - j = length (segs s')" by (simp only: d length_drop) simp
  finally show ?thesis
    using mx push_max [OF assms(2)] by (auto simp: window_def d j_def)
qed

lemma window_max: "window s \<Longrightarrow> 0 \<le> max_segs s"
  by (auto simp: window_def)

lemma window_run:
  assumes "window s"
  shows "\<exists>s'. run_opt push is s = Some s' \<and> window s'"
  by (rule run_opt_total [where P = window, OF _ assms])
     (use push_total window_max window_push in blast)

end

end
