(* ===== verification/HlsServer.thy ===== *)
theory HlsServer
  imports SegWindow TSMux
begin

text \<open>
  The HLS segmenter (\<open>pkg/protocol/hls/segmenter.go\<close>). Clock readings are arguments: \<open>now\<close> is
  \<open>time.Now()\<close> of \<open>pushFrame\<close> and \<open>later\<close> the reading behind \<open>time.Since\<close> in \<open>cutSegment\<close>, both in
  nanoseconds. \<open>None\<close> is a run-time panic. The notification channel has capacity one, so it is a
  flag; which case of the handler's \<open>select\<close> fires is an argument. The field \<open>lastCleanup\<close>, which
  nothing reads or writes, is left out.
\<close>

section \<open>Configuration and state\<close>

datatype Mode = ModeClassic | ModeLLHLS

record HlsConfig =
  hc_Addr :: string
  hc_Path :: string
  hc_SegmentDuration :: int
  hc_PartDuration :: int
  hc_MaxSegments :: int
  hc_Mode :: Mode

definition HlsDefaultConfig :: HlsConfig where
  "HlsDefaultConfig =
     \<lparr>hc_Addr = '':8085'', hc_Path = ''/hls'', hc_SegmentDuration = 1000000000,
      hc_PartDuration = 200000000, hc_MaxSegments = 6, hc_Mode = ModeLLHLS\<rparr>"

record HlsSegment =
  sg_Index :: nat
  sg_Sequence :: u64
  sg_StartTime :: int
  sg_Duration :: int
  sg_Data :: bytes
  sg_IsPartial :: bool
  sg_PartIndex :: nat
  sg_URI :: string

record HlsStream =
  st_id :: string
  st_config :: HlsConfig
  st_segments :: "HlsSegment list"
  st_parts :: "HlsSegment list"
  st_currentSeg :: "HlsSegment option"
  st_mediaSeq :: u64
  st_videoCodec :: CodecType
  st_audioCodec :: CodecType
  st_hasVideo :: bool
  st_hasAudio :: bool
  st_gopBuffer :: "MediaFrame list"
  st_segStart :: int
  st_tsMuxer :: TSMuxer
  st_blockChan :: bool

record HlsSegmenter =
  hs_config :: HlsConfig
  hs_streams :: "string \<rightharpoonup> HlsStream"

definition HlsNewSegmenter :: "HlsConfig \<Rightarrow> HlsSegmenter" where
  "HlsNewSegmenter config = \<lparr>hs_config = config, hs_streams = Map.empty\<rparr>"

section \<open>Streams\<close>

definition hlsNewStream :: "HlsConfig \<Rightarrow> string \<Rightarrow> CodecType \<Rightarrow> CodecType \<Rightarrow> int \<Rightarrow> HlsStream" where
  "hlsNewStream config streamID videoCodec audioCodec now =
     \<lparr>st_id = streamID, st_config = config, st_segments = [], st_parts = [], st_currentSeg = None,
      st_mediaSeq = 0, st_videoCodec = videoCodec, st_audioCodec = audioCodec,
      st_hasVideo = (videoCodec \<noteq> 0), st_hasAudio = (audioCodec \<noteq> 0), st_gopBuffer = [],
      st_segStart = now, st_tsMuxer = NewTSMuxer, st_blockChan = False\<rparr>"

text \<open>\<open>make\<close> panics on a negative capacity.\<close>

definition HlsCreateStream ::
  "HlsSegmenter \<Rightarrow> string \<Rightarrow> CodecType \<Rightarrow> CodecType \<Rightarrow> int \<Rightarrow> (HlsStream \<times> HlsSegmenter) option" where
  "HlsCreateStream s streamID videoCodec audioCodec now =
     (if hc_MaxSegments (hs_config s) + 2 < 0 then None
      else let st = hlsNewStream (hs_config s) streamID videoCodec audioCodec now in
           Some (st, s\<lparr>hs_streams := (hs_streams s)(streamID \<mapsto> st)\<rparr>))"

definition HlsRemoveStream :: "HlsSegmenter \<Rightarrow> string \<Rightarrow> HlsSegmenter" where
  "HlsRemoveStream s streamID = s\<lparr>hs_streams := (hs_streams s)(streamID := None)\<rparr>"

definition HlsGetStream :: "HlsSegmenter \<Rightarrow> string \<Rightarrow> HlsStream option" where
  "HlsGetStream s streamID = hs_streams s streamID"

section \<open>Cutting segments\<close>

text \<open>The loop over the buffered frames: TS packets in classic mode, bare payloads otherwise.\<close>

fun segmentData :: "Mode \<Rightarrow> TSMuxer \<Rightarrow> MediaFrame list \<Rightarrow> (bytes \<times> TSMuxer) option" where
  "segmentData mode m [] = Some ([], m)"
| "segmentData mode m (f # fs) =
     (case (if mode = ModeClassic then MuxFrame m f else Some (fr_Payload f, m)) of
        None \<Rightarrow> None
      | Some (b, m) \<Rightarrow>
          (case segmentData mode m fs of None \<Rightarrow> None | Some (d, m) \<Rightarrow> Some (b @ d, m)))"

definition segmentURI :: "string \<Rightarrow> Mode \<Rightarrow> u64 \<Rightarrow> string" where
  "segmentURI sid mode seq =
     sid @ ''_'' @ itoa (unat seq) @ (if mode = ModeLLHLS then ''.m4s'' else ''.ts'')"

definition partURI :: "string \<Rightarrow> u64 \<Rightarrow> nat \<Rightarrow> string" where
  "partURI sid seq n = sid @ ''_'' @ itoa (unat seq) @ ''_part'' @ itoa n @ ''.m4s''"

definition hlsNewSegment :: "HlsStream \<Rightarrow> bytes \<Rightarrow> int \<Rightarrow> HlsSegment" where
  "hlsNewSegment st data later =
     \<lparr>sg_Index = length (st_segments st), sg_Sequence = st_mediaSeq st, sg_StartTime = st_segStart st,
      sg_Duration = later - st_segStart st, sg_Data = data, sg_IsPartial = False, sg_PartIndex = 0,
      sg_URI = segmentURI (st_id st) (hc_Mode (st_config st)) (st_mediaSeq st)\<rparr>"

definition hlsCutSegment :: "int \<Rightarrow> HlsStream \<Rightarrow> HlsStream option" where
  "hlsCutSegment later st =
     (if st_gopBuffer st = [] then Some st
      else case segmentData (hc_Mode (st_config st)) (st_tsMuxer st) (st_gopBuffer st) of
        None \<Rightarrow> None
      | Some (data, m) \<Rightarrow>
          let seg = hlsNewSegment st data later in
          (case trimWindow (hc_MaxSegments (st_config st)) (st_segments st @ [seg]) of
             None \<Rightarrow> None
           | Some segments \<Rightarrow>
               Some (st\<lparr>st_tsMuxer := m, st_mediaSeq := st_mediaSeq st + 1, st_currentSeg := Some seg,
                        st_parts := [], st_segments := segments\<rparr>)))"

definition hlsCutPartialSegment :: "HlsStream \<Rightarrow> HlsStream" where
  "hlsCutPartialSegment st =
     (if st_gopBuffer st = [] then st
      else let part = \<lparr>sg_Index = length (st_segments st), sg_Sequence = st_mediaSeq st,
                       sg_StartTime = st_segStart st, sg_Duration = hc_PartDuration (st_config st),
                       sg_Data = concat (map fr_Payload (st_gopBuffer st)), sg_IsPartial = True,
                       sg_PartIndex = length (st_parts st),
                       sg_URI = partURI (st_id st) (st_mediaSeq st) (length (st_parts st))\<rparr> in
           st\<lparr>st_parts := st_parts st @ [part]\<rparr>)"

definition hlsPushFrame :: "int \<times> int \<times> MediaFrame \<Rightarrow> HlsStream \<Rightarrow> HlsStream option" where
  "hlsPushFrame = (\<lambda>(now, later, frame) st.
     let st = st\<lparr>st_gopBuffer := st_gopBuffer st @ [frame]\<rparr>;
         elapsed = now - st_segStart st in
     case (if fr_Type frame = FrameVideo \<and> fr_Marker frame \<and>
              elapsed \<ge> hc_SegmentDuration (st_config st)
           then map_option (\<lambda>st. st\<lparr>st_segStart := now\<rparr>) (hlsCutSegment later st)
           else Some st) of
       None \<Rightarrow> None
     | Some st \<Rightarrow>
         if hc_Mode (st_config st) = ModeLLHLS \<and> elapsed \<ge> hc_PartDuration (st_config st)
         then Some ((hlsCutPartialSegment st)\<lparr>st_blockChan := True\<rparr>)
         else Some st)"

datatype HlsError = StreamNotFound string

text \<open>\<open>PushFrame\<close> of the segmenter; the outer option is a panic, the inner result the error value.\<close>

definition HlsPushFrame ::
  "HlsSegmenter \<Rightarrow> string \<Rightarrow> int \<times> int \<times> MediaFrame \<Rightarrow> (HlsError option \<times> HlsSegmenter) option" where
  "HlsPushFrame s streamID i =
     (case HlsGetStream s streamID of
        None \<Rightarrow> Some (Some (StreamNotFound streamID), s)
      | Some st \<Rightarrow>
          map_option (\<lambda>st. (None, s\<lparr>hs_streams := (hs_streams s)(streamID \<mapsto> st)\<rparr>)) (hlsPushFrame i st))"

section \<open>Playlist and downloads\<close>

definition targetDur :: "HlsConfig \<Rightarrow> int" where
  "targetDur c =
     (let d = go_trunc (Seconds (hc_SegmentDuration c)) in if d < 1 then 1 else d)"

definition partDur :: "HlsConfig \<Rightarrow> int" where
  "partDur c =
     (let d = go_quot (go_trunc (round53 (Seconds (hc_PartDuration c) * 1000))) 1000 in
      if d < 1 then 1 else d)"

definition playlistHeader :: "HlsStream \<Rightarrow> string" where
  "playlistHeader st =
     ''#EXTM3U'' @ nl @ ''#EXT-X-VERSION:6'' @ nl @
     ''#EXT-X-TARGETDURATION:'' @ fmt_int (targetDur (st_config st)) @ nl @
     (if hc_Mode (st_config st) = ModeLLHLS
      then ''#EXT-X-PART-INF:PART-TARGET='' @ fmt3 (Seconds (hc_PartDuration (st_config st))) @ nl @
           ''#EXT-X-SERVER-CONTROL:CAN-BLOCK-RELOAD=YES,PART-HOLD-BACK='' @
           fmt3 (round53 (of_int (partDur (st_config st)) * 3)) @ '',HOLD-BACK='' @
           fmt3 (round53 (of_int (targetDur (st_config st)) * 3)) @ nl
      else '''') @
     (case st_segments st of
        [] \<Rightarrow> ''''
      | g # _ \<Rightarrow> ''#EXT-X-MEDIA-SEQUENCE:'' @ itoa (unat (sg_Sequence g)) @ nl)"

definition playlistPart :: "HlsSegment \<Rightarrow> string" where
  "playlistPart part =
     ''#EXT-X-PART:DURATION='' @ fmt3 (Seconds (sg_Duration part)) @ '',URI='' @ dq @
     sg_URI part @ dq @ nl"

definition playlistEntry :: "HlsStream \<Rightarrow> HlsSegment \<Rightarrow> string" where
  "playlistEntry st seg =
     ''#EXTINF:'' @ fmt3 (Seconds (sg_Duration seg)) @ '','' @ nl @ sg_URI seg @ nl @
     (if hc_Mode (st_config st) = ModeLLHLS
      then concat (map playlistPart (filter (\<lambda>p. sg_Sequence p = sg_Sequence seg) (st_parts st)))
      else '''')"

definition playlistHint :: "HlsStream \<Rightarrow> string" where
  "playlistHint st =
     (if hc_Mode (st_config st) = ModeLLHLS \<and> st_currentSeg st \<noteq> None
      then ''#EXT-X-PRELOAD-HINT:TYPE=PART,URI='' @ dq @
           partURI (st_id st) (st_mediaSeq st) (length (st_parts st)) @ dq @ nl
      else '''')"

definition GeneratePlaylist :: "HlsStream \<Rightarrow> string" where
  "GeneratePlaylist st =
     playlistHeader st @ concat (map (playlistEntry st) (st_segments st)) @ playlistHint st"

definition HlsGetSegment :: "HlsStream \<Rightarrow> string \<Rightarrow> bytes option" where
  "HlsGetSegment st uri =
     (case find (\<lambda>seg. sg_URI seg = uri) (st_segments st) of
        Some seg \<Rightarrow> Some (sg_Data seg)
      | None \<Rightarrow>
          (case find (\<lambda>part. sg_URI part = uri) (st_parts st) of
             Some part \<Rightarrow> Some (sg_Data part)
           | None \<Rightarrow> None))"

text \<open>Which case of the blocking \<open>select\<close> fires.\<close>

datatype Wake = PartReady | ClientGone | WaitTimeout

definition serveHLS :: "HlsStream \<Rightarrow> string list \<Rightarrow> HttpResponse" where
  "serveHLS st parts =
     (if length parts = 1 \<or> parts ! 1 = '''' \<or> parts ! 1 = ''playlist.m3u8''
      then \<lparr>rsp_Status = 200, rsp_ContentType = ''application/vnd.apple.mpegurl'',
             rsp_CacheControl = ''no-cache'', rsp_Body = lit (GeneratePlaylist st)\<rparr>
      else case HlsGetSegment st (parts ! 1) of
        None \<Rightarrow> http_Error ''segment not found'' 404
      | Some data \<Rightarrow>
          \<lparr>rsp_Status = 200,
           rsp_ContentType = (if HasSuffix (parts ! 1) ''.m4s'' then ''video/iso.segment'' else ''video/mp2t''),
           rsp_CacheControl = ''public, max-age=3600'', rsp_Body = data\<rparr>)"

text \<open>The handler; no response is the return after the client has gone.\<close>

definition handleHLS ::
  "HlsSegmenter \<Rightarrow> string \<Rightarrow> string \<Rightarrow> string \<Rightarrow> Wake \<Rightarrow> HttpResponse option \<times> HlsSegmenter" where
  "handleHLS s url msn part wake =
     (let parts = SplitN2 (TrimPrefix url (hc_Path (hs_config s) @ ''/'')) CHR ''/'';
          streamID = parts ! 0 in
      if streamID = '''' then (Some (http_Error ''missing stream id'' 400), s)
      else case HlsGetStream s streamID of
        None \<Rightarrow> (Some (http_Error ''stream not found'' 404), s)
      | Some st \<Rightarrow>
          if hc_Mode (st_config st) = ModeLLHLS \<and> (msn \<noteq> '''' \<or> part \<noteq> '''')
          then case wake of
              PartReady \<Rightarrow>
                let st = st\<lparr>st_blockChan := False\<rparr> in
                (Some (serveHLS st parts), s\<lparr>hs_streams := (hs_streams s)(streamID \<mapsto> st)\<rparr>)
            | ClientGone \<Rightarrow> (None, s)
            | WaitTimeout \<Rightarrow> (Some (serveHLS st parts), s)
          else (Some (serveHLS st parts), s))"

section \<open>Specification\<close>

text \<open>A player splits the playlist at line ends; its media URIs are the lines without a tag.\<close>

fun split_lines :: "string \<Rightarrow> string \<Rightarrow> string list" where
  "split_lines acc [] = (if acc = [] then [] else [rev acc])"
| "split_lines acc (c # cs) =
     (if c = CHR 0x0A then rev acc # split_lines [] cs else split_lines (c # acc) cs)"

definition m3u8_uris :: "string \<Rightarrow> string list" where
  "m3u8_uris s = filter (\<lambda>l. l \<noteq> [] \<and> hd l \<noteq> CHR ''#'') (split_lines [] s)"

text \<open>The lines of a playlist without their line ends.\<close>

definition unlines :: "string list \<Rightarrow> string" where
  "unlines ls = concat (map (\<lambda>l. l @ nl) ls)"

definition header_lines :: "HlsStream \<Rightarrow> string list" where
  "header_lines st =
     [''#EXTM3U'', ''#EXT-X-VERSION:6'',
      ''#EXT-X-TARGETDURATION:'' @ fmt_int (targetDur (st_config st))] @
     (if hc_Mode (st_config st) = ModeLLHLS
      then [''#EXT-X-PART-INF:PART-TARGET='' @ fmt3 (Seconds (hc_PartDuration (st_config st))),
            ''#EXT-X-SERVER-CONTROL:CAN-BLOCK-RELOAD=YES,PART-HOLD-BACK='' @
            fmt3 (round53 (of_int (partDur (st_config st)) * 3)) @ '',HOLD-BACK='' @
            fmt3 (round53 (of_int (targetDur (st_config st)) * 3))]
      else []) @
     (if st_segments st = [] then []
      else [''#EXT-X-MEDIA-SEQUENCE:'' @ itoa (unat (sg_Sequence (hd (st_segments st))))])"

definition extinf_line :: "HlsSegment \<Rightarrow> string" where
  "extinf_line g = ''#EXTINF:'' @ fmt3 (Seconds (sg_Duration g)) @ '',''"

definition hint_lines :: "HlsStream \<Rightarrow> string list" where
  "hint_lines st =
     (if hc_Mode (st_config st) = ModeLLHLS \<and> st_currentSeg st \<noteq> None
      then [''#EXT-X-PRELOAD-HINT:TYPE=PART,URI='' @ dq @
            partURI (st_id st) (st_mediaSeq st) (length (st_parts st)) @ dq]
      else [])"

text \<open>What every stream keeps: URIs are computed from the sequence numbers, partial segments
  belong to the segment that is still open.\<close>

definition hls_inv :: "MediaFrame list \<Rightarrow> HlsStream \<Rightarrow> bool" where
  "hls_inv frames st \<longleftrightarrow>
     st_gopBuffer st = frames \<and>
     (\<forall>g \<in> set (st_segments st).
        sg_URI g = segmentURI (st_id st) (hc_Mode (st_config st)) (sg_Sequence g)) \<and>
     map sg_Sequence (st_parts st) = replicate (length (st_parts st)) (st_mediaSeq st) \<and>
     map sg_URI (st_parts st) = map (partURI (st_id st) (st_mediaSeq st)) [0..<length (st_parts st)]"

text \<open>A step that touches the partial segments and the channel only.\<close>

definition hls_parts_only :: "HlsStream \<Rightarrow> HlsStream \<Rightarrow> bool" where
  "hls_parts_only st st' \<longleftrightarrow>
     st' = st\<lparr>st_parts := st_parts st', st_blockChan := st_blockChan st'\<rparr> \<and>
     (st_parts st' = st_parts st \<or>
      (\<exists>p. st_parts st' = st_parts st @ [p] \<and> sg_Sequence p = st_mediaSeq st \<and>
           sg_URI p = partURI (st_id st) (st_mediaSeq st) (length (st_parts st))))"

text \<open>A key frame, and a stream just before and after it cuts its first segment.\<close>

definition key_frame :: MediaFrame where
  "key_frame = zero_frame\<lparr>fr_Type := FrameVideo, fr_Marker := True, fr_Payload := [7]\<rparr>"

section \<open>Segment data\<close>

lemma segmentData_total: "\<exists>d m'. segmentData mode m fs = Some (d, m')"
proof (induction fs arbitrary: m)
  case (Cons f fs)
  obtain b m1 where "(if mode = ModeClassic then MuxFrame m f else Some (fr_Payload f, m)) = Some (b, m1)"
    using MuxFrame_total [of m f] by (cases "mode = ModeClassic") auto
  with Cons.IH [of m1] show ?case by auto
qed simp

lemma segmentData_LLHLS: "segmentData ModeLLHLS m fs = Some (concat (map fr_Payload fs), m)"
  by (induction fs) auto

lemma hlsPushFrame_total:
  assumes "0 \<le> hc_MaxSegments (st_config st)"
  shows "hlsPushFrame i st \<noteq> None"
proof -
  have "hlsCutSegment later (st\<lparr>st_gopBuffer := g\<rparr>) \<noteq> None" for later g
    using segmentData_total [of "hc_Mode (st_config st)" "st_tsMuxer st" g] assms
    by (auto simp: hlsCutSegment_def Let_def trimWindow_panics split: option.splits)
  note c = this
  obtain now later frame where "i = (now, later, frame)" by (cases i)
  with c [of later "st_gopBuffer st @ [frame]"] show ?thesis
    by (auto simp: hlsPushFrame_def Let_def split: option.splits)
qed

text \<open>The two ways a cut changes a stream.\<close>

lemma hlsCutSegment_cases:
  assumes "hlsCutSegment later st = Some st'" "st_gopBuffer st \<noteq> []"
  obtains m data where "segmentData (hc_Mode (st_config st)) (st_tsMuxer st) (st_gopBuffer st) = Some (data, m)"
    "trimWindow (hc_MaxSegments (st_config st)) (st_segments st @ [hlsNewSegment st data later]) =
       Some (st_segments st')"
    "st' = st\<lparr>st_tsMuxer := m, st_mediaSeq := st_mediaSeq st + 1,
                    st_currentSeg := Some (hlsNewSegment st data later), st_parts := [],
                    st_segments := st_segments st'\<rparr>"
  using assms by (auto simp: hlsCutSegment_def Let_def split: option.splits)

lemma hls_parts_only_simps:
  assumes "hls_parts_only st st'"
  shows "st_id st' = st_id st" "st_config st' = st_config st" "st_segments st' = st_segments st"
    "st_mediaSeq st' = st_mediaSeq st" "st_gopBuffer st' = st_gopBuffer st" "st_tsMuxer st' = st_tsMuxer st"
  using assms by (cases st; cases st'; simp add: hls_parts_only_def)+

lemma hlsPushFrame_cases:
  assumes "hlsPushFrame (now, later, frame) st = Some st'"
  obtains "hls_parts_only (st\<lparr>st_gopBuffer := st_gopBuffer st @ [frame]\<rparr>) st'"
  | st1 where "hlsCutSegment later (st\<lparr>st_gopBuffer := st_gopBuffer st @ [frame]\<rparr>) = Some st1"
      "fr_Type frame = FrameVideo" "fr_Marker frame"
      "hls_parts_only (st1\<lparr>st_segStart := now\<rparr>) st'"
proof -
  have p: "hls_parts_only s ((hlsCutPartialSegment s)\<lparr>st_blockChan := True\<rparr>)" "hls_parts_only s s" for s
    by (auto simp: hls_parts_only_def hlsCutPartialSegment_def Let_def)
  show thesis
    using assms that p
    by (auto simp: hlsPushFrame_def Let_def split: option.splits if_splits)
qed

section \<open>The segment window\<close>

lemma hlsPushFrame_window:
  assumes p: "hlsPushFrame (now, later, frame) s = Some s'"
  shows "st_config s' = st_config s \<and>
      (st_segments s' = st_segments s \<and> st_mediaSeq s' = st_mediaSeq s \<or>
       (\<exists>g. sg_Sequence g = st_mediaSeq s \<and> st_mediaSeq s' = st_mediaSeq s + 1 \<and>
          trimWindow (hc_MaxSegments (st_config s)) (st_segments s @ [g]) = Some (st_segments s')))"
  using p
proof (cases rule: hlsPushFrame_cases)
  case 1
  then show ?thesis using hls_parts_only_simps [OF 1] by simp
next
  case (2 st1)
  let ?b = "s\<lparr>st_gopBuffer := st_gopBuffer s @ [frame]\<rparr>"
  from 2(1) obtain m data where c:
    "trimWindow (hc_MaxSegments (st_config s)) (st_segments s @ [hlsNewSegment ?b data later]) = Some (st_segments st1)"
    "st1 = ?b\<lparr>st_tsMuxer := m, st_mediaSeq := st_mediaSeq ?b + 1,
       st_currentSeg := Some (hlsNewSegment ?b data later), st_parts := [], st_segments := st_segments st1\<rparr>"
    by (elim hlsCutSegment_cases) auto
  have "st_mediaSeq st1 = st_mediaSeq s + 1" "st_config st1 = st_config s" by (subst c(2), simp)+
  with c(1) hls_parts_only_simps [OF 2(4)] show ?thesis
    by (auto intro!: exI [of _ "hlsNewSegment ?b data later"] simp: hlsNewSegment_def)
qed

interpretation hls: segment_window hlsPushFrame st_segments st_mediaSeq
  "\<lambda>st. hc_MaxSegments (st_config st)" sg_Sequence
proof
  fix s :: HlsStream and i assume "0 \<le> hc_MaxSegments (st_config s)"
  then show "hlsPushFrame i s \<noteq> None" by (rule hlsPushFrame_total)
next
  fix i and s s' :: HlsStream assume "hlsPushFrame i s = Some s'"
  then show "hc_MaxSegments (st_config s') = hc_MaxSegments (st_config s)"
    using hlsPushFrame_window by (cases i) simp
next
  fix i and s s' :: HlsStream assume "hlsPushFrame i s = Some s'"
  then show "st_segments s' = st_segments s \<and> st_mediaSeq s' = st_mediaSeq s \<or>
       (\<exists>g. sg_Sequence g = st_mediaSeq s \<and> st_mediaSeq s' = st_mediaSeq s + 1 \<and>
          trimWindow (hc_MaxSegments (st_config s)) (st_segments s @ [g]) = Some (st_segments s'))"
    using hlsPushFrame_window by (cases i) simp
qed

section \<open>URIs\<close>

lemma segmentURI_inj [simp]: "segmentURI sid mode a = segmentURI sid mode b \<longleftrightarrow> a = b"
  by (auto simp: segmentURI_def itoa_sep_inj is_digit_def word_unat_eq_iff)

lemma partURI_inj [simp]: "partURI sid s m = partURI sid s n \<longleftrightarrow> m = n"
  by (auto simp: partURI_def itoa_sep_inj is_digit_def)

lemma segmentURI_partURI [simp]: "segmentURI sid mode a \<noteq> partURI sid b n"
  by (auto simp: segmentURI_def partURI_def itoa_sep_inj is_digit_def)

lemma segmentURI_shape:
  "segmentURI sid mode a \<noteq> []" "segmentURI sid mode a \<noteq> ''playlist.m3u8''"
  "HasSuffix (segmentURI sid mode a) ''.m4s'' \<longleftrightarrow> mode = ModeLLHLS"
proof -
  have "last (segmentURI sid mode a) = CHR ''s''" by (simp add: segmentURI_def)
  then show "segmentURI sid mode a \<noteq> ''playlist.m3u8''" by auto
  have "last (butlast (segmentURI sid ModeClassic a)) = CHR ''t''"
    by (simp add: segmentURI_def butlast_append)
  then have "\<not> HasSuffix (segmentURI sid ModeClassic a) ''.m4s''"
    by (auto simp: HasSuffix_iff butlast_append)
  moreover have "HasSuffix (segmentURI sid ModeLLHLS a) ''.m4s''"
    by (auto simp: HasSuffix_iff segmentURI_def)
  ultimately show "HasSuffix (segmentURI sid mode a) ''.m4s'' \<longleftrightarrow> mode = ModeLLHLS"
    by (cases mode) auto
qed (simp add: segmentURI_def)

section \<open>The invariant of a stream\<close>

lemma hls_inv_parts:
  assumes "hls_inv fs st" "hls_parts_only st st'"
  shows "hls_inv fs st'"
proof -
  note s = hls_parts_only_simps [OF assms(2)]
  from assms(2) consider "st_parts st' = st_parts st"
    | p where "st_parts st' = st_parts st @ [p]" "sg_Sequence p = st_mediaSeq st"
        "sg_URI p = partURI (st_id st) (st_mediaSeq st) (length (st_parts st))"
    unfolding hls_parts_only_def by blast
  then show ?thesis
    using assms(1) by cases (auto simp: hls_inv_def s replicate_append_same)
qed

lemma hls_inv_push:
  assumes "hls_inv fs st" "hlsPushFrame (now, later, frame) st = Some st'"
  shows "hls_inv (fs @ [frame]) st'" "st_id st' = st_id st" "st_config st' = st_config st"
proof -
  let ?b = "st\<lparr>st_gopBuffer := st_gopBuffer st @ [frame]\<rparr>"
  have b: "hls_inv (fs @ [frame]) ?b" using assms(1) by (simp add: hls_inv_def)
  show "hls_inv (fs @ [frame]) st'" "st_id st' = st_id st" "st_config st' = st_config st"
    using assms(2)
  proof (atomize (full), cases rule: hlsPushFrame_cases)
    case 1
    with hls_inv_parts [OF b] hls_parts_only_simps [OF 1]
    show "hls_inv (fs @ [frame]) st' \<and> st_id st' = st_id st \<and> st_config st' = st_config st" by simp
  next
    case (2 st1)
    then obtain m data where c:
      "trimWindow (hc_MaxSegments (st_config st)) (st_segments st @ [hlsNewSegment ?b data later]) = Some (st_segments st1)"
      "st1 = ?b\<lparr>st_tsMuxer := m, st_mediaSeq := st_mediaSeq ?b + 1,
         st_currentSeg := Some (hlsNewSegment ?b data later), st_parts := [], st_segments := st_segments st1\<rparr>"
      by (elim hlsCutSegment_cases) auto
    have f: "st_id st1 = st_id st" "st_config st1 = st_config st" "st_parts st1 = []"
      "st_gopBuffer st1 = st_gopBuffer st @ [frame]" by (subst c(2), simp)+
    have "hls_inv (fs @ [frame]) (st1\<lparr>st_segStart := now\<rparr>)"
      using b set_trimWindow [OF c(1)] by (auto simp: hls_inv_def f hlsNewSegment_def)
    from hls_inv_parts [OF this 2(4)] hls_parts_only_simps [OF 2(4)] f
    show "hls_inv (fs @ [frame]) st' \<and> st_id st' = st_id st \<and> st_config st' = st_config st" by simp
  qed
qed

lemma hls_inv_run:
  assumes "hls_inv fs st" "run_opt hlsPushFrame is st = Some st'"
  shows "hls_inv (fs @ map (snd \<circ> snd) is) st' \<and> st_id st' = st_id st \<and> st_config st' = st_config st"
  using assms
proof (induction "is" arbitrary: fs st)
  case (Cons i "is")
  obtain now later frame where i: "i = (now, later, frame)" by (cases i)
  from Cons.prems(2) obtain s1 where s: "hlsPushFrame i st = Some s1" "run_opt hlsPushFrame is s1 = Some st'"
    by (auto split: Option.bind_splits)
  note p = hls_inv_push [OF Cons.prems(1) s(1) [unfolded i]]
  from Cons.IH [OF p(1) s(2)] p show ?case by (simp add: i)
qed simp

lemma hls_run:
  assumes "0 \<le> hc_MaxSegments c"
  obtains st where "run_opt hlsPushFrame is (hlsNewStream c sid v a t0) = Some st"
    "hls.window st" "hls_inv (map (snd \<circ> snd) is) st" "st_id st = sid" "st_config st = c"
proof -
  let ?s = "hlsNewStream c sid v a t0"
  have w: "hls.window ?s" using assms by (simp add: hls.window_def hlsNewStream_def seq_window_def)
  have i: "hls_inv [] ?s" by (simp add: hls_inv_def hlsNewStream_def)
  from hls.window_run [OF w] obtain st where "run_opt hlsPushFrame is ?s = Some st" "hls.window st" by blast
  with hls_inv_run [OF i this(1)] that show thesis by (simp add: hlsNewStream_def)
qed

text \<open>In a window shorter than the range of sequence numbers, no partial segment belongs to a
  listed segment and no two segments share a URI.\<close>

lemma hls_distinct:
  assumes "hls.window st" "hls_inv fs st" "hc_MaxSegments (st_config st) < 2 ^ 64"
  shows "inj_on sg_URI (set (st_segments st))"
    and "p \<in> set (st_parts st) \<Longrightarrow> g \<in> set (st_segments st) \<Longrightarrow> sg_Sequence p \<noteq> sg_Sequence g"
proof -
  have n: "length (st_segments st) < 2 ^ 64" using assms(1,3) by (simp add: hls.window_def)
  have w: "map sg_Sequence (st_segments st) = seq_window (st_mediaSeq st) (length (st_segments st))"
    using assms(1) by (simp add: hls.window_def)
  have "distinct (map sg_Sequence (st_segments st))"
    unfolding w by (rule distinct_seq_window [OF n])
  then show "inj_on sg_URI (set (st_segments st))"
    using assms(2) by (auto simp: hls_inv_def inj_on_def distinct_map)
  assume pg: "p \<in> set (st_parts st)" "g \<in> set (st_segments st)"
  have "sg_Sequence p \<in> set (map sg_Sequence (st_parts st))" using pg(1) by simp
  then have "sg_Sequence p = st_mediaSeq st" using assms(2) by (auto simp only: hls_inv_def set_replicate_conv_if split: if_splits)
  moreover have "sg_Sequence g \<in> set (seq_window (st_mediaSeq st) (length (st_segments st)))"
    unfolding w [symmetric] using pg(2) by simp
  ultimately show "sg_Sequence p \<noteq> sg_Sequence g" using seq_window_notin [OF n] by metis
qed

lemma HlsGetSegment_listed:
  assumes "hls.window st" "hls_inv fs st" "hc_MaxSegments (st_config st) < 2 ^ 64" "g \<in> set (st_segments st)"
  shows "HlsGetSegment st (sg_URI g) = Some (sg_Data g)"
  using find_unique [of g "st_segments st" sg_URI, OF assms(4) refl hls_distinct(1) [OF assms(1-3)]]
  by (simp add: HlsGetSegment_def)

lemma hls_part_URI:
  assumes "hls_inv fs st" "k < length (st_parts st)"
  shows "sg_URI (st_parts st ! k) = partURI (st_id st) (st_mediaSeq st) k"
  using assms by (metis (no_types, lifting) hls_inv_def add_0 length_map length_upt diff_zero nth_map nth_upt)

lemma HlsGetSegment_part:
  assumes "hls_inv fs st" "k < length (st_parts st)"
  shows "HlsGetSegment st (partURI (st_id st) (st_mediaSeq st) k) = Some (sg_Data (st_parts st ! k))"
proof -
  let ?u = "partURI (st_id st) (st_mediaSeq st)"
  have "find (\<lambda>g. sg_URI g = ?u k) (st_segments st) = None"
    using assms(1) by (auto simp: find_None_iff hls_inv_def)
  moreover have "inj_on sg_URI (set (st_parts st))"
    by (auto simp: inj_on_def in_set_conv_nth hls_part_URI [OF assms(1)])
  then have "find (\<lambda>g. sg_URI g = ?u k) (st_parts st) = Some (st_parts st ! k)"
    using find_unique [of "st_parts st ! k" "st_parts st" sg_URI "?u k"] hls_part_URI [OF assms] assms(2)
    by simp
  ultimately show ?thesis by (simp add: HlsGetSegment_def)
qed

section \<open>The playlist\<close>

lemma split_lines_line:
  "CHR 0x0A \<notin> set l \<Longrightarrow> split_lines acc (l @ nl @ r) = (rev acc @ l) # split_lines [] r"
  by (induction l arbitrary: acc) (auto simp: nl_def)

lemma split_lines_unlines: "\<forall>l \<in> set ls. CHR 0x0A \<notin> set l \<Longrightarrow> split_lines [] (unlines ls) = ls"
  by (induction ls) (auto simp: unlines_def split_lines_line)

lemma fmt3_line [simp]: "CHR 0x0A \<notin> set (fmt3 x)"
  using fmt3_chars [of "CHR 0x0A" x] by (auto simp: is_digit_def)

lemma itoa_line [simp]: "CHR 0x0A \<notin> set (itoa n)"
  using itoa_is_digit [of "CHR 0x0A" n] by (auto simp: is_digit_def)

lemma header_lines_eq: "playlistHeader st = unlines (header_lines st)"
  by (simp add: playlistHeader_def unlines_def header_lines_def split: list.splits)

lemma header_lines_tags:
  "l \<in> set (header_lines st) \<Longrightarrow> CHR 0x0A \<notin> set l \<and> hd l = CHR ''#'' \<and> take 12 l \<noteq> ''#EXT-X-PART:''"
  by (auto simp: header_lines_def fmt_int_def split: if_splits)

lemma GeneratePlaylist_lines:
  assumes "hls.window st" "hls_inv fs st" "hc_MaxSegments (st_config st) < 2 ^ 64"
  shows "GeneratePlaylist st =
     unlines (header_lines st @ concat (map (\<lambda>g. [extinf_line g, sg_URI g]) (st_segments st)) @ hint_lines st)"
proof -
  have "playlistEntry st g = unlines [extinf_line g, sg_URI g]" if "g \<in> set (st_segments st)" for g
  proof -
    have "filter (\<lambda>p. sg_Sequence p = sg_Sequence g) (st_parts st) = []"
      using hls_distinct(2) [OF assms] that by (auto simp: filter_empty_conv)
    then show ?thesis by (simp add: playlistEntry_def unlines_def extinf_line_def)
  qed
  then have "concat (map (playlistEntry st) gs) = unlines (concat (map (\<lambda>g. [extinf_line g, sg_URI g]) gs))"
    if "set gs \<subseteq> set (st_segments st)" for gs
    using that by (induction gs) (auto simp: unlines_def)
  then show ?thesis
    by (simp add: GeneratePlaylist_def header_lines_eq playlistHint_def hint_lines_def unlines_def)
qed

lemma hls_URI_line:
  assumes "hls_inv fs st" "g \<in> set (st_segments st)" "CHR 0x0A \<notin> set (st_id st)" "take 1 (st_id st) \<noteq> ''#''"
  shows "CHR 0x0A \<notin> set (sg_URI g)" "sg_URI g \<noteq> []" "hd (sg_URI g) \<noteq> CHR ''#''"
    "take 12 (sg_URI g) \<noteq> ''#EXT-X-PART:''"
proof -
  have u: "sg_URI g = segmentURI (st_id st) (hc_Mode (st_config st)) (sg_Sequence g)"
    using assms(1,2) by (simp add: hls_inv_def)
  show "CHR 0x0A \<notin> set (sg_URI g)" using assms(3) by (simp add: u segmentURI_def)
  show "sg_URI g \<noteq> []" by (simp add: u segmentURI_def)
  show h: "hd (sg_URI g) \<noteq> CHR ''#''"
    using assms(4) by (cases "st_id st") (auto simp: u segmentURI_def)
  show "take 12 (sg_URI g) \<noteq> ''#EXT-X-PART:''" using h by (cases "sg_URI g") auto
qed

lemma playlist_split:
  assumes "hls.window st" "hls_inv fs st" "hc_MaxSegments (st_config st) < 2 ^ 64"
    "CHR 0x0A \<notin> set (st_id st)" "take 1 (st_id st) \<noteq> ''#''"
  shows "split_lines [] (GeneratePlaylist st) =
     header_lines st @ concat (map (\<lambda>g. [extinf_line g, sg_URI g]) (st_segments st)) @ hint_lines st"
  unfolding GeneratePlaylist_lines [OF assms(1-3)]
proof (rule split_lines_unlines, rule ballI)
  fix l assume "l \<in> set (header_lines st @ concat (map (\<lambda>g. [extinf_line g, sg_URI g]) (st_segments st)) @ hint_lines st)"
  then consider "l \<in> set (header_lines st)" | g where "g \<in> set (st_segments st)" "l = extinf_line g"
    | g where "g \<in> set (st_segments st)" "l = sg_URI g" | "l \<in> set (hint_lines st)" by auto
  then show "CHR 0x0A \<notin> set l"
  proof cases
    case 1 then show ?thesis using header_lines_tags by blast
  next
    case 3 then show ?thesis using hls_URI_line [OF assms(2) _ assms(4,5)] by blast
  qed (use assms(4) in \<open>auto simp: extinf_line_def hint_lines_def partURI_def dq_def split: if_splits\<close>)
qed

lemma m3u8_uris_playlist:
  assumes "hls.window st" "hls_inv fs st" "hc_MaxSegments (st_config st) < 2 ^ 64"
    "CHR 0x0A \<notin> set (st_id st)" "take 1 (st_id st) \<noteq> ''#''"
  shows "m3u8_uris (GeneratePlaylist st) = map sg_URI (st_segments st)"
proof -
  let ?P = "\<lambda>l. l \<noteq> [] \<and> hd l \<noteq> CHR ''#''"
  have h: "filter ?P (header_lines st) = []" using header_lines_tags by (auto simp: filter_empty_conv)
  have i: "filter ?P (hint_lines st) = []" by (simp add: hint_lines_def)
  have "filter ?P (concat (map (\<lambda>g. [extinf_line g, sg_URI g]) gs)) = map sg_URI gs"
    if "set gs \<subseteq> set (st_segments st)" for gs
    using that hls_URI_line(2,3) [OF assms(2) _ assms(4,5)]
    by (induction gs) (auto simp: extinf_line_def)
  then show ?thesis by (simp add: m3u8_uris_def playlist_split [OF assms] h i)
qed

section \<open>Properties\<close>

text \<open>
  C32. The segment window. Pushing any frames at any clock readings into a new stream never panics
  when \<open>MaxSegments\<close> is not negative, and afterwards the stream holds at most \<open>MaxSegments\<close>
  segments, which carry the consecutive sequence numbers just before \<open>mediaSeq\<close>.
\<close>

theorem hls_window:
  assumes "0 \<le> hc_MaxSegments c"
  shows "\<exists>st. run_opt hlsPushFrame is (hlsNewStream c sid v a t0) = Some st \<and>
     int (length (st_segments st)) \<le> hc_MaxSegments c \<and>
     map sg_Sequence (st_segments st) = seq_window (st_mediaSeq st) (length (st_segments st))"
  using hls_run [OF assms, of "is" sid v a t0] by (metis hls.window_def)

theorem hls_window_witness:
  "\<exists>st. run_opt hlsPushFrame [] (hlsNewStream HlsDefaultConfig ''live'' CodecH264 CodecAAC 0) = Some st \<and>
     int (length (st_segments st)) \<le> hc_MaxSegments HlsDefaultConfig \<and>
     map sg_Sequence (st_segments st) = seq_window (st_mediaSeq st) (length (st_segments st))"
  by (rule hls_window) (simp add: HlsDefaultConfig_def)

text \<open>
  C9. What a player sees. After any frames, a request for the stream returns the playlist, the
  media URIs a player reads from it are those of the kept segments in order, and a request for
  each of them returns exactly that segment's data. The stream id is a path element that is
  neither empty nor looks like a tag; \<open>MaxSegments\<close> is below 2 to the 64.
\<close>

theorem hls_player:
  assumes "0 \<le> hc_MaxSegments c" "hc_MaxSegments c < 2 ^ 64"
    "sid \<noteq> ''''" "CHR ''/'' \<notin> set sid" "CHR 0x0A \<notin> set sid" "take 1 sid \<noteq> ''#''"
  shows "\<exists>st. run_opt hlsPushFrame is (hlsNewStream c sid v a t0) = Some st \<and>
     (let s = \<lparr>hs_config = c, hs_streams = [sid \<mapsto> st]\<rparr> in
      handleHLS s (hc_Path c @ ''/'' @ sid) '''' '''' w =
        (Some \<lparr>rsp_Status = 200, rsp_ContentType = ''application/vnd.apple.mpegurl'',
               rsp_CacheControl = ''no-cache'', rsp_Body = lit (GeneratePlaylist st)\<rparr>, s) \<and>
      m3u8_uris (GeneratePlaylist st) = map sg_URI (st_segments st) \<and>
      (\<forall>g \<in> set (st_segments st).
         handleHLS s (hc_Path c @ ''/'' @ sid @ ''/'' @ sg_URI g) '''' '''' w =
           (Some \<lparr>rsp_Status = 200,
                  rsp_ContentType = (if hc_Mode c = ModeLLHLS then ''video/iso.segment'' else ''video/mp2t''),
                  rsp_CacheControl = ''public, max-age=3600'', rsp_Body = sg_Data g\<rparr>, s)))"
proof -
  obtain st where st: "run_opt hlsPushFrame is (hlsNewStream c sid v a t0) = Some st"
    "hls.window st" "hls_inv (map (snd \<circ> snd) is) st" "st_id st = sid" "st_config st = c"
    using hls_run [OF assms(1)] by blast
  have g: "HlsGetSegment st (sg_URI g) = Some (sg_Data g)" "sg_URI g \<noteq> []"
      "sg_URI g \<noteq> ''playlist.m3u8''" "HasSuffix (sg_URI g) ''.m4s'' \<longleftrightarrow> hc_Mode c = ModeLLHLS"
    if "g \<in> set (st_segments st)" for g
    using HlsGetSegment_listed [OF st(2,3) _ that] st(3-5) that assms(2)
    by (simp_all add: hls_inv_def segmentURI_shape)
  have n: "SplitN2 sid CHR ''/'' = [sid]" "\<And>u. SplitN2 (sid @ ''/'' @ u) CHR ''/'' = [sid, u]"
    using assms(4) by (simp_all add: SplitN2_none SplitN2_sep)
  have t: "TrimPrefix (hc_Path c @ ''/'' @ u) (hc_Path c @ ''/'') = u" for u
    using TrimPrefix_append [of "hc_Path c @ ''/''" u] by (simp only: append_assoc)
  have m: "m3u8_uris (GeneratePlaylist st) = map sg_URI (st_segments st)"
    using m3u8_uris_playlist [OF st(2,3)] st(4,5) assms by simp
  have "handleHLS \<lparr>hs_config = c, hs_streams = [sid \<mapsto> st]\<rparr> (hc_Path c @ ''/'' @ u) '''' '''' w =
      (Some (serveHLS st (SplitN2 u CHR ''/'')), \<lparr>hs_config = c, hs_streams = [sid \<mapsto> st]\<rparr>)"
    if "SplitN2 u CHR ''/'' ! 0 = sid" for u
    using assms(3) 
    by (simp add: handleHLS_def t [simplified] HlsGetStream_def that Let_def)
  note h = this
  have sg: "serveHLS st [sid] = \<lparr>rsp_Status = 200, rsp_ContentType = ''application/vnd.apple.mpegurl'',
      rsp_CacheControl = ''no-cache'', rsp_Body = lit (GeneratePlaylist st)\<rparr>"
    "\<And>g. g \<in> set (st_segments st) \<Longrightarrow> serveHLS st [sid, sg_URI g] =
      \<lparr>rsp_Status = 200,
       rsp_ContentType = (if hc_Mode c = ModeLLHLS then ''video/iso.segment'' else ''video/mp2t''),
       rsp_CacheControl = ''public, max-age=3600'', rsp_Body = sg_Data g\<rparr>"
    using g by (simp_all add: serveHLS_def)
  show ?thesis
    using h [of sid] h [of "sid @ ''/'' @ sg_URI (_ :: HlsSegment)"] m st(1) sg
    unfolding Let_def by (intro exI [of _ st] conjI ballI) (simp_all add: n [simplified])
qed

theorem hls_player_witness:
  "\<exists>st. run_opt hlsPushFrame [(5, 7, zero_frame)] (hlsNewStream HlsDefaultConfig ''live'' CodecH264 CodecAAC 0) = Some st \<and>
     (let s = \<lparr>hs_config = HlsDefaultConfig, hs_streams = [''live'' \<mapsto> st]\<rparr> in
      handleHLS s (hc_Path HlsDefaultConfig @ ''/'' @ ''live'') '''' '''' PartReady =
        (Some \<lparr>rsp_Status = 200, rsp_ContentType = ''application/vnd.apple.mpegurl'',
               rsp_CacheControl = ''no-cache'', rsp_Body = lit (GeneratePlaylist st)\<rparr>, s) \<and>
      m3u8_uris (GeneratePlaylist st) = map sg_URI (st_segments st) \<and>
      (\<forall>g \<in> set (st_segments st).
         handleHLS s (hc_Path HlsDefaultConfig @ ''/'' @ ''live'' @ ''/'' @ sg_URI g) '''' '''' PartReady =
           (Some \<lparr>rsp_Status = 200,
                  rsp_ContentType = (if hc_Mode HlsDefaultConfig = ModeLLHLS then ''video/iso.segment'' else ''video/mp2t''),
                  rsp_CacheControl = ''public, max-age=3600'', rsp_Body = sg_Data g\<rparr>, s)))"
  by (rule hls_player) (simp_all add: HlsDefaultConfig_def)

text \<open>
  C33. Partial segments are served but never announced. In every stream the partial segments carry
  the sequence number of the segment that is still open, so no line of the playlist is an
  \<open>EXT-X-PART\<close> tag; still every partial segment can be downloaded under its URI, and the URI of
  the preload hint is not available yet.
\<close>

theorem hls_parts_not_listed:
  assumes "0 \<le> hc_MaxSegments c" "hc_MaxSegments c < 2 ^ 64" "CHR 0x0A \<notin> set sid" "take 1 sid \<noteq> ''#''"
  shows "\<exists>st. run_opt hlsPushFrame is (hlsNewStream c sid v a t0) = Some st \<and>
     (\<forall>l \<in> set (split_lines [] (GeneratePlaylist st)). take 12 l \<noteq> ''#EXT-X-PART:'') \<and>
     (\<forall>k < length (st_parts st).
        HlsGetSegment st (partURI sid (st_mediaSeq st) k) = Some (sg_Data (st_parts st ! k))) \<and>
     HlsGetSegment st (partURI sid (st_mediaSeq st) (length (st_parts st))) = None"
proof -
  obtain st where st: "run_opt hlsPushFrame is (hlsNewStream c sid v a t0) = Some st"
    "hls.window st" "hls_inv (map (snd \<circ> snd) is) st" "st_id st = sid" "st_config st = c"
    using hls_run [OF assms(1)] by blast
  have "take 12 l \<noteq> ''#EXT-X-PART:''" if "l \<in> set (split_lines [] (GeneratePlaylist st))" for l
  proof -
    have "l \<in> set (header_lines st @ concat (map (\<lambda>g. [extinf_line g, sg_URI g]) (st_segments st)) @ hint_lines st)"
      using that playlist_split [OF st(2,3)] st(4,5) assms by simp
    then show ?thesis
      using header_lines_tags hls_URI_line(4) [OF st(3)] st(4) assms(3,4)
      by (auto simp: extinf_line_def hint_lines_def split: if_splits)
  qed
  moreover have "HlsGetSegment st (partURI sid (st_mediaSeq st) (length (st_parts st))) = None"
  proof -
    have "sg_URI p \<noteq> partURI sid (st_mediaSeq st) (length (st_parts st))" if "p \<in> set (st_parts st)" for p
      using that hls_part_URI [OF st(3)] st(4) by (auto simp: in_set_conv_nth)
    then show ?thesis using st(3,4) by (auto simp: HlsGetSegment_def find_None_iff hls_inv_def split: option.splits)
  qed
  ultimately show ?thesis
    using st(1,4) HlsGetSegment_part [OF st(3)] by auto
qed

theorem hls_parts_not_listed_witness:
  "\<exists>st. run_opt hlsPushFrame [(300000000, 300000007, zero_frame)]
        (hlsNewStream HlsDefaultConfig ''live'' CodecH264 CodecAAC 0) = Some st \<and>
     (\<forall>l \<in> set (split_lines [] (GeneratePlaylist st)). take 12 l \<noteq> ''#EXT-X-PART:'') \<and>
     (\<forall>k < length (st_parts st).
        HlsGetSegment st (partURI ''live'' (st_mediaSeq st) k) = Some (sg_Data (st_parts st ! k))) \<and>
     HlsGetSegment st (partURI ''live'' (st_mediaSeq st) (length (st_parts st))) = None"
  by (rule hls_parts_not_listed) (simp_all add: HlsDefaultConfig_def)

text \<open>
  C34. Segments repeat the past. Nothing empties the frame buffer, so when a frame makes a stream
  cut a segment, the data of that segment are all frames pushed since the stream was created, not
  those since the previous cut.
\<close>

theorem hls_segments_accumulate:
  assumes "run_opt hlsPushFrame is (hlsNewStream c sid v a t0) = Some st"
    "hlsPushFrame (now, later, frame) st = Some st'" "st_mediaSeq st' \<noteq> st_mediaSeq st" "0 < hc_MaxSegments c"
  shows "segmentData (hc_Mode c) (st_tsMuxer st) (map (snd \<circ> snd) is @ [frame]) =
           Some (sg_Data (last (st_segments st')), st_tsMuxer st')"
proof -
  let ?b = "st\<lparr>st_gopBuffer := st_gopBuffer st @ [frame]\<rparr>"
  have "hls_inv [] (hlsNewStream c sid v a t0)" by (simp add: hls_inv_def hlsNewStream_def)
  from hls_inv_run [OF this assms(1)] have i: "st_gopBuffer st = map (snd \<circ> snd) is" "st_config st = c"
    by (simp_all add: hls_inv_def hlsNewStream_def)
  show ?thesis
    using assms(2)
  proof (cases rule: hlsPushFrame_cases)
    case 1
    then show ?thesis using hls_parts_only_simps(4) [OF 1] assms(3) by simp
  next
    case (2 st1)
    then obtain m data where c:
      "segmentData (hc_Mode c) (st_tsMuxer st) (st_gopBuffer st @ [frame]) = Some (data, m)"
      "trimWindow (hc_MaxSegments c) (st_segments st @ [hlsNewSegment ?b data later]) = Some (st_segments st1)"
      "st1 = ?b\<lparr>st_tsMuxer := m, st_mediaSeq := st_mediaSeq ?b + 1,
         st_currentSeg := Some (hlsNewSegment ?b data later), st_parts := [], st_segments := st_segments st1\<rparr>"
      by (elim hlsCutSegment_cases) (auto simp: i)
    have "st_segments st1 = drop (Suc (length (st_segments st)) - nat (hc_MaxSegments c)) (st_segments st) @
        [hlsNewSegment ?b data later]"
      using c(2) assms(4) by (simp add: trimWindow_drop)
    then have "last (st_segments st1) = hlsNewSegment ?b data later" by simp
    moreover have "st_tsMuxer st1 = m" by (subst c(3)) simp
    ultimately show ?thesis
      using c(1) i hls_parts_only_simps [OF 2(4)] by (simp add: hlsNewSegment_def)
  qed
qed


lemma hls_example:
  defines "s \<equiv> hlsNewStream HlsDefaultConfig ''live'' CodecH264 CodecAAC 0"
  shows "run_opt hlsPushFrame [(0, 0, key_frame)] s = Some (s\<lparr>st_gopBuffer := [key_frame]\<rparr>)"
    and "map_option (\<lambda>st'. (st_mediaSeq st', map sg_Data (st_segments st')))
           (hlsPushFrame (2000000000, 2000000001, key_frame) (s\<lparr>st_gopBuffer := [key_frame]\<rparr>)) = Some (1, [[7, 7]])"
  by (simp_all add: s_def hlsNewStream_def HlsDefaultConfig_def hlsPushFrame_def hlsCutSegment_def
      trimWindow_def hlsNewSegment_def hlsCutPartialSegment_def segmentData_LLHLS Let_def key_frame_def)

theorem hls_segments_accumulate_witness:
  "\<exists>m. segmentData ModeLLHLS NewTSMuxer (map (snd \<circ> snd) [(0 :: int, 0 :: int, key_frame)] @ [key_frame]) =
     Some ([7, 7], m)"
proof -
  from hls_example(2) [unfolded map_option_eq_Some]
  obtain st' where "hlsPushFrame (2000000000, 2000000001, key_frame)
      (hlsNewStream HlsDefaultConfig ''live'' CodecH264 CodecAAC 0\<lparr>st_gopBuffer := [key_frame]\<rparr>) = Some st' \<and>
      (st_mediaSeq st', map sg_Data (st_segments st')) = (1, [[7, 7]])"
    by (elim exE) (rule that)
  note e = this [unfolded prod.inject]
  note st' = conjunct1 [OF e] conjunct1 [OF conjunct2 [OF e]] conjunct2 [OF conjunct2 [OF e]]
  let ?s = "hlsNewStream HlsDefaultConfig ''live'' CodecH264 CodecAAC 0"
  have c: "hc_Mode HlsDefaultConfig = ModeLLHLS" "0 < hc_MaxSegments HlsDefaultConfig"
    by (simp_all add: HlsDefaultConfig_def)
  have n: "st_tsMuxer (?s\<lparr>st_gopBuffer := [key_frame]\<rparr>) = NewTSMuxer"
    "st_mediaSeq (?s\<lparr>st_gopBuffer := [key_frame]\<rparr>) = 0" by (simp_all add: hlsNewStream_def)
  have "st_mediaSeq st' \<noteq> st_mediaSeq (?s\<lparr>st_gopBuffer := [key_frame]\<rparr>)"
    unfolding n st'(2) by simp
  from hls_segments_accumulate [OF hls_example(1) st'(1) this c(2)]
  have "segmentData ModeLLHLS NewTSMuxer (map (snd \<circ> snd) [(0 :: int, 0 :: int, key_frame)] @ [key_frame]) =
      Some (sg_Data (last (st_segments st')), st_tsMuxer st')" unfolding n c(1) .
  moreover have "sg_Data (last (st_segments st')) = [7, 7]" using st'(3) by (cases "st_segments st'") auto
  ultimately show ?thesis by metis
qed

end
