(* ===== verification/DashInit.thy ===== *)
theory DashInit
  imports Prelude
begin

text \<open>
  The fMP4 initialization segment of the DASH server (\<open>pkg/protocol/dash/mp4_init.go\<close>): every
  box builder of the source, with the 32-bit size of a box as the code computes it. A reader of
  ISO boxes is defined next to them; the theorems say what it makes of the segment.
\<close>

section \<open>Boxes\<close>

text \<open>\<open>copy(b[4:8], boxType)\<close> copies at most four bytes and leaves the others zero.\<close>

definition box :: "string \<Rightarrow> bytes \<Rightarrow> bytes" where
  "box boxType data =
     be32 (of_nat (8 + length data)) @ take 4 (lit boxType @ replicate 4 0) @ data"

definition fullBox :: "string \<Rightarrow> u8 \<Rightarrow> u32 \<Rightarrow> bytes \<Rightarrow> bytes" where
  "fullBox boxType version flags data =
     box boxType ([version, ucast (drop_bit 16 flags), ucast (drop_bit 8 flags), ucast flags] @ data)"

definition put_u32 :: "u32 \<Rightarrow> bytes" where
  [layout]: "put_u32 v = be32 v"

definition put_u16 :: "u16 \<Rightarrow> bytes" where
  [layout]: "put_u16 v = be16 v"

abbreviation zeros :: "nat \<Rightarrow> bytes" where
  "zeros n \<equiv> replicate n 0"

section \<open>Headers\<close>

definition ftypData :: bytes where
  "ftypData = lit ''iso5'' @ put_u32 0x200 @ lit ''iso5'' @ lit ''avc1'' @ lit ''mp42''"

definition identityMatrix :: bytes where
  "identityMatrix =
     put_u32 0x00010000 @ put_u32 0 @ put_u32 0 @ put_u32 0 @ put_u32 0x00010000 @ put_u32 0 @
     put_u32 0 @ put_u32 0 @ put_u32 0x40000000"

definition mvhdData :: bytes where
  "mvhdData =
     fullBox ''mvhd'' 0 0
       (put_u32 0 @ put_u32 0 @ put_u32 1000 @ put_u32 0 @ put_u32 0x00010000 @ put_u16 0x0100 @
        zeros 10 @ identityMatrix @ zeros 24 @ put_u32 3)"

definition tkhdData :: "u32 \<Rightarrow> u32 \<Rightarrow> u32 \<Rightarrow> u32 \<Rightarrow> bytes" where
  "tkhdData trackID width height volume =
     fullBox ''tkhd'' 0 0x000007
       (put_u32 0 @ put_u32 0 @ put_u32 trackID @ put_u32 0 @ put_u32 0 @ zeros 8 @ put_u16 0 @
        put_u16 0 @ put_u16 (ucast volume) @ put_u16 0 @ identityMatrix @
        put_u32 (push_bit 16 width) @ put_u32 (push_bit 16 height))"

definition mdhdData :: "u32 \<Rightarrow> bytes" where
  "mdhdData timescale =
     fullBox ''mdhd'' 0 0
       (put_u32 0 @ put_u32 0 @ put_u32 timescale @ put_u32 0 @ put_u16 0x55C4 @ put_u16 0)"

definition hdlrData :: "string \<Rightarrow> string \<Rightarrow> bytes" where
  "hdlrData handlerType name =
     fullBox ''hdlr'' 0 0 (put_u32 0 @ lit handlerType @ zeros 12 @ (lit name @ [0]))"

definition trexData :: "u32 \<Rightarrow> bytes" where
  "trexData trackID =
     fullBox ''trex'' 0 0 (put_u32 trackID @ put_u32 1 @ put_u32 0 @ put_u32 0 @ put_u32 0)"

section \<open>The video track\<close>

definition buildVisualSampleEntry :: "string \<Rightarrow> u16 \<Rightarrow> u16 \<Rightarrow> bytes" where
  "buildVisualSampleEntry codec width height =
     box codec
       (zeros 6 @ put_u16 1 @ put_u16 0 @ put_u16 0 @ zeros 12 @ put_u16 width @ put_u16 height @
        put_u32 0x00480000 @ put_u32 0x00480000 @ put_u32 0 @ put_u16 1 @ zeros 32 @ put_u16 0x0018 @
        put_u16 0xFFFF)"

definition buildVideoStbl :: "string \<Rightarrow> u32 \<Rightarrow> u32 \<Rightarrow> bytes" where
  "buildVideoStbl codec width height =
     box ''stbl''
       (fullBox ''stsd'' 0 0 (put_u32 1 @ buildVisualSampleEntry codec (ucast width) (ucast height)) @
        fullBox ''stts'' 0 0 (put_u32 0) @ fullBox ''stsc'' 0 0 (put_u32 0) @
        fullBox ''stsz'' 0 0 (put_u32 0 @ put_u32 0) @ fullBox ''stco'' 0 0 (put_u32 0))"

definition buildVideoMinf :: "string \<Rightarrow> u32 \<Rightarrow> u32 \<Rightarrow> bytes" where
  "buildVideoMinf codec width height =
     box ''minf''
       (fullBox ''vmhd'' 0 1 ([0x00, 0x00] @ zeros 6) @
        box ''dinf'' (put_u32 1 @ box ''dref'' (fullBox ''url '' 0 1 [])) @
        buildVideoStbl codec width height)"

definition buildVideoTrak :: "u32 \<Rightarrow> string \<Rightarrow> u32 \<Rightarrow> u32 \<Rightarrow> bytes" where
  "buildVideoTrak trackID codec width height =
     box ''trak''
       (tkhdData trackID width height 0 @
        box ''mdia'' (mdhdData 1000 @ hdlrData ''vide'' ''VideoHandler'' @ buildVideoMinf codec width height))"

section \<open>The audio track\<close>

definition buildAudioSampleEntry :: "string \<Rightarrow> u16 \<Rightarrow> u16 \<Rightarrow> bytes" where
  "buildAudioSampleEntry codec channels sampleRate =
     box codec
       (zeros 6 @ put_u16 1 @ zeros 8 @ put_u16 channels @ put_u16 16 @ put_u16 0 @ put_u16 0 @
        put_u32 (push_bit 16 (ucast sampleRate)))"

definition buildAudioStbl :: "string \<Rightarrow> u32 \<Rightarrow> u32 \<Rightarrow> bytes" where
  "buildAudioStbl codec sampleRate channels =
     box ''stbl''
       (fullBox ''stsd'' 0 0 (put_u32 1 @ buildAudioSampleEntry codec (ucast channels) (ucast sampleRate)) @
        fullBox ''stts'' 0 0 (put_u32 0) @ fullBox ''stsc'' 0 0 (put_u32 0) @
        fullBox ''stsz'' 0 0 (put_u32 0 @ put_u32 0) @ fullBox ''stco'' 0 0 (put_u32 0))"

definition buildAudioMinf :: "string \<Rightarrow> u32 \<Rightarrow> u32 \<Rightarrow> bytes" where
  "buildAudioMinf codec sampleRate channels =
     box ''minf''
       (fullBox ''smhd'' 0 0 (put_u16 0 @ put_u16 0) @
        box ''dinf'' (put_u32 1 @ box ''dref'' (fullBox ''url '' 0 1 [])) @
        buildAudioStbl codec sampleRate channels)"

definition buildAudioTrak :: "u32 \<Rightarrow> string \<Rightarrow> u32 \<Rightarrow> u32 \<Rightarrow> bytes" where
  "buildAudioTrak trackID codec sampleRate channels =
     box ''trak''
       (tkhdData trackID 0 0 0x0100 @
        box ''mdia'' (mdhdData sampleRate @ hdlrData ''soun'' ''SoundHandler'' @
                      buildAudioMinf codec sampleRate channels))"

section \<open>The segment\<close>

definition moovData :: "string \<Rightarrow> u32 \<Rightarrow> u32 \<Rightarrow> string \<Rightarrow> u32 \<Rightarrow> u32 \<Rightarrow> bytes" where
  "moovData videoCodec width height audioCodec sampleRate channels =
     (let moov = box ''mvhd'' mvhdData;
          trackID = 1;
          (moov, trackID) = (if videoCodec \<noteq> ''''
            then (moov @ buildVideoTrak trackID videoCodec width height, trackID + 1) else (moov, trackID));
          (moov, trackID) = (if audioCodec \<noteq> ''''
            then (moov @ buildAudioTrak trackID audioCodec sampleRate channels, trackID + 1) else (moov, trackID));
          mvex = concat (map (\<lambda>tid. trexData (of_nat tid)) [1..<unat (trackID :: u32)]) in
      moov @ box ''mvex'' mvex)"

definition BuildInitSegment :: "string \<Rightarrow> u32 \<Rightarrow> u32 \<Rightarrow> string \<Rightarrow> u32 \<Rightarrow> u32 \<Rightarrow> bytes" where
  "BuildInitSegment videoCodec width height audioCodec sampleRate channels =
     box ''ftyp'' ftypData @
     box ''moov'' (moovData videoCodec width height audioCodec sampleRate channels)"

section \<open>A reader of boxes\<close>

text \<open>
  How a player reads the boxes of a container: the size covers the eight header bytes and must fit
  in what is left. \<open>None\<close> is a malformed container. (The sizes 0 and 1, which the standard gives
  another meaning, do not fit a header either.)
\<close>

fun read_boxes :: "nat \<Rightarrow> bytes \<Rightarrow> (bytes \<times> bytes) list option" where
  "read_boxes 0 b = None"
| "read_boxes (Suc f) b =
     (if b = [] then Some []
      else if length b < 8 then None
      else let size = unat (u32_at b 0) in
           if size < 8 \<or> length b < size then None
           else map_option (Cons (take 4 (drop 4 b), drop 8 (take size b))) (read_boxes f (drop size b)))"

definition boxes :: "bytes \<Rightarrow> (bytes \<times> bytes) list option" where
  "boxes b = read_boxes (Suc (length b)) b"

text \<open>Track id at its offset in a \<open>trak\<close> (behind its \<open>tkhd\<close> header) and in a \<open>trex\<close> payload.\<close>

definition trak_id :: "bytes \<Rightarrow> u32" where
  "trak_id trak = u32_at trak 20"

definition trex_id :: "bytes \<Rightarrow> u32" where
  "trex_id trex = u32_at trex 4"

text \<open>The payloads of track boxes, without their headers.\<close>

definition videoTrakData :: "u32 \<Rightarrow> string \<Rightarrow> u32 \<Rightarrow> u32 \<Rightarrow> bytes" where
  "videoTrakData trackID codec width height = drop 8 (buildVideoTrak trackID codec width height)"

definition audioTrakData :: "u32 \<Rightarrow> string \<Rightarrow> u32 \<Rightarrow> u32 \<Rightarrow> bytes" where
  "audioTrakData trackID codec sampleRate channels = drop 8 (buildAudioTrak trackID codec sampleRate channels)"

definition trexPayload :: "u32 \<Rightarrow> bytes" where
  "trexPayload i = drop 8 (trexData i)"

section \<open>Lemmas\<close>

lemma read_boxes_enough: "length b < f \<Longrightarrow> length b < g \<Longrightarrow> read_boxes f b = read_boxes g b"
proof (induction f b arbitrary: g rule: read_boxes.induct)
  case (2 f b)
  then obtain g' where g: "g = Suc g'" by (cases g) auto
  show ?case
  proof (cases "b = [] \<or> length b < 8 \<or> unat (u32_at b 0) < 8 \<or> length b < unat (u32_at b 0)")
    case False
    then have "read_boxes f (drop (unat (u32_at b 0)) b) = read_boxes g' (drop (unat (u32_at b 0)) b)"
      using "2.prems" by (intro "2.IH") (auto simp: g)
    with False show ?thesis by (simp add: g Let_def)
  qed (auto simp: g Let_def)
qed simp

lemma length_box [byte_len, simp]: "length (box t d) = 8 + length d"
  by (simp add: box_def)

lemma length_fullBox [byte_len, simp]: "length (fullBox t v fl d) = 12 + length d"
  by (simp add: fullBox_def)

lemma length_put [byte_len, simp]: "length (put_u32 v) = 4" "length (put_u16 w) = 2"
  by (simp_all add: put_u32_def put_u16_def)

lemma boxes_Nil [simp]: "boxes [] = Some []"
  by (simp add: boxes_def)

lemma boxes_box:
  assumes "length t = 4" "8 + length d < 2 ^ 32"
  shows "boxes (box t d @ r) = map_option (Cons (lit t, d)) (boxes r)"
proof -
  have s: "unat (u32_at (box t d @ r) 0) = 8 + length d"
    using assms(2) by (simp add: box_def unat_of_nat_small del: of_nat_add)
  have "drop 4 (box t d @ r) = lit t @ d @ r" using assms(1) by (simp add: box_def)
  then have p: "take 4 (drop 4 (box t d @ r)) = lit t" using assms(1) by simp
  have q: "drop 8 (take (8 + length d) (box t d @ r)) = d" "drop (8 + length d) (box t d @ r) = r"
    using assms(1) by (simp_all add: box_def)
  have "box t d \<noteq> []" by (simp add: box_def be32_def)
  then have "read_boxes (Suc (length (box t d @ r))) (box t d @ r) =
      map_option (Cons (lit t, d)) (read_boxes (length (box t d @ r)) r)"
    unfolding read_boxes.simps(2) Let_def s p q by simp
  moreover have "read_boxes (length (box t d @ r)) r = read_boxes (Suc (length r)) r"
    by (rule read_boxes_enough) auto
  ultimately show ?thesis by (simp add: boxes_def)
qed

lemmas box_contents = mvhdData_def tkhdData_def mdhdData_def hdlrData_def trexData_def identityMatrix_def
  buildVisualSampleEntry_def buildVideoStbl_def buildVideoMinf_def
  buildAudioSampleEntry_def buildAudioStbl_def buildAudioMinf_def

lemma boxes_fullBox:
  assumes "length t = 4" "12 + length d < 2 ^ 32"
  shows "boxes (fullBox t v fl d @ r) =
     map_option (Cons (lit t, [v, ucast (drop_bit 16 fl), ucast (drop_bit 8 fl), ucast fl] @ d)) (boxes r)"
  unfolding fullBox_def using assms by (intro boxes_box) auto

lemma drop_8_box: "drop 8 (box t d) = d"
  by (simp add: box_def)

lemma trak_boxes:
  "boxes (buildVideoTrak i c w h @ r) = map_option (Cons (lit ''trak'', videoTrakData i c w h)) (boxes r)"
  "boxes (buildAudioTrak i c s n @ r) = map_option (Cons (lit ''trak'', audioTrakData i c s n)) (boxes r)"
  unfolding buildVideoTrak_def buildAudioTrak_def videoTrakData_def audioTrakData_def drop_8_box
  by (rule boxes_box; simp add: box_contents)+

lemma u32_at_Cons: "0 < n \<Longrightarrow> u32_at (a # r) n = u32_at r (n - 1)"
  using u32_at_skip [of "[a]" n r] by simp

lemma trak_ids:
  "trak_id (videoTrakData i c w h) = i" "trak_id (audioTrakData i c s n) = i"
  unfolding buildVideoTrak_def buildAudioTrak_def videoTrakData_def audioTrakData_def drop_8_box trak_id_def
    tkhdData_def fullBox_def box_def put_u32_def
  by (simp_all add: u32_at_skip u32_at_Cons)

lemma trex_boxes: "boxes (trexData i @ r) = map_option (Cons (lit ''trex'', trexPayload i)) (boxes r)"
  unfolding trexData_def trexPayload_def fullBox_def drop_8_box by (rule boxes_box) simp_all

lemma trex_ids: "trex_id (trexPayload i) = i"
  by (simp add: trexPayload_def trexData_def fullBox_def drop_8_box trex_id_def put_u32_def u32_at_def be32_def)

section \<open>Properties\<close>

text \<open>
  C35. The initialization segment is a well-formed sequence of boxes: a file type and a movie box,
  the movie box holds the movie header, one track box per codec given and the movie-extends box,
  and the tracks and their extends boxes are numbered alike from 1.
\<close>

theorem dash_init_boxes:
  "boxes (BuildInitSegment vc w h ac sr ch) =
     Some [(lit ''ftyp'', ftypData), (lit ''moov'', moovData vc w h ac sr ch)] \<and>
   (\<exists>traks mvex trexs.
      boxes (moovData vc w h ac sr ch) =
        Some ((lit ''mvhd'', mvhdData) # map (Pair (lit ''trak'')) traks @ [(lit ''mvex'', mvex)]) \<and>
      boxes mvex = Some (map (Pair (lit ''trex'')) trexs) \<and>
      length traks = (if vc = '''' then 0 else 1) + (if ac = '''' then 0 else 1) \<and>
      map trak_id traks = map of_nat [1..<Suc (length traks)] \<and>
      map trex_id trexs = map trak_id traks)"
proof
  have len: "length (moovData vc w h ac sr ch) < 2 ^ 31"
    by (simp add: moovData_def Let_def buildVideoTrak_def buildAudioTrak_def box_contents upt_rec)
  have "boxes (box ''moov'' (moovData vc w h ac sr ch) @ []) = Some [(lit ''moov'', moovData vc w h ac sr ch)]"
    using len by (subst boxes_box) auto
  then show "boxes (BuildInitSegment vc w h ac sr ch) =
     Some [(lit ''ftyp'', ftypData), (lit ''moov'', moovData vc w h ac sr ch)]"
    unfolding BuildInitSegment_def by (subst boxes_box) (auto simp: ftypData_def)
next
  let ?v = "if vc = '''' then [] else [videoTrakData 1 vc w h]"
  let ?a = "if ac = '''' then [] else [audioTrakData (if vc = '''' then 1 else 2) ac sr ch]"
  let ?n = "length (?v @ ?a)"
  let ?x = "concat (map (\<lambda>tid. trexData (of_nat tid)) [1..<Suc ?n])"
  have n: "?n \<le> 2" by simp
  have m: "moovData vc w h ac sr ch =
      box ''mvhd'' mvhdData @ (if vc = '''' then [] else buildVideoTrak 1 vc w h) @
      (if ac = '''' then [] else buildAudioTrak (if vc = '''' then 1 else 2) ac sr ch) @ box ''mvex'' ?x @ []"
    by (simp add: moovData_def Let_def upt_rec)
  have "length ?x \<le> 1000" using n by (auto simp: trexData_def upt_rec)
  then have "boxes (box ''mvex'' ?x @ []) = Some [(lit ''mvex'', ?x)]" by (subst boxes_box) auto
  then have b: "boxes (moovData vc w h ac sr ch) =
      Some ((lit ''mvhd'', mvhdData) # map (Pair (lit ''trak'')) (?v @ ?a) @ [(lit ''mvex'', ?x)])"
    unfolding m by (subst boxes_box) (auto simp: trak_boxes box_contents)
  have "boxes ?x = Some (map (Pair (lit ''trex'')) (map (\<lambda>i. trexPayload (of_nat i)) [1..<Suc ?n]))"
    by (simp add: trex_boxes upt_rec)
  with b show "\<exists>traks mvex trexs.
      boxes (moovData vc w h ac sr ch) =
        Some ((lit ''mvhd'', mvhdData) # map (Pair (lit ''trak'')) traks @ [(lit ''mvex'', mvex)]) \<and>
      boxes mvex = Some (map (Pair (lit ''trex'')) trexs) \<and>
      length traks = (if vc = '''' then 0 else 1) + (if ac = '''' then 0 else 1) \<and>
      map trak_id traks = map of_nat [1..<Suc (length traks)] \<and>
      map trex_id trexs = map trak_id traks"
    by (intro exI [of _ "?v @ ?a"] exI [of _ ?x] exI [of _ "map (\<lambda>i. trexPayload (of_nat i)) [1..<Suc ?n]"])
       (auto simp: trak_ids trex_ids upt_rec)
qed


end
