(* ===== verification/DashServer.thy ===== *)
theory DashServer
  imports SegWindow ProtoTypes DashInit
begin

text \<open>
  The DASH segmenter (\<open>pkg/protocol/dash/segmenter.go\<close>). Clock readings are arguments as in the HLS
  model. The two renderings of wall-clock times in the manifest depend on the calendar and the
  time zone of the host and are arguments of \<open>GenerateMPD\<close>: \<open>nowText\<close> is the current time in
  RFC 3339 form, \<open>clockText\<close> the time of day of an instant.
\<close>

section \<open>Configuration and state\<close>

record DashConfig =
  dc_Addr :: string
  dc_Path :: string
  dc_SegmentDuration :: int
  dc_MaxSegments :: int
  dc_MinBufferTime :: int

definition DashDefaultConfig :: DashConfig where
  "DashDefaultConfig =
     \<lparr>dc_Addr = '':8086'', dc_Path = ''/dash'', dc_SegmentDuration = 2000000000,
      dc_MaxSegments = 5, dc_MinBufferTime = 4000000000\<rparr>"

record DashSegment =
  dg_Index :: nat
  dg_Sequence :: u64
  dg_StartTime :: int
  dg_Duration :: int
  dg_Data :: bytes
  dg_URI :: string

record Representation =
  rp_ID :: string
  rp_Width :: u16
  rp_Height :: u16
  rp_Codec :: CodecType
  rp_SampleRate :: u32
  rp_Channels :: u16

record DashStream =
  ds_id :: string
  ds_config :: DashConfig
  ds_segments :: "DashSegment list"
  ds_gopBuffer :: "MediaFrame list"
  ds_segStart :: int
  ds_mediaSeq :: u64
  ds_videoRep :: "Representation option"
  ds_audioRep :: "Representation option"
  ds_publishTime :: int

record DashSegmenter =
  dm_config :: DashConfig
  dm_streams :: "string \<rightharpoonup> DashStream"

definition DashNewSegmenter :: "DashConfig \<Rightarrow> DashSegmenter" where
  "DashNewSegmenter config = \<lparr>dm_config = config, dm_streams = Map.empty\<rparr>"

section \<open>Streams\<close>

definition dashNewStream ::
  "DashConfig \<Rightarrow> string \<Rightarrow> Representation option \<Rightarrow> Representation option \<Rightarrow> int \<Rightarrow> int \<Rightarrow> DashStream" where
  "dashNewStream config streamID videoRep audioRep now1 now2 =
     \<lparr>ds_id = streamID, ds_config = config, ds_segments = [], ds_gopBuffer = [], ds_segStart = now1,
      ds_mediaSeq = 0, ds_videoRep = videoRep, ds_audioRep = audioRep, ds_publishTime = now2\<rparr>"

definition DashCreateStream ::
  "DashSegmenter \<Rightarrow> string \<Rightarrow> Representation option \<Rightarrow> Representation option \<Rightarrow> int \<Rightarrow> int \<Rightarrow>
   (DashStream \<times> DashSegmenter) option" where
  "DashCreateStream s streamID videoRep audioRep now1 now2 =
     (if dc_MaxSegments (dm_config s) + 2 < 0 then None
      else let st = dashNewStream (dm_config s) streamID videoRep audioRep now1 now2 in
           Some (st, s\<lparr>dm_streams := (dm_streams s)(streamID \<mapsto> st)\<rparr>))"

definition DashRemoveStream :: "DashSegmenter \<Rightarrow> string \<Rightarrow> DashSegmenter" where
  "DashRemoveStream s streamID = s\<lparr>dm_streams := (dm_streams s)(streamID := None)\<rparr>"

definition DashGetStream :: "DashSegmenter \<Rightarrow> string \<Rightarrow> DashStream option" where
  "DashGetStream s streamID = dm_streams s streamID"

section \<open>Cutting segments\<close>

definition dashURI :: "string \<Rightarrow> u64 \<Rightarrow> string" where
  "dashURI sid seq = sid @ ''_'' @ itoa (unat seq) @ ''.m4s''"

definition dashNewSegment :: "DashStream \<Rightarrow> int \<Rightarrow> DashSegment" where
  "dashNewSegment st later =
     \<lparr>dg_Index = length (ds_segments st), dg_Sequence = ds_mediaSeq st, dg_StartTime = ds_segStart st,
      dg_Duration = later - ds_segStart st, dg_Data = concat (map fr_Payload (ds_gopBuffer st)),
      dg_URI = dashURI (ds_id st) (ds_mediaSeq st)\<rparr>"

definition dashCutSegment :: "int \<Rightarrow> DashStream \<Rightarrow> DashStream option" where
  "dashCutSegment later st =
     (if ds_gopBuffer st = [] then Some st
      else map_option
        (\<lambda>segments. st\<lparr>ds_mediaSeq := ds_mediaSeq st + 1, ds_segments := segments\<rparr>)
        (trimWindow (dc_MaxSegments (ds_config st)) (ds_segments st @ [dashNewSegment st later])))"

definition dashPushFrame :: "int \<times> int \<times> MediaFrame \<Rightarrow> DashStream \<Rightarrow> DashStream option" where
  "dashPushFrame = (\<lambda>(now, later, frame) st.
     let st = st\<lparr>ds_gopBuffer := ds_gopBuffer st @ [frame]\<rparr>;
         elapsed = now - ds_segStart st in
     if fr_Type frame = FrameVideo \<and> fr_Marker frame \<and> elapsed \<ge> dc_SegmentDuration (ds_config st) \<or>
        elapsed \<ge> dc_SegmentDuration (ds_config st) * 2
     then map_option (\<lambda>st. st\<lparr>ds_segStart := now\<rparr>) (dashCutSegment later st)
     else Some st)"

datatype DashError = DashStreamNotFound string

definition DashPushFrame ::
  "DashSegmenter \<Rightarrow> string \<Rightarrow> int \<times> int \<times> MediaFrame \<Rightarrow> (DashError option \<times> DashSegmenter) option" where
  "DashPushFrame s streamID i =
     (case DashGetStream s streamID of
        None \<Rightarrow> Some (Some (DashStreamNotFound streamID), s)
      | Some st \<Rightarrow>
          map_option (\<lambda>st. (None, s\<lparr>dm_streams := (dm_streams s)(streamID \<mapsto> st)\<rparr>)) (dashPushFrame i st))"

section \<open>Manifest and downloads\<close>

definition quoted :: "string \<Rightarrow> string \<Rightarrow> string" where
  "quoted k v = k @ ''='' @ dq @ v @ dq"

definition startNum :: "DashStream \<Rightarrow> u64" where
  "startNum st = (case ds_segments st of [] \<Rightarrow> 1 | g # _ \<Rightarrow> dg_Sequence g)"

definition mediaTemplate :: "string \<Rightarrow> string" where
  "mediaTemplate sid = sid @ ''_$Number$.m4s''"

definition audioTemplate :: "string \<Rightarrow> string" where
  "audioTemplate sid = sid @ ''_audio_$Number$.m4s''"

definition segmentTemplate :: "DashStream \<Rightarrow> string \<Rightarrow> string \<Rightarrow> string" where
  "segmentTemplate st media initialization =
     ''        <SegmentTemplate '' @ quoted ''timescale'' ''1000'' @ '' '' @
     quoted ''duration'' (fmt_int (go_trunc (round53 (Seconds (dc_SegmentDuration (ds_config st)) * 1000)))) @ '' '' @
     quoted ''startNumber'' (itoa (unat (startNum st))) @ '' '' @
     quoted ''media'' media @ '' '' @ quoted ''initialization'' initialization @ ''/>'' @ nl @
     ''      </Representation>'' @ nl @ ''    </AdaptationSet>'' @ nl"

definition mpdVideo :: "DashStream \<Rightarrow> string" where
  "mpdVideo st =
     (case ds_videoRep st of
        None \<Rightarrow> ''''
      | Some rep \<Rightarrow>
          ''    <AdaptationSet '' @ quoted ''id'' ''0'' @ '' '' @ quoted ''mimeType'' ''video/mp4'' @ '' '' @
          quoted ''segmentAlignment'' ''true'' @ ''>'' @ nl @
          ''      <Representation '' @ quoted ''id'' (rp_ID rep) @ '' '' @
          quoted ''codecs'' ''avc1.42c01e'' @ '' '' @ quoted ''bandwidth'' ''500000'' @ '' '' @
          quoted ''width'' (itoa (unat (rp_Width rep))) @ '' '' @
          quoted ''height'' (itoa (unat (rp_Height rep))) @ ''>'' @ nl @
          segmentTemplate st (mediaTemplate (ds_id st)) (ds_id st @ ''_init.m4s''))"

definition mpdAudio :: "DashStream \<Rightarrow> string" where
  "mpdAudio st =
     (case ds_audioRep st of
        None \<Rightarrow> ''''
      | Some rep \<Rightarrow>
          ''    <AdaptationSet '' @ quoted ''id'' ''1'' @ '' '' @ quoted ''mimeType'' ''audio/mp4'' @ '' '' @
          quoted ''segmentAlignment'' ''true'' @ ''>'' @ nl @
          ''      <Representation '' @ quoted ''id'' (rp_ID rep) @ '' '' @
          quoted ''codecs'' ''mp4a.40.2'' @ '' '' @ quoted ''bandwidth'' ''128000'' @ '' '' @
          quoted ''audioSamplingRate'' (itoa (unat (rp_SampleRate rep))) @ ''>'' @ nl @
          segmentTemplate st (audioTemplate (ds_id st)) (ds_id st @ ''_audio_init.m4s''))"

definition mpdTimeline :: "(int \<Rightarrow> string) \<Rightarrow> DashStream \<Rightarrow> string" where
  "mpdTimeline clockText st =
     (if ds_segments st = [] then ''''
      else ''    <!-- SegmentTimeline -->'' @ nl @
           concat (map (\<lambda>seg. ''    <!-- seg '' @ itoa (unat (dg_Sequence seg)) @ '': start='' @
                                clockText (dg_StartTime seg) @ '' dur='' @ fmt3 (Seconds (dg_Duration seg)) @
                                ''s -->'' @ nl) (ds_segments st)))"

definition GenerateMPD :: "string \<Rightarrow> (int \<Rightarrow> string) \<Rightarrow> DashStream \<Rightarrow> string" where
  "GenerateMPD nowText clockText st =
     ''<?xml '' @ quoted ''version'' ''1.0'' @ '' '' @ quoted ''encoding'' ''UTF-8'' @ ''?>'' @ nl @
     ''<MPD '' @ quoted ''xmlns'' ''urn:mpeg:dash:schema:mpd:2011'' @ '' '' @
     quoted ''type'' ''dynamic'' @ '' '' @ quoted ''minimumUpdatePeriod'' ''PT2S'' @ '' '' @
     quoted ''minBufferTime'' (''PT'' @ fmt3 (Seconds (dc_MinBufferTime (ds_config st))) @ ''S'') @ '' '' @
     quoted ''profiles'' ''urn:mpeg:dash:profile:isoff-live:2011'' @ '' '' @
     quoted ''publishTime'' nowText @ ''>'' @ nl @
     ''  <Period '' @ quoted ''id'' ''0'' @ '' '' @ quoted ''start'' ''PT0S'' @ ''>'' @ nl @
     mpdVideo st @ mpdAudio st @ mpdTimeline clockText st @
     ''  </Period>'' @ nl @ ''</MPD>'' @ nl"

definition DashGetSegment :: "DashStream \<Rightarrow> string \<Rightarrow> bytes option" where
  "DashGetSegment st uri = map_option dg_Data (find (\<lambda>seg. dg_URI seg = uri) (ds_segments st))"

definition initSegment :: "DashStream \<Rightarrow> bytes" where
  "initSegment st =
     (let (videoCodec, width, height) = (case ds_videoRep st of
            None \<Rightarrow> ('''', 0, 0)
          | Some rep \<Rightarrow> (''avc1'', ucast (rp_Width rep), ucast (rp_Height rep)));
          (audioCodec, sampleRate, channels) = (case ds_audioRep st of
            None \<Rightarrow> ('''', 0, 0)
          | Some rep \<Rightarrow> (''mp4a'', rp_SampleRate rep, ucast (rp_Channels rep))) in
      BuildInitSegment videoCodec width height audioCodec sampleRate channels)"

definition handleDASH :: "string \<Rightarrow> (int \<Rightarrow> string) \<Rightarrow> DashSegmenter \<Rightarrow> string \<Rightarrow> HttpResponse" where
  "handleDASH nowText clockText s url =
     (let parts = SplitN2 (TrimPrefix url (dc_Path (dm_config s) @ ''/'')) CHR ''/'';
          streamID = parts ! 0 in
      if streamID = '''' then http_Error ''missing stream id'' 400
      else case DashGetStream s streamID of
        None \<Rightarrow> http_Error ''stream not found'' 404
      | Some st \<Rightarrow>
          if length parts = 1 \<or> parts ! 1 = '''' \<or> parts ! 1 = ''manifest.mpd''
          then \<lparr>rsp_Status = 200, rsp_ContentType = ''application/dash+xml'', rsp_CacheControl = ''no-cache'',
                 rsp_Body = lit (GenerateMPD nowText clockText st)\<rparr>
          else case DashGetSegment st (parts ! 1) of
            Some data \<Rightarrow>
              \<lparr>rsp_Status = 200, rsp_ContentType = ''video/iso.segment'',
               rsp_CacheControl = ''public, max-age=3600'', rsp_Body = data\<rparr>
          | None \<Rightarrow>
              if Contains (parts ! 1) ''init''
              then \<lparr>rsp_Status = 200, rsp_ContentType = ''video/iso.segment'', rsp_CacheControl = '''',
                     rsp_Body = initSegment st\<rparr>
              else http_Error ''segment not found'' 404)"

section \<open>Specification\<close>

text \<open>
  How a player turns a segment template into the URI of segment \<open>n\<close>: the first identifier
  between dollar signs is replaced by the number. For a template without one, nothing changes.
\<close>

definition expand_template :: "string \<Rightarrow> nat \<Rightarrow> string" where
  "expand_template t n =
     (case SplitN2 t CHR ''$'' of
        [a, b] \<Rightarrow> (case SplitN2 b CHR ''$'' of [_, c] \<Rightarrow> a @ itoa n @ c | _ \<Rightarrow> t)
      | _ \<Rightarrow> t)"

text \<open>
  What every stream keeps: URIs are computed from the sequence numbers, and \<open>mediaSeq\<close> counts the
  cuts, of which there are no more than frames.
\<close>

definition dash_inv :: "MediaFrame list \<Rightarrow> DashStream \<Rightarrow> bool" where
  "dash_inv frames st \<longleftrightarrow>
     ds_gopBuffer st = frames \<and>
     (\<forall>g \<in> set (ds_segments st). dg_URI g = dashURI (ds_id st) (dg_Sequence g)) \<and>
     (\<exists>n. n \<le> length frames \<and> length (ds_segments st) \<le> n \<and> ds_mediaSeq st = of_nat n)"

section \<open>Cuts\<close>

lemma dashPushFrame_cases:
  assumes "dashPushFrame (now, later, frame) st = Some st'"
  obtains "st' = st\<lparr>ds_gopBuffer := ds_gopBuffer st @ [frame]\<rparr>"
  | segments where
      "trimWindow (dc_MaxSegments (ds_config st))
         (ds_segments st @ [dashNewSegment (st\<lparr>ds_gopBuffer := ds_gopBuffer st @ [frame]\<rparr>) later]) = Some segments"
      "st' = st\<lparr>ds_gopBuffer := ds_gopBuffer st @ [frame], ds_mediaSeq := ds_mediaSeq st + 1,
                  ds_segments := segments, ds_segStart := now\<rparr>"
proof -
  let ?b = "st\<lparr>ds_gopBuffer := ds_gopBuffer st @ [frame]\<rparr>"
  have "st' = ?b \<or> (\<exists>segments. trimWindow (dc_MaxSegments (ds_config st))
      (ds_segments st @ [dashNewSegment ?b later]) = Some segments \<and>
      st' = ?b\<lparr>ds_mediaSeq := ds_mediaSeq st + 1, ds_segments := segments, ds_segStart := now\<rparr>)"
    using assms unfolding dashPushFrame_def dashCutSegment_def Let_def prod.case
    by (simp split: if_split_asm) blast+
  with that show thesis by auto
qed

interpretation dash: segment_window dashPushFrame ds_segments ds_mediaSeq
  "\<lambda>st. dc_MaxSegments (ds_config st)" dg_Sequence
proof
  fix s :: DashStream and i assume "0 \<le> dc_MaxSegments (ds_config s)"
  then show "dashPushFrame i s \<noteq> None"
    by (cases i) (auto simp: dashPushFrame_def dashCutSegment_def Let_def trimWindow_drop)
next
  fix i and s s' :: DashStream assume p: "dashPushFrame i s = Some s'"
  obtain now later frame where i: "i = (now, later, frame)" by (cases i)
  show "dc_MaxSegments (ds_config s') = dc_MaxSegments (ds_config s)"
    using p [unfolded i] by (cases rule: dashPushFrame_cases) auto
  show "ds_segments s' = ds_segments s \<and> ds_mediaSeq s' = ds_mediaSeq s \<or>
       (\<exists>g. dg_Sequence g = ds_mediaSeq s \<and> ds_mediaSeq s' = ds_mediaSeq s + 1 \<and>
          trimWindow (dc_MaxSegments (ds_config s)) (ds_segments s @ [g]) = Some (ds_segments s'))"
    using p [unfolded i]
  proof (cases rule: dashPushFrame_cases)
    case (2 segments)
    then show ?thesis
      by (intro disjI2 exI [of _ "dashNewSegment (s\<lparr>ds_gopBuffer := ds_gopBuffer s @ [frame]\<rparr>) later"])
         (simp add: dashNewSegment_def)
  qed simp
qed

lemma dash_inv_push:
  assumes "dash_inv fs st" "dashPushFrame (now, later, frame) st = Some st'"
  shows "dash_inv (fs @ [frame]) st' \<and> ds_id st' = ds_id st \<and> ds_config st' = ds_config st"
  using assms(2)
proof (cases rule: dashPushFrame_cases)
  case 1
  from assms(1) obtain n where "n \<le> length fs" "length (ds_segments st) \<le> n" "ds_mediaSeq st = of_nat n"
    by (auto simp: dash_inv_def)
  then have "\<exists>n \<le> Suc (length fs). length (ds_segments st) \<le> n \<and> ds_mediaSeq st = of_nat n"
    by (intro exI [of _ n]) simp
  with 1 assms(1) show ?thesis by (simp add: dash_inv_def)
next
  case (2 segments)
  from assms(1) obtain n where n: "n \<le> length fs" "length (ds_segments st) \<le> n" "ds_mediaSeq st = of_nat n"
    by (auto simp: dash_inv_def)
  have "length segments \<le> Suc (length (ds_segments st))"
    using 2(1) by (auto simp: trimWindow_def go_slice_def split: if_splits)
  with n have "\<exists>m \<le> Suc (length fs). length segments \<le> m \<and> ds_mediaSeq st + 1 = of_nat m"
    by (intro exI [of _ "Suc n"]) auto
  moreover have "\<forall>g \<in> set segments. dg_URI g = dashURI (ds_id st) (dg_Sequence g)"
    using assms(1) set_trimWindow [OF 2(1)] by (auto simp: dash_inv_def dashNewSegment_def)
  ultimately show ?thesis using assms(1) 2(2) by (simp add: dash_inv_def)
qed

lemma dash_inv_run:
  assumes "dash_inv fs st" "run_opt dashPushFrame is st = Some st'"
  shows "dash_inv (fs @ map (snd \<circ> snd) is) st' \<and> ds_id st' = ds_id st \<and> ds_config st' = ds_config st"
  using assms
proof (induction "is" arbitrary: fs st)
  case (Cons i "is")
  obtain now later frame where i: "i = (now, later, frame)" by (cases i)
  from Cons.prems(2) obtain s1 where s: "dashPushFrame i st = Some s1" "run_opt dashPushFrame is s1 = Some st'"
    by (auto split: Option.bind_splits)
  note p = dash_inv_push [OF Cons.prems(1) s(1) [unfolded i]]
  from Cons.IH [OF conjunct1 [OF p] s(2)] p show ?case by (simp add: i)
qed simp

lemma dash_run:
  assumes "0 \<le> dc_MaxSegments c"
  obtains st where "run_opt dashPushFrame is (dashNewStream c sid v a t0 t1) = Some st"
    "dash.window st" "dash_inv (map (snd \<circ> snd) is) st" "ds_id st = sid" "ds_config st = c"
proof -
  let ?s = "dashNewStream c sid v a t0 t1"
  have w: "dash.window ?s" using assms by (simp add: dash.window_def dashNewStream_def seq_window_def)
  have i: "dash_inv [] ?s" by (simp add: dash_inv_def dashNewStream_def)
  from dash.window_run [OF w] obtain st where "run_opt dashPushFrame is ?s = Some st" "dash.window st" by blast
  with dash_inv_run [OF i this(1)] that show thesis by (simp add: dashNewStream_def)
qed

section \<open>Addresses\<close>

lemma dashURI_inj [simp]: "dashURI sid a = dashURI sid b \<longleftrightarrow> a = b"
  by (auto simp: dashURI_def itoa_sep_inj is_digit_def word_unat_eq_iff)

lemma expand_templates:
  assumes "CHR ''$'' \<notin> set sid"
  shows "expand_template (mediaTemplate sid) n = sid @ ''_'' @ itoa n @ ''.m4s''"
    "expand_template (audioTemplate sid) n = sid @ ''_audio_'' @ itoa n @ ''.m4s''"
proof -
  have "SplitN2 (mediaTemplate sid) CHR ''$'' = [sid @ ''_'', ''Number$.m4s'']"
    using SplitN2_sep [of "CHR ''$''" "sid @ ''_''" "''Number$.m4s''"] assms by (simp add: mediaTemplate_def)
  moreover have "SplitN2 (audioTemplate sid) CHR ''$'' = [sid @ ''_audio_'', ''Number$.m4s'']"
    using SplitN2_sep [of "CHR ''$''" "sid @ ''_audio_''" "''Number$.m4s''"] assms by (simp add: audioTemplate_def)
  moreover have "SplitN2 ''Number$.m4s'' CHR ''$'' = [''Number'', ''.m4s'']" by (simp add: SplitN2_def)
  ultimately show "expand_template (mediaTemplate sid) n = sid @ ''_'' @ itoa n @ ''.m4s''"
    "expand_template (audioTemplate sid) n = sid @ ''_audio_'' @ itoa n @ ''.m4s''"
    by (simp_all add: expand_template_def)
qed

text \<open>In a stream that has not yet counted to 2 to the 64, the numbers of the manifest are the
  sequence numbers of the segments.\<close>

lemma dash_numbers:
  assumes "dash.window st" "dash_inv fs st" "length fs < 2 ^ 64" "k < length (ds_segments st)"
  shows "unat (dg_Sequence (ds_segments st ! k)) = unat (startNum st) + k"
proof -
  let ?g = "ds_segments st" let ?l = "length (ds_segments st)"
  from assms(2) obtain n where n: "n \<le> length fs" "?l \<le> n" "ds_mediaSeq st = of_nat n"
    by (auto simp: dash_inv_def)
  have s: "dg_Sequence (?g ! j) = of_nat (n - ?l + j)" if "j < ?l" for j
  proof -
    have "dg_Sequence (?g ! j) = map dg_Sequence ?g ! j" using that by simp
    also have "\<dots> = of_nat n - of_nat (?l - j)"
      using assms(1) that n(3) by (simp add: dash.window_def seq_window_def)
    also have "\<dots> = of_nat (n - (?l - j))" using n(2) that by (subst of_nat_diff [symmetric]) auto
    also have "n - (?l - j) = n - ?l + j" using n(2) that by arith
    finally show ?thesis .
  qed
  have u: "unat (dg_Sequence (?g ! j)) = n - ?l + j" if "j < ?l" for j
  proof -
    have "n - ?l + j < 2 ^ LENGTH(64)" using that n(1,2) assms(3) by simp
    then show ?thesis unfolding s [OF that] by (rule unat_of_nat_small)
  qed
  have "startNum st = dg_Sequence (?g ! 0)" using assms(4) by (cases ?g) (auto simp: startNum_def)
  moreover have "unat (dg_Sequence (?g ! 0)) = n - ?l" using u [of 0] assms(4) by fastforce
  ultimately show ?thesis using u [OF assms(4)] by simp
qed

section \<open>Properties\<close>

lemma DashGetSegment_listed:
  assumes "dash.window st" "dash_inv fs st" "length fs < 2 ^ 64" "k < length (ds_segments st)"
  shows "DashGetSegment st (ds_id st @ ''_'' @ itoa (unat (startNum st) + k) @ ''.m4s'') =
           Some (dg_Data (ds_segments st ! k))"
proof -
  let ?g = "ds_segments st ! k"
  have u: "dg_URI g = dashURI (ds_id st) (dg_Sequence g)" if "g \<in> set (ds_segments st)" for g
    using assms(2) that by (simp add: dash_inv_def)
  from assms(2) obtain n where "n \<le> length fs" "length (ds_segments st) \<le> n" by (auto simp: dash_inv_def)
  then have "distinct (map dg_Sequence (ds_segments st))"
    using assms(1,3) distinct_seq_window by (simp add: dash.window_def)
  then have "inj_on dg_URI (set (ds_segments st))" by (auto simp: inj_on_def distinct_map u)
  from find_unique [OF nth_mem [OF assms(4)] refl this]
  show ?thesis
    using u [OF nth_mem [OF assms(4)]] dash_numbers [OF assms] by (simp add: DashGetSegment_def dashURI_def)
qed

lemma handleDASH_stream:
  assumes "dm_streams s sid = Some st" "sid \<noteq> ''''" "CHR ''/'' \<notin> set sid" "u \<noteq> ''''" "u \<noteq> ''manifest.mpd''"
  shows "handleDASH nt ct s (dc_Path (dm_config s) @ ''/'' @ sid @ ''/'' @ u) =
     (case DashGetSegment st u of
        Some data \<Rightarrow> \<lparr>rsp_Status = 200, rsp_ContentType = ''video/iso.segment'',
                      rsp_CacheControl = ''public, max-age=3600'', rsp_Body = data\<rparr>
      | None \<Rightarrow> if Contains u ''init''
          then \<lparr>rsp_Status = 200, rsp_ContentType = ''video/iso.segment'', rsp_CacheControl = '''',
                 rsp_Body = initSegment st\<rparr>
          else http_Error ''segment not found'' 404)"
proof -
  have "TrimPrefix (dc_Path (dm_config s) @ ''/'' @ sid @ ''/'' @ u) (dc_Path (dm_config s) @ ''/'') = sid @ ''/'' @ u"
    using TrimPrefix_append [of "dc_Path (dm_config s) @ ''/''" "sid @ ''/'' @ u"] by (simp only: append_assoc)
  moreover have "SplitN2 (sid @ ''/'' @ u) CHR ''/'' = [sid, u]"
    using assms(3) by (simp add: SplitN2_sep)
  ultimately show ?thesis
    using assms unfolding handleDASH_def Let_def by (simp add: DashGetStream_def)
qed

lemma m4s_not_manifest: "p @ itoa n @ ''.m4s'' \<noteq> ''manifest.mpd''" "p @ itoa n @ ''.m4s'' \<noteq> ''''"
proof -
  have "last (p @ itoa n @ ''.m4s'') = CHR ''s''" by simp
  then show "p @ itoa n @ ''.m4s'' \<noteq> ''manifest.mpd''" by auto
qed simp

text \<open>
  C24. What a player sees. After fewer than 2 to the 64 frames, pushed at any clock readings, the
  stream holds at most \<open>MaxSegments\<close> segments, and the addresses a player computes from the media
  template and the start number of the manifest return exactly the data of those segments in
  order.
\<close>

theorem dash_player:
  assumes "0 \<le> dc_MaxSegments c" "length is < 2 ^ 64" "sid \<noteq> ''''" "CHR ''/'' \<notin> set sid" "CHR ''$'' \<notin> set sid"
  shows "\<exists>st. run_opt dashPushFrame is (dashNewStream c sid v a t0 t1) = Some st \<and>
     int (length (ds_segments st)) \<le> dc_MaxSegments c \<and>
     (\<forall>k < length (ds_segments st).
        handleDASH nt ct \<lparr>dm_config = c, dm_streams = [sid \<mapsto> st]\<rparr>
          (dc_Path c @ ''/'' @ sid @ ''/'' @ expand_template (mediaTemplate sid) (unat (startNum st) + k)) =
        \<lparr>rsp_Status = 200, rsp_ContentType = ''video/iso.segment'',
         rsp_CacheControl = ''public, max-age=3600'', rsp_Body = dg_Data (ds_segments st ! k)\<rparr>)"
proof -
  obtain st where st: "run_opt dashPushFrame is (dashNewStream c sid v a t0 t1) = Some st"
    "dash.window st" "dash_inv (map (snd \<circ> snd) is) st" "ds_id st = sid" "ds_config st = c"
    using dash_run [OF assms(1)] by blast
  let ?s = "\<lparr>dm_config = c, dm_streams = [sid \<mapsto> st]\<rparr>"
  have "handleDASH nt ct ?s
          (dc_Path c @ ''/'' @ sid @ ''/'' @ expand_template (mediaTemplate sid) (unat (startNum st) + k)) =
        \<lparr>rsp_Status = 200, rsp_ContentType = ''video/iso.segment'',
         rsp_CacheControl = ''public, max-age=3600'', rsp_Body = dg_Data (ds_segments st ! k)\<rparr>"
    if k: "k < length (ds_segments st)" for k
  proof -
    let ?u = "sid @ ''_'' @ itoa (unat (startNum st) + k) @ ''.m4s''"
    have g: "DashGetSegment st ?u = Some (dg_Data (ds_segments st ! k))"
      using DashGetSegment_listed [OF st(2,3) _ k] assms(2) st(4) by simp
    have n: "?u \<noteq> ''''" "?u \<noteq> ''manifest.mpd''"
      using m4s_not_manifest [of "sid @ ''_''"] unfolding append_assoc by blast+
    show ?thesis
      using handleDASH_stream [of ?s sid st ?u nt ct, OF _ assms(3,4) n]
      by (simp only: expand_templates(1) [OF assms(5)] g option.case) simp
  qed
  with st show ?thesis by (auto simp: dash.window_def)
qed

theorem dash_player_witness:
  "\<exists>st. run_opt dashPushFrame [(5000000000, 5000000001, zero_frame)]
          (dashNewStream DashDefaultConfig ''cam'' None None 0 0) = Some st \<and>
     int (length (ds_segments st)) \<le> dc_MaxSegments DashDefaultConfig \<and>
     (\<forall>k < length (ds_segments st).
        handleDASH '''' (\<lambda>_. '''') \<lparr>dm_config = DashDefaultConfig, dm_streams = [''cam'' \<mapsto> st]\<rparr>
          (dc_Path DashDefaultConfig @ ''/'' @ ''cam'' @ ''/'' @
           expand_template (mediaTemplate ''cam'') (unat (startNum st) + k)) =
        \<lparr>rsp_Status = 200, rsp_ContentType = ''video/iso.segment'',
         rsp_CacheControl = ''public, max-age=3600'', rsp_Body = dg_Data (ds_segments st ! k)\<rparr>)"
  by (rule dash_player) (simp_all add: DashDefaultConfig_def)

text \<open>
  C37. The audio representation has no segments. The manifest announces audio segments under their
  own template, but no stream ever stores one there: a request for any number of it is answered
  with status 404, unless the address contains the letters \<open>init\<close>.
\<close>

theorem dash_audio_missing:
  assumes "run_opt dashPushFrame is (dashNewStream c sid v a t0 t1) = Some st"
    "sid \<noteq> ''''" "CHR ''/'' \<notin> set sid" "CHR ''$'' \<notin> set sid"
    "\<not> Contains (expand_template (audioTemplate sid) n) ''init''"
  shows "handleDASH nt ct \<lparr>dm_config = c, dm_streams = [sid \<mapsto> st]\<rparr>
           (dc_Path c @ ''/'' @ sid @ ''/'' @ expand_template (audioTemplate sid) n) =
         http_Error ''segment not found'' 404"
proof -
  let ?s = "\<lparr>dm_config = c, dm_streams = [sid \<mapsto> st]\<rparr>"
  let ?u = "sid @ ''_audio_'' @ itoa n @ ''.m4s''"
  have "dash_inv [] (dashNewStream c sid v a t0 t1)" by (simp add: dash_inv_def dashNewStream_def)
  from dash_inv_run [OF this assms(1)]
  have i: "\<forall>g \<in> set (ds_segments st). dg_URI g = dashURI sid (dg_Sequence g)"
    by (simp add: dash_inv_def dashNewStream_def)
  have "dashURI sid q \<noteq> ?u" for q
  proof
    assume "dashURI sid q = ?u"
    then have "itoa (unat q) @ ''.m4s'' = ''audio_'' @ itoa n @ ''.m4s''" by (simp add: dashURI_def)
    then have "hd (itoa (unat q)) = CHR ''a''" by (metis hd_append2 itoa_nonempty list.sel(1) append_Cons)
    moreover have "is_digit (hd (itoa (unat q)))" by (rule itoa_is_digit [of _ "unat q"]) simp
    ultimately show False by (simp add: is_digit_def)
  qed
  then have g: "DashGetSegment st ?u = None"
    using i by (auto simp: DashGetSegment_def find_None_iff)
  have m: "?u \<noteq> ''''" "?u \<noteq> ''manifest.mpd''"
    using m4s_not_manifest [of "sid @ ''_audio_''"] unfolding append_assoc by blast+
  show ?thesis
    using handleDASH_stream [of ?s sid st ?u nt ct, OF _ assms(2,3) m] assms(5)
    by (simp only: expand_templates(2) [OF assms(4)] g option.case) simp
qed

theorem dash_audio_missing_witness:
  "handleDASH '''' (\<lambda>_. '''')
     \<lparr>dm_config = DashDefaultConfig,
      dm_streams = [''cam'' \<mapsto> dashNewStream DashDefaultConfig ''cam'' None None 0 0]\<rparr>
     (dc_Path DashDefaultConfig @ ''/'' @ ''cam'' @ ''/'' @ expand_template (audioTemplate ''cam'') 7) =
   http_Error ''segment not found'' 404"
proof (rule dash_audio_missing)
  show "\<not> Contains (expand_template (audioTemplate ''cam'') 7) ''init''"
    by (simp add: expand_templates itoa_small digit_def Contains_def upt_rec)
  show "run_opt dashPushFrame [] (dashNewStream DashDefaultConfig ''cam'' None None 0 0) =
      Some (dashNewStream DashDefaultConfig ''cam'' None None 0 0)" by simp
qed simp_all

end
