(* ===== verification/Jitter.thy ===== *)
theory Jitter
  imports Prelude
begin

text \<open>
  The jitter buffer (\<open>pkg/media/jitter.go\<close>). Packets are of any type; a nil packet is \<open>None\<close>.
  Operations return \<open>None\<close> where the source panics, which a capacity of zero makes it do. The
  comparison of sequence numbers is the 16-bit signed one of the source. The theorems: a window of
  packets in any order is read back in sequence order, and a packet that never comes stops the
  reader for good.
\<close>

section \<open>State\<close>

record 'p jitterSlot =
  js_seq :: u16
  js_packet :: "'p option"
  js_filled :: bool

record 'p JitterBuffer =
  jb_capacity :: nat
  jb_delay :: int
  jb_minDelay :: int
  jb_maxDelay :: int
  jb_nextSeq :: u16
  jb_nextWriteSeq :: u16
  jb_slots :: "'p jitterSlot list"
  jb_arrivalTimes :: "int list"
  jb_lateDrops :: nat
  jb_silenceInserts :: nat
  jb_totalPackets :: nat
  jb_adaptive :: bool

definition emptySlot :: "'p jitterSlot" where
  "emptySlot = \<lparr>js_seq = 0, js_packet = None, js_filled = False\<rparr>"

definition NewJitterBuffer :: "int \<Rightarrow> int \<Rightarrow> 'p JitterBuffer option" where
  "NewJitterBuffer capacity delay =
     (if capacity < 0 then None
      else Some \<lparr>jb_capacity = nat capacity, jb_delay = delay, jb_minDelay = 20000000,
                 jb_maxDelay = 200000000, jb_nextSeq = 0, jb_nextWriteSeq = 0,
                 jb_slots = replicate (nat capacity) emptySlot,
                 jb_arrivalTimes = replicate (nat capacity) 0, jb_lateDrops = 0,
                 jb_silenceInserts = 0, jb_totalPackets = 0, jb_adaptive = True\<rparr>)"

section \<open>Operations\<close>

definition slotIndex :: "'p JitterBuffer \<Rightarrow> u16 \<Rightarrow> nat" where
  "slotIndex j seq = unat seq mod jb_capacity j"

definition jitterWrite :: "int \<Rightarrow> u16 \<Rightarrow> 'p \<Rightarrow> 'p JitterBuffer \<Rightarrow> (bool \<times> 'p JitterBuffer) option" where
  "jitterWrite now seq packet j =
     (if jb_capacity j = 0 then None
      else
        let idx = slotIndex j seq; slot = jb_slots j ! idx in
        if js_filled slot \<and> js_seq slot = seq then Some (False, j)
        else
          let diff = seq - jb_nextWriteSeq j in
          if sint diff < sint (- of_nat (jb_capacity j) :: u16)
          then Some (False, j\<lparr>jb_lateDrops := jb_lateDrops j + 1\<rparr>)
          else
            let j = j\<lparr>jb_slots := (jb_slots j)[idx := \<lparr>js_seq = seq, js_packet = Some packet, js_filled = True\<rparr>],
                      jb_arrivalTimes := (jb_arrivalTimes j)[idx := now],
                      jb_totalPackets := jb_totalPackets j + 1\<rparr> in
            Some (True, if sint diff \<ge> 0 then j\<lparr>jb_nextWriteSeq := seq + 1\<rparr> else j))"

definition jitterRead :: "'p JitterBuffer \<Rightarrow> ('p option \<times> 'p JitterBuffer) option" where
  "jitterRead j =
     (if jb_capacity j = 0 then None
      else
        let idx = slotIndex j (jb_nextSeq j); slot = jb_slots j ! idx in
        if js_filled slot \<and> js_seq slot = jb_nextSeq j
        then Some (js_packet slot,
                   j\<lparr>jb_slots := (jb_slots j)[idx := slot\<lparr>js_filled := False, js_packet := None\<rparr>],
                     jb_nextSeq := jb_nextSeq j + 1\<rparr>)
        else Some (None, j))"

text \<open>
  The polling reader: \<open>envs\<close> has one entry per iteration before the deadline, what other
  goroutines do to the buffer before it.
\<close>

fun jitterReadBlocking ::
  "('p JitterBuffer \<Rightarrow> 'p JitterBuffer) list \<Rightarrow> 'p JitterBuffer \<Rightarrow> ('p option \<times> 'p JitterBuffer) option" where
  "jitterReadBlocking [] j = Some (None, j)"
| "jitterReadBlocking (env # envs) j =
     (case jitterRead (env j) of
        None \<Rightarrow> None
      | Some (Some pkt, j) \<Rightarrow> Some (Some pkt, j)
      | Some (None, j) \<Rightarrow> jitterReadBlocking envs j)"

record JitterStats =
  jst_Capacity :: nat
  jst_Delay :: int
  jst_LateDrops :: nat
  jst_SilenceInserts :: nat
  jst_TotalPackets :: nat

definition jitterStats :: "'p JitterBuffer \<Rightarrow> JitterStats" where
  "jitterStats j =
     \<lparr>jst_Capacity = jb_capacity j, jst_Delay = jb_delay j, jst_LateDrops = jb_lateDrops j,
      jst_SilenceInserts = jb_silenceInserts j, jst_TotalPackets = jb_totalPackets j\<rparr>"

definition jitterReset :: "'p JitterBuffer \<Rightarrow> 'p JitterBuffer" where
  "jitterReset j =
     j\<lparr>jb_slots := map (\<lambda>s. s\<lparr>js_filled := False, js_packet := None\<rparr>) (jb_slots j),
       jb_lateDrops := 0, jb_silenceInserts := 0, jb_totalPackets := 0\<rparr>"

section \<open>Specification\<close>

fun jitterWrites :: "(int \<times> u16 \<times> 'p) list \<Rightarrow> 'p JitterBuffer \<Rightarrow> (bool list \<times> 'p JitterBuffer) option" where
  "jitterWrites [] j = Some ([], j)"
| "jitterWrites ((now, seq, p) # ws) j =
     (case jitterWrite now seq p j of
        None \<Rightarrow> None
      | Some (b, j) \<Rightarrow> map_option (\<lambda>(bs, j). (b # bs, j)) (jitterWrites ws j))"

fun jitterReads :: "nat \<Rightarrow> 'p JitterBuffer \<Rightarrow> ('p option list \<times> 'p JitterBuffer) option" where
  "jitterReads 0 j = Some ([], j)"
| "jitterReads (Suc n) j =
     (case jitterRead j of
        None \<Rightarrow> None
      | Some (p, j) \<Rightarrow> map_option (\<lambda>(ps, j). (p # ps, j)) (jitterReads n j))"

text \<open>A buffer that has been read empty: reader and writer expect the same number.\<close>

definition drained :: "'p JitterBuffer \<Rightarrow> bool" where
  "drained j \<longleftrightarrow>
     0 < jb_capacity j \<and> length (jb_slots j) = jb_capacity j \<and> jb_nextSeq j = jb_nextWriteSeq j \<and>
     (\<forall>s \<in> set (jb_slots j). \<not> js_filled s)"

text \<open>The numbers of a window of \<open>n\<close> packets from \<open>s\<close> fall into different slots.\<close>

definition window_fits :: "nat \<Rightarrow> u16 \<Rightarrow> nat \<Rightarrow> bool" where
  "window_fits cap s n \<longleftrightarrow> n \<le> cap \<and> cap \<le> 32767 \<and> (cap dvd 65536 \<or> unat s + n \<le> 65536)"

datatype 'p JitterOp = OpWrite int u16 'p | OpRead | OpReset

fun jitterOps :: "'p JitterOp list \<Rightarrow> 'p JitterBuffer \<Rightarrow> ('p option list \<times> 'p JitterBuffer) option" where
  "jitterOps [] j = Some ([], j)"
| "jitterOps (OpWrite now seq p # ops) j =
     (case jitterWrite now seq p j of None \<Rightarrow> None | Some (_, j) \<Rightarrow> jitterOps ops j)"
| "jitterOps (OpRead # ops) j =
     (case jitterRead j of
        None \<Rightarrow> None
      | Some (r, j) \<Rightarrow> map_option (\<lambda>(rs, j). (r # rs, j)) (jitterOps ops j))"
| "jitterOps (OpReset # ops) j = jitterOps ops (jitterReset j)"

text \<open>No slot holds the packet the reader waits for.\<close>

definition waiting :: "'p JitterBuffer \<Rightarrow> bool" where
  "waiting j \<longleftrightarrow>
     0 < jb_capacity j \<and> length (jb_slots j) = jb_capacity j \<and>
     (\<forall>s \<in> set (jb_slots j). \<not> (js_filled s \<and> js_seq s = jb_nextSeq j))"

definition jitter4 :: "nat JitterBuffer" where
  "jitter4 = the (NewJitterBuffer 4 60000000)"

section \<open>Windows\<close>

lemma window_slots_inj:
  assumes "window_fits cap s n" "a < n" "b < n"
    "unat (s + of_nat a) mod cap = unat (s + of_nat b) mod cap"
  shows "a = b"
proof -
  have u: "unat (s + of_nat i) = (unat s + i) mod 65536" if "i < n" for i
    using that assms(1) by (simp add: unat_word_ariths unat_of_nat take_bit_nat_eq_self window_fits_def take_bit_eq_mod mod_simps)
  have m: "unat (s + of_nat i) mod cap = (unat s + i) mod cap" if "i < n" for i
  proof (cases "cap dvd 65536")
    case True
    then show ?thesis by (simp add: u [OF that] mod_mod_cancel)
  next
    case False
    with assms(1) that have "unat s + i < 65536" by (auto simp: window_fits_def)
    then show ?thesis by (simp add: u [OF that])
  qed
  have n: "n \<le> cap" using assms(1) by (simp add: window_fits_def)
  have "(unat s + a) mod cap = (unat s + b) mod cap" using assms(4) m assms(2,3) by metis
  then have "int cap dvd int (unat s + a) - int (unat s + b)"
    by (metis mod_eq_dvd_iff zmod_int)
  then have "int cap dvd int a - int b" by simp
  moreover from this have "int cap dvd int b - int a" by (simp add: dvd_diff_commute)
  ultimately have "\<not> (0 < int a - int b \<and> int a - int b < int cap)" "\<not> (0 < int b - int a \<and> int b - int a < int cap)"
    using zdvd_not_zless by blast+
  then show ?thesis using assms(2,3) n by linarith
qed

lemma sint_offset:
  assumes "a \<le> 32767" "b \<le> 32767"
  shows "sint (of_nat a - of_nat b :: u16) = int a - int b"
proof -
  have "of_nat a - of_nat b = (word_of_int (int a - int b) :: u16)" by simp
  moreover have "sint (word_of_int (int a - int b) :: u16) = int a - int b"
    using assms by (simp add: signed_of_int signed_take_bit_int_eq_self del: of_int_diff)
  ultimately show ?thesis by (simp only:)
qed

section \<open>Writing a window\<close>

text \<open>
  The buffer after the packets of \<open>ws\<close>, given by their offsets from \<open>s\<close>, were written into a
  drained one.
\<close>

definition holds :: "u16 \<Rightarrow> (nat \<times> 'p) list \<Rightarrow> 'p JitterBuffer \<Rightarrow> bool" where
  "holds s ws j \<longleftrightarrow>
     length (jb_slots j) = jb_capacity j \<and> 0 < jb_capacity j \<and>
     (\<forall>i < jb_capacity j. js_filled (jb_slots j ! i) \<longrightarrow> (\<exists>(a, p) \<in> set ws. i = slotIndex j (s + of_nat a))) \<and>
     (\<forall>(a, p) \<in> set ws.
        jb_slots j ! slotIndex j (s + of_nat a) = \<lparr>js_seq = s + of_nat a, js_packet = Some p, js_filled = True\<rparr>) \<and>
     (\<exists>k. jb_nextWriteSeq j = s + of_nat k \<and> (\<forall>(a, p) \<in> set ws. a < k) \<and> (k = 0 \<or> k - 1 \<in> fst ` set ws))"

lemma slotIndex_less: "0 < jb_capacity j \<Longrightarrow> slotIndex j q < jb_capacity j"
  by (simp add: slotIndex_def)

lemma holds_write:
  assumes h: "holds s ws j" and fits: "window_fits (jb_capacity j) s n"
    and ws: "\<forall>(a, p) \<in> set ws. a < n" and a: "a < n" "a \<notin> fst ` set ws"
  obtains j' where "jitterWrite now (s + of_nat a) p j = Some (True, j')" "holds s ((a, p) # ws) j'"
    "jb_capacity j' = jb_capacity j" "jb_nextSeq j' = jb_nextSeq j"
proof -
  let ?i = "slotIndex j (s + of_nat a)"
  from h obtain k where k: "jb_nextWriteSeq j = s + of_nat k" "\<forall>(b, p) \<in> set ws. b < k" "k = 0 \<or> k - 1 \<in> fst ` set ws"
    unfolding holds_def by blast
  have cap: "0 < jb_capacity j" "length (jb_slots j) = jb_capacity j" using h by (simp_all add: holds_def)
  have b: "n \<le> jb_capacity j" "jb_capacity j \<le> 32767" using fits by (simp_all add: window_fits_def)
  have kn: "k \<le> n" using k(3) ws by fastforce
  have diff: "s + of_nat a - jb_nextWriteSeq j = of_nat a - of_nat k" by (simp add: k(1))
  have sd: "sint (of_nat a - of_nat k :: u16) = int a - int k" using a kn b by (intro sint_offset) auto
  have sc: "sint (- of_nat (jb_capacity j) :: u16) = - int (jb_capacity j)"
    using sint_offset [of 0 "jb_capacity j"] b by simp
  have free: "\<not> js_filled (jb_slots j ! ?i)"
  proof
    assume "js_filled (jb_slots j ! ?i)"
    with h slotIndex_less [OF cap(1)] obtain c q where "(c, q) \<in> set ws" "?i = slotIndex j (s + of_nat c)"
      unfolding holds_def by blast
    with window_slots_inj [OF fits, of a c] a ws show False by (force simp: slotIndex_def)
  qed
  define j1 where "j1 = j\<lparr>jb_slots := (jb_slots j)[?i := \<lparr>js_seq = s + of_nat a, js_packet = Some p, js_filled = True\<rparr>],
      jb_arrivalTimes := (jb_arrivalTimes j)[?i := now], jb_totalPackets := jb_totalPackets j + 1\<rparr>"
  define j' where "j' = (if k \<le> a then j1\<lparr>jb_nextWriteSeq := s + of_nat a + 1\<rparr> else j1)"
  have w: "jitterWrite now (s + of_nat a) p j = Some (True, j')"
    using cap free kn b a by (simp add: jitterWrite_def Let_def diff sd sc j'_def j1_def)
  have f: "jb_capacity j' = jb_capacity j" "jb_nextSeq j' = jb_nextSeq j" "jb_slots j' = jb_slots j1"
    "\<And>q. slotIndex j' q = slotIndex j q"
    by (simp_all add: j'_def j1_def slotIndex_def)
  have other: "slotIndex j (s + of_nat c) \<noteq> ?i" if "(c, q) \<in> set ws" for c q
    using window_slots_inj [OF fits, of a c] a ws that by (force simp: slotIndex_def)
  have "\<exists>k. jb_nextWriteSeq j' = s + of_nat k \<and> (\<forall>(c, q) \<in> set ((a, p) # ws). c < k) \<and>
      (k = 0 \<or> k - 1 \<in> fst ` set ((a, p) # ws))"
    using k by (intro exI [of _ "if k \<le> a then a + 1 else k"]) (auto simp: j'_def j1_def)
  moreover have "\<forall>(c, q) \<in> set ((a, p) # ws). jb_slots j1 ! slotIndex j (s + of_nat c) =
      \<lparr>js_seq = s + of_nat c, js_packet = Some q, js_filled = True\<rparr>"
  proof (clarify)
    fix c q assume m: "(c, q) \<in> set ((a, p) # ws)"
    show "jb_slots j1 ! slotIndex j (s + of_nat c) = \<lparr>js_seq = s + of_nat c, js_packet = Some q, js_filled = True\<rparr>"
    proof (cases "(c, q) = (a, p)")
      case True
      then show ?thesis using slotIndex_less [OF cap(1)] cap(2) by (simp add: j1_def)
    next
      case False
      with m have c: "(c, q) \<in> set ws" by auto
      then show ?thesis using h other [OF c] by (auto simp: holds_def j1_def)
    qed
  qed
  moreover have "\<forall>i < jb_capacity j. js_filled (jb_slots j1 ! i) \<longrightarrow>
      (\<exists>(c, q) \<in> set ((a, p) # ws). i = slotIndex j (s + of_nat c))"
  proof (intro allI impI)
    fix i assume i: "i < jb_capacity j" "js_filled (jb_slots j1 ! i)"
    show "\<exists>(c, q) \<in> set ((a, p) # ws). i = slotIndex j (s + of_nat c)"
    proof (cases "i = ?i")
      case False
      with i have "js_filled (jb_slots j ! i)" by (simp add: j1_def)
      with h i(1) show ?thesis unfolding holds_def by fastforce
    qed auto
  qed
  ultimately have "holds s ((a, p) # ws) j'"
    using cap unfolding holds_def f by (simp add: j1_def)
  from that [OF w this f(1,2)] show thesis .
qed

lemma holds_writes:
  assumes "holds s ws j" "window_fits (jb_capacity j) s n"
    "\<forall>(a, p) \<in> set ws. a < n" "\<forall>(t, a, p) \<in> set ins. a < n"
    "distinct (map (fst \<circ> snd) ins)" "fst ` set ws \<inter> (fst \<circ> snd) ` set ins = {}"
  shows "\<exists>j'. jitterWrites (map (\<lambda>(t, a, p). (t, s + of_nat a, p)) ins) j = Some (replicate (length ins) True, j') \<and>
     holds s (rev (map snd ins) @ ws) j' \<and> jb_capacity j' = jb_capacity j \<and> jb_nextSeq j' = jb_nextSeq j"
  using assms
proof (induction ins arbitrary: ws j)
  case (Cons i ins)
  obtain t a p where i: "i = (t, a, p)" by (cases i)
  have a: "a < n" "a \<notin> fst ` set ws" using Cons.prems(4,6) by (auto simp: i)
  from holds_write [OF Cons.prems(1-3) a, of t p] obtain j1 where
    j1: "jitterWrite t (s + of_nat a) p j = Some (True, j1)" "holds s ((a, p) # ws) j1"
      "jb_capacity j1 = jb_capacity j" "jb_nextSeq j1 = jb_nextSeq j" by blast
  have "\<exists>j'. jitterWrites (map (\<lambda>(t, a, p). (t, s + of_nat a, p)) ins) j1 = Some (replicate (length ins) True, j') \<and>
     holds s (rev (map snd ins) @ (a, p) # ws) j' \<and> jb_capacity j' = jb_capacity j1 \<and> jb_nextSeq j' = jb_nextSeq j1"
    using Cons.prems j1(3) a by (intro Cons.IH [OF j1(2)]) (auto simp: i)
  with j1 show ?case by (auto simp: i)
qed simp

lemma holds_full:
  assumes "holds s ws j" "fst ` set ws = {..<n}"
  shows "jb_nextWriteSeq j = s + of_nat n"
proof -
  from assms(1) obtain k where k: "jb_nextWriteSeq j = s + of_nat k" "\<forall>(a, p) \<in> set ws. a < k"
    "k = 0 \<or> k - 1 \<in> fst ` set ws" unfolding holds_def by blast
  have "\<not> k < n"
  proof
    assume "k < n"
    then have "k \<in> fst ` set ws" using assms(2) by simp
    with k(2) show False by auto
  qed
  moreover have "\<not> n < k" using k(3) assms(2) by auto
  ultimately have "k = n" by simp
  with k(1) show ?thesis by simp
qed

lemma drained_holds: "drained j \<Longrightarrow> holds (jb_nextSeq j) [] j"
  unfolding holds_def drained_def by (auto intro!: exI [of _ 0])

section \<open>Reading a window\<close>

lemma jitterRead_hit:
  assumes "jb_slots j ! slotIndex j (jb_nextSeq j) = \<lparr>js_seq = jb_nextSeq j, js_packet = Some p, js_filled = True\<rparr>"
    "0 < jb_capacity j"
  shows "jitterRead j = Some (Some p, j\<lparr>jb_slots := (jb_slots j)[slotIndex j (jb_nextSeq j) :=
      \<lparr>js_seq = jb_nextSeq j, js_packet = None, js_filled = False\<rparr>], jb_nextSeq := jb_nextSeq j + 1\<rparr>)"
  using assms by (simp add: jitterRead_def Let_def)

lemma jitterReads_window:
  assumes "window_fits (jb_capacity j) s n" "m + k = n" "jb_nextSeq j = s + of_nat m" "0 < jb_capacity j"
    "\<forall>a. m \<le> a \<and> a < n \<longrightarrow> jb_slots j ! slotIndex j (s + of_nat a) =
       \<lparr>js_seq = s + of_nat a, js_packet = Some (pk a), js_filled = True\<rparr>"
    "\<forall>i < jb_capacity j. js_filled (jb_slots j ! i) \<longrightarrow> (\<exists>a. m \<le> a \<and> a < n \<and> i = slotIndex j (s + of_nat a))"
    "length (jb_slots j) = jb_capacity j"
  shows "\<exists>j'. jitterReads k j = Some (map (\<lambda>a. Some (pk a)) [m..<n], j') \<and> jb_nextSeq j' = s + of_nat n \<and>
     jb_nextWriteSeq j' = jb_nextWriteSeq j \<and> jb_capacity j' = jb_capacity j \<and>
     length (jb_slots j') = jb_capacity j \<and>
     (\<forall>i < jb_capacity j. \<not> js_filled (jb_slots j' ! i))"
  using assms
proof (induction k arbitrary: m j)
  case 0
  then show ?case by auto
next
  case (Suc k)
  let ?i = "slotIndex j (s + of_nat m)"
  define j1 where "j1 = j\<lparr>jb_slots := (jb_slots j)[?i := \<lparr>js_seq = s + of_nat m, js_packet = None, js_filled = False\<rparr>],
      jb_nextSeq := s + of_nat m + 1\<rparr>"
  have r: "jitterRead j = Some (Some (pk m), j1)"
    using Suc.prems(2-5) jitterRead_hit [of j "pk m"] by (simp add: j1_def)
  have si: "slotIndex j1 q = slotIndex j q" for q by (simp add: slotIndex_def j1_def)
  have ne: "slotIndex j (s + of_nat a) \<noteq> ?i" if "Suc m \<le> a" "a < n" for a
    using window_slots_inj [OF Suc.prems(1), of a m] that by (auto simp: slotIndex_def)
  have "\<exists>j'. jitterReads k j1 = Some (map (\<lambda>a. Some (pk a)) [Suc m..<n], j') \<and> jb_nextSeq j' = s + of_nat n \<and>
     jb_nextWriteSeq j' = jb_nextWriteSeq j1 \<and> jb_capacity j' = jb_capacity j1 \<and>
     length (jb_slots j') = jb_capacity j1 \<and>
     (\<forall>i < jb_capacity j1. \<not> js_filled (jb_slots j' ! i))"
  proof (rule Suc.IH)
    show "\<forall>a. Suc m \<le> a \<and> a < n \<longrightarrow> jb_slots j1 ! slotIndex j1 (s + of_nat a) =
       \<lparr>js_seq = s + of_nat a, js_packet = Some (pk a), js_filled = True\<rparr>"
      using Suc.prems(5) ne [THEN not_sym] by (simp add: si) (simp add: j1_def)
    show "\<forall>i < jb_capacity j1. js_filled (jb_slots j1 ! i) \<longrightarrow>
        (\<exists>a. Suc m \<le> a \<and> a < n \<and> i = slotIndex j1 (s + of_nat a))"
    proof (intro allI impI)
      fix i assume i: "i < jb_capacity j1" "js_filled (jb_slots j1 ! i)"
      then have "i \<noteq> ?i" using Suc.prems(7) by (auto simp: j1_def)
      with i have "i < jb_capacity j" "js_filled (jb_slots j ! i)" by (simp_all add: j1_def)
      then obtain a where a: "m \<le> a" "a < n" "i = slotIndex j (s + of_nat a)" using Suc.prems(6) by blast
      with \<open>i \<noteq> ?i\<close> have "a \<noteq> m" by blast
      with a show "\<exists>a. Suc m \<le> a \<and> a < n \<and> i = slotIndex j1 (s + of_nat a)" by (intro exI [of _ a]) (simp add: si)
    qed
  qed (use Suc.prems in \<open>simp_all add: j1_def\<close>)
  moreover have "[m..<n] = m # [Suc m..<n]" using Suc.prems(2) by (simp add: upt_conv_Cons)
  ultimately show ?case using r by (auto simp: j1_def)
qed

section \<open>Properties\<close>

text \<open>
  C10. Reordering. Into a drained buffer, the packets of a window of at most \<open>capacity\<close>
  consecutive sequence numbers are written in any order, each given by its arrival time, its
  offset from the next number and its content. All writes are accepted, and reading then returns
  the packets in sequence order and leaves the buffer drained at the end of the window. The window
  may cross the wrap-around of the 16-bit numbers only if the capacity divides 65536.
\<close>

theorem jitter_reorders:
  assumes "drained j" "window_fits (jb_capacity j) (jb_nextSeq j) n"
    "distinct (map (fst \<circ> snd) ins)" "set (map (fst \<circ> snd) ins) = {..<n}"
  shows "\<exists>j1 j2.
     jitterWrites (map (\<lambda>(t, a, p). (t, jb_nextSeq j + of_nat a, p)) ins) j = Some (replicate n True, j1) \<and>
     jitterReads n j1 = Some (map (map_of (map snd ins)) [0..<n], j2) \<and>
     drained j2 \<and> jb_nextSeq j2 = jb_nextSeq j + of_nat n"
proof -
  let ?s = "jb_nextSeq j"
  have len: "length ins = n"
    using distinct_card [OF assms(3)] assms(4) by simp
  have bound: "\<forall>(t, a, p) \<in> set ins. a < n" using assms(4) by force
  obtain j1 where j1: "jitterWrites (map (\<lambda>(t, a, p). (t, ?s + of_nat a, p)) ins) j = Some (replicate (length ins) True, j1)"
    "holds ?s (rev (map snd ins) @ []) j1" "jb_capacity j1 = jb_capacity j" "jb_nextSeq j1 = ?s"
    using holds_writes [OF drained_holds [OF assms(1)] assms(2) _ bound assms(3)] by auto
  have h: "holds ?s (rev (map snd ins)) j1" using j1(2) by simp
  have img: "fst ` set (map snd ins) = {..<n}" using assms(4) by (simp add: image_comp)
  define pk where "pk = (\<lambda>a. the (map_of (map snd ins) a))"
  have some: "map_of (map snd ins) a = Some (pk a)" "(a, pk a) \<in> set (map snd ins)" if "a < n" for a
  proof -
    have "map_of (map snd ins) a \<noteq> None" using that img by (simp only: map_of_eq_None_iff) simp
    then show "map_of (map snd ins) a = Some (pk a)" by (auto simp: pk_def)
    then show "(a, pk a) \<in> set (map snd ins)" by (rule map_of_SomeD)
  qed
  have slots: "\<forall>a. 0 \<le> a \<and> a < n \<longrightarrow> jb_slots j1 ! slotIndex j1 (?s + of_nat a) =
      \<lparr>js_seq = ?s + of_nat a, js_packet = Some (pk a), js_filled = True\<rparr>"
  proof (intro allI impI)
    fix a assume "0 \<le> a \<and> a < n"
    then have "(a, pk a) \<in> set (rev (map snd ins))" using some(2) by (simp only: set_rev)
    moreover have "\<forall>(a, p) \<in> set (rev (map snd ins)). jb_slots j1 ! slotIndex j1 (?s + of_nat a) =
        \<lparr>js_seq = ?s + of_nat a, js_packet = Some p, js_filled = True\<rparr>" using h unfolding holds_def by blast
    ultimately show "jb_slots j1 ! slotIndex j1 (?s + of_nat a) =
        \<lparr>js_seq = ?s + of_nat a, js_packet = Some (pk a), js_filled = True\<rparr>" by blast
  qed
  have filled: "\<forall>i < jb_capacity j1. js_filled (jb_slots j1 ! i) \<longrightarrow>
      (\<exists>a. 0 \<le> a \<and> a < n \<and> i = slotIndex j1 (?s + of_nat a))"
  proof (intro allI impI)
    fix i assume "i < jb_capacity j1" "js_filled (jb_slots j1 ! i)"
    with h obtain a p where "(a, p) \<in> set (rev (map snd ins))" "i = slotIndex j1 (?s + of_nat a)"
      unfolding holds_def by blast
    with img show "\<exists>a. 0 \<le> a \<and> a < n \<and> i = slotIndex j1 (?s + of_nat a)"
      by (metis fst_conv image_eqI le0 lessThan_iff set_rev)
  qed
  have k: "jb_nextWriteSeq j1 = ?s + of_nat n" using holds_full [OF h] img by simp
  obtain j2 where j2: "jitterReads n j1 = Some (map (\<lambda>a. Some (pk a)) [0..<n], j2)" "jb_nextSeq j2 = ?s + of_nat n"
    "jb_nextWriteSeq j2 = jb_nextWriteSeq j1" "jb_capacity j2 = jb_capacity j1" "length (jb_slots j2) = jb_capacity j1"
    "\<forall>i < jb_capacity j1. \<not> js_filled (jb_slots j2 ! i)"
    using jitterReads_window [of j1 ?s n 0 n pk, OF _ _ _ _ slots filled] assms(2) h j1(3,4) by (auto simp: holds_def)
  have "map (\<lambda>a. Some (pk a)) [0..<n] = map (map_of (map snd ins)) [0..<n]"
    using some(1) by simp
  moreover have "drained j2"
    using j2 k h by (auto simp: drained_def holds_def in_set_conv_nth)
  ultimately show ?thesis using j1(1) j2(1,2) unfolding len by (intro exI [of _ j1] exI [of _ j2]) simp
qed

lemma jitter4_simps:
  "jb_capacity jitter4 = 4" "jb_nextSeq jitter4 = 0" "drained jitter4" "waiting jitter4"
  by (auto simp: jitter4_def NewJitterBuffer_def drained_def waiting_def emptySlot_def)

theorem jitter_reorders_witness:
  "\<exists>j1 j2.
     jitterWrites (map (\<lambda>(t, a, p). (t, jb_nextSeq jitter4 + of_nat a, p)) [(1, 2, 12), (2, 0, 10), (3, 1, 11)]) jitter4 =
       Some (replicate 3 True, j1) \<and>
     jitterReads 3 j1 = Some (map (map_of (map snd [(1 :: int, 2, 12), (2, 0, 10), (3, 1, 11)])) [0..<3], j2) \<and>
     drained j2 \<and> jb_nextSeq j2 = jb_nextSeq jitter4 + of_nat 3"
  by (rule jitter_reorders) (auto simp: jitter4_simps window_fits_def)

lemma waiting_write:
  assumes "waiting j" "seq \<noteq> jb_nextSeq j"
  shows "\<exists>b j'. jitterWrite now seq p j = Some (b, j') \<and> waiting j' \<and> jb_nextSeq j' = jb_nextSeq j"
proof -
  have "\<not> (js_filled s \<and> js_seq s = jb_nextSeq j)"
    if "s \<in> set ((jb_slots j)[i := \<lparr>js_seq = seq, js_packet = Some p, js_filled = True\<rparr>])" for s i
  proof -
    from that have "s = \<lparr>js_seq = seq, js_packet = Some p, js_filled = True\<rparr> \<or> s \<in> set (jb_slots j)"
      by (meson insertE set_update_subset_insert subsetD)
    with assms show ?thesis by (auto simp: waiting_def)
  qed
  then show ?thesis using assms by (auto simp: jitterWrite_def waiting_def Let_def)
qed

lemma waiting_read:
  assumes "waiting j"
  shows "jitterRead j = Some (None, j)"
proof -
  have "jb_slots j ! slotIndex j (jb_nextSeq j) \<in> set (jb_slots j)"
    using assms by (simp add: waiting_def slotIndex_def)
  with assms show ?thesis by (auto simp: waiting_def jitterRead_def Let_def)
qed

lemma waiting_reset: "waiting j \<Longrightarrow> waiting (jitterReset j) \<and> jb_nextSeq (jitterReset j) = jb_nextSeq j"
  by (auto simp: waiting_def jitterReset_def)

text \<open>
  C40. A lost packet stops the reader. While the packet with the number the reader expects is not
  written, every read returns nothing and the expected number stays: writing any other packets,
  reading any number of times and even \<open>Reset\<close> do not help, and no silence is inserted.
\<close>

theorem jitter_stalls:
  assumes "waiting j" "\<forall>now p. OpWrite now (jb_nextSeq j) p \<notin> set ops"
  shows "\<exists>rs j'. jitterOps ops j = Some (rs, j') \<and> set rs \<subseteq> {None} \<and> jb_nextSeq j' = jb_nextSeq j"
  using assms
proof (induction ops arbitrary: j)
  case (Cons x ops)
  show ?case
  proof (cases x)
    case (OpWrite now seq p)
    with Cons.prems(2) have "seq \<noteq> jb_nextSeq j" by auto
    from waiting_write [OF Cons.prems(1) this, of now p] obtain b j1 where
      "jitterWrite now seq p j = Some (b, j1)" "waiting j1" "jb_nextSeq j1 = jb_nextSeq j" by blast
    with Cons.IH [of j1] Cons.prems(2) OpWrite show ?thesis by auto
  next
    case OpRead
    with Cons.IH [of j] Cons.prems waiting_read show ?thesis by fastforce
  next
    case OpReset
    with Cons.IH [of "jitterReset j"] waiting_reset [OF Cons.prems(1)] Cons.prems(2) show ?thesis by auto
  qed
qed simp

theorem jitter_stalls_witness:
  "\<exists>rs j'. jitterOps [OpWrite 1 1 11, OpRead, OpReset, OpWrite 2 2 12, OpRead] jitter4 = Some (rs, j') \<and>
     set rs \<subseteq> {None} \<and> jb_nextSeq j' = jb_nextSeq jitter4"
  by (rule jitter_stalls) (auto simp: jitter4_simps)

text \<open>Why \<open>window_fits\<close> is needed: with the capacity 50 of the source's example, the numbers 65500
  and 0 share a slot although they are only 36 apart.\<close>

lemma jitter_wrap_collision: "unat (65500 :: u16) mod 50 = unat (0 :: u16) mod 50" "(0 - 65500 :: u16) = 36"
  by simp_all

end
