(* ===== verification/MediaTypes.thy ===== *)
theory MediaTypes
  imports Prelude
begin

text \<open>
  The packets of the media engine (\<open>pkg/media/types.go\<close>) and the PCM conversions of the mixer
  (\<open>pkg/media/mixer.go\<close>). A sample is a 16-bit word that \<open>sint\<close> reads as a signed number.
\<close>

section \<open>Packets\<close>

record AudioPacket =
  ap_PlayID :: string
  ap_Sequence :: int
  ap_Payload :: bytes
  ap_RTPSamples :: u32
  ap_IsFirstPacket :: bool
  ap_IsEndPacket :: bool
  ap_IsSynthesized :: bool
  ap_IsSilence :: bool
  ap_SourceText :: string

definition zero_audio :: AudioPacket where
  "zero_audio =
     \<lparr>ap_PlayID = [], ap_Sequence = 0, ap_Payload = [], ap_RTPSamples = 0, ap_IsFirstPacket = False,
      ap_IsEndPacket = False, ap_IsSynthesized = False, ap_IsSilence = False, ap_SourceText = []\<rparr>"

record TextPacket =
  tp_PlayID :: string
  tp_Text :: string
  tp_IsTranscribed :: bool
  tp_IsLLMGenerated :: bool
  tp_IsPartial :: bool
  tp_IsEnd :: bool
  tp_Sequence :: int
  tp_StartAt :: int

record DTMFPacket =
  dp_Digit :: string
  dp_End :: bool

record ClosePacket =
  cp_Reason :: string

datatype MediaPacket =
    AudioP AudioPacket
  | TextP TextPacket
  | DTMFP DTMFPacket
  | CloseP ClosePacket

fun Body :: "MediaPacket \<Rightarrow> bytes" where
  "Body (AudioP d) = ap_Payload d"
| "Body (TextP t) = lit (tp_Text t)"
| "Body (DTMFP d) = lit (dp_Digit d)"
| "Body (CloseP f) = []"

section \<open>Samples\<close>

type_synonym sample = u16

definition bytesToInt16 :: "bytes \<Rightarrow> sample list" where
  "bytesToInt16 b = map (\<lambda>i. ucast (b ! (i * 2)) OR push_bit 8 (ucast (b ! (i * 2 + 1)))) [0..<length b div 2]"

definition int16ToBytes :: "sample list \<Rightarrow> bytes" where
  "int16ToBytes s = concat (map (\<lambda>v. [ucast v, ucast (drop_bit 8 v)]) s)"

section \<open>Lemmas\<close>

lemma length_int16ToBytes [simp]: "length (int16ToBytes s) = 2 * length s"
  by (induction s) (auto simp: int16ToBytes_def)

lemma length_bytesToInt16 [simp]: "length (bytesToInt16 b) = length b div 2"
  by (simp add: bytesToInt16_def)

lemma int16ToBytes_Cons: "int16ToBytes (v # s) = ucast v # ucast (drop_bit 8 v) # int16ToBytes s"
  by (simp add: int16ToBytes_def)

lemma bytesToInt16_Cons: "bytesToInt16 (a # b # r) = (ucast a OR push_bit 8 (ucast b)) # bytesToInt16 r"
proof (rule nth_equalityI)
  fix i assume "i < length (bytesToInt16 (a # b # r))"
  then show "bytesToInt16 (a # b # r) ! i = ((ucast a OR push_bit 8 (ucast b)) # bytesToInt16 r) ! i"
    by (cases i) (simp_all add: bytesToInt16_def del: upt_Suc)
qed simp

lemma bytesToInt16_int16ToBytes [simp]: "bytesToInt16 (int16ToBytes s) = s"
proof (induction s)
  case Nil
  then show ?case by (simp add: bytesToInt16_def int16ToBytes_def)
next
  case (Cons v s)
  have "(ucast (ucast v :: u8) :: u16) OR push_bit 8 (ucast (ucast (drop_bit 8 v) :: u8)) = v"
    using join16_split [of v] by (simp add: join16_def or.commute)
  with Cons show ?case by (simp add: int16ToBytes_Cons bytesToInt16_Cons)
qed

end
