(* ===== verification/Mixer.thy ===== *)
theory Mixer
  imports GoText MediaTypes
begin

text \<open>
  The conference mixer (\<open>pkg/media/mixer.go\<close>). Channels are lists with a capacity. One tick of \<open>Run\<close>
  is a function of the mixer and of the two orders in which Go ranges over the participants. The
  mixing arithmetic is the floating-point arithmetic of the source, with gains as rationals.
\<close>

section \<open>State\<close>

record MixerParticipant =
  mp_ID :: string
  mp_Input :: "MediaPacket list"
  mp_Output :: "AudioPacket list"
  mp_outCap :: nat
  mp_Gain :: rat

record ConferenceMixer =
  cm_participants :: "string \<rightharpoonup> MixerParticipant"
  cm_frameSize :: nat
  cm_sampleRate :: nat
  cm_droppedFrames :: nat

definition NewConferenceMixer :: "nat \<Rightarrow> nat \<Rightarrow> ConferenceMixer" where
  "NewConferenceMixer sampleRate frameSize =
     \<lparr>cm_participants = Map.empty, cm_frameSize = frameSize, cm_sampleRate = sampleRate, cm_droppedFrames = 0\<rparr>"

definition AddParticipant :: "MixerParticipant \<Rightarrow> ConferenceMixer \<Rightarrow> ConferenceMixer" where
  "AddParticipant p m = m\<lparr>cm_participants := (cm_participants m)(mp_ID p \<mapsto> p)\<rparr>"

definition RemoveParticipant :: "string \<Rightarrow> ConferenceMixer \<Rightarrow> ConferenceMixer" where
  "RemoveParticipant i m = m\<lparr>cm_participants := (cm_participants m)(i := None)\<rparr>"

definition ParticipantCount :: "ConferenceMixer \<Rightarrow> nat" where
  "ParticipantCount m = card (dom (cm_participants m))"

section \<open>One tick\<close>

record frameData =
  fd_id :: string
  fd_samples :: "sample list"
  fd_gain :: rat

text \<open>The packet at the head of an input, if it is audio with at least one sample.\<close>

definition frameOf :: "string \<Rightarrow> MixerParticipant \<Rightarrow> frameData option" where
  "frameOf i p =
     (case mp_Input p of
        AudioP ap # _ \<Rightarrow>
          let samples = bytesToInt16 (ap_Payload ap) in
          if length samples > 0 then Some \<lparr>fd_id = i, fd_samples = samples, fd_gain = mp_Gain p\<rparr> else None
      | _ \<Rightarrow> None)"

fun readFrames :: "string list \<Rightarrow> ConferenceMixer \<Rightarrow> frameData list \<times> ConferenceMixer" where
  "readFrames [] m = ([], m)"
| "readFrames (i # is) m =
     (case cm_participants m i of
        None \<Rightarrow> readFrames is m
      | Some p \<Rightarrow>
          let m' = m\<lparr>cm_participants := (cm_participants m)(i \<mapsto> p\<lparr>mp_Input := tl (mp_Input p)\<rparr>)\<rparr>;
              (fs, m'') = readFrames is m' in
          ((case frameOf i p of None \<Rightarrow> fs | Some f \<Rightarrow> f # fs), m''))"

definition mixSample :: "rat \<Rightarrow> sample \<Rightarrow> sample \<Rightarrow> sample" where
  "mixSample gain acc s =
     (let val = round53 (of_int (sint acc) + round53 (of_int (sint s) * gain));
          val = (if val > 32767 then 32767 else if val < -32768 then -32768 else val) in
      word_of_int (go_trunc val))"

definition mixInto :: "sample list \<Rightarrow> frameData \<Rightarrow> sample list" where
  "mixInto mixed f =
     (let gain = (if fd_gain f = 0 then 1 else fd_gain f);
          n = min (length mixed) (length (fd_samples f)) in
      map2 (mixSample gain) (take n mixed) (take n (fd_samples f)) @ drop n mixed)"

definition mixFor :: "nat \<Rightarrow> frameData list \<Rightarrow> string \<Rightarrow> sample list" where
  "mixFor frameSize frames i =
     foldl (\<lambda>mixed f. if fd_id f = i then mixed else mixInto mixed f) (replicate frameSize 0) frames"

fun sendMixes :: "frameData list \<Rightarrow> string list \<Rightarrow> ConferenceMixer \<Rightarrow> ConferenceMixer" where
  "sendMixes frames [] m = m"
| "sendMixes frames (i # is) m =
     (case cm_participants m i of
        None \<Rightarrow> sendMixes frames is m
      | Some p \<Rightarrow>
          let outPkt = zero_audio\<lparr>ap_Payload := int16ToBytes (mixFor (cm_frameSize m) frames (mp_ID p)),
                                  ap_IsSynthesized := True\<rparr> in
          sendMixes frames is
            (if length (mp_Output p) < mp_outCap p
             then m\<lparr>cm_participants := (cm_participants m)(i \<mapsto> p\<lparr>mp_Output := mp_Output p @ [outPkt]\<rparr>)\<rparr>
             else m\<lparr>cm_droppedFrames := cm_droppedFrames m + 1\<rparr>))"

definition mixerTick :: "string list \<Rightarrow> string list \<Rightarrow> ConferenceMixer \<Rightarrow> ConferenceMixer" where
  "mixerTick ord1 ord2 m =
     (let (frames, m) = readFrames ord1 m in
      if frames = [] then m else sendMixes frames ord2 m)"

section \<open>Specification\<close>

text \<open>The sample a participant contributes at position \<open>k\<close> of this tick.\<close>

definition said :: "ConferenceMixer \<Rightarrow> string \<Rightarrow> nat \<Rightarrow> int" where
  "said m i k =
     (case Option.bind (cm_participants m i) (frameOf i) of
        None \<Rightarrow> 0
      | Some f \<Rightarrow> if k < length (fd_samples f) then sint (fd_samples f ! k) else 0)"

definition unity_gain :: "ConferenceMixer \<Rightarrow> bool" where
  "unity_gain m \<longleftrightarrow> (\<forall>i p. cm_participants m i = Some p \<longrightarrow> mp_Gain p = 0 \<or> mp_Gain p = 1)"

definition frameAt :: "frameData \<Rightarrow> nat \<Rightarrow> int" where
  "frameAt f k = (if k < length (fd_samples f) then sint (fd_samples f ! k) else 0)"

text \<open>A conference of two, of whom one has something to say.\<close>

definition talker :: MixerParticipant where
  "talker = \<lparr>mp_ID = ''a'', mp_Input = [AudioP (zero_audio\<lparr>ap_Payload := [1, 0, 2, 0]\<rparr>)], mp_Output = [],
             mp_outCap = 8, mp_Gain = 1\<rparr>"

definition listener :: MixerParticipant where
  "listener = \<lparr>mp_ID = ''b'', mp_Input = [], mp_Output = [], mp_outCap = 8, mp_Gain = 0\<rparr>"

definition two_party :: ConferenceMixer where
  "two_party = AddParticipant listener (AddParticipant talker (NewConferenceMixer 8000 2))"

section \<open>Mixing\<close>

lemma mixSample_sum:
  assumes "\<bar>sint acc + sint s\<bar> \<le> 32767"
  shows "sint (mixSample 1 acc s) = sint acc + sint s"
proof -
  have b: "-32768 \<le> sint x \<and> sint x \<le> 32767" for x :: sample
    using sint_greater_eq [of x] sint_less [of x] by simp
  have "round53 (of_int (sint s)) = of_int (sint s)" using b [of s] by (intro round53_of_int) auto
  moreover have "round53 (of_int (sint acc + sint s)) = of_int (sint acc + sint s)"
    using assms by (intro round53_of_int) auto
  ultimately have "mixSample 1 acc s =
      (let val = of_int (sint acc + sint s);
           val = (if val > 32767 then 32767 else if val < -32768 then -32768 else val) in word_of_int (go_trunc val))"
    by (simp add: mixSample_def)
  also have "\<dots> = word_of_int (sint acc + sint s)"
  proof -
    have "\<not> (of_int (sint acc + sint s) :: rat) > 32767" "\<not> (of_int (sint acc + sint s) :: rat) < -32768"
      using assms by linarith+
    then show ?thesis unfolding Let_def by (simp only: if_False go_trunc_of_int)
  qed
  finally show ?thesis
    using assms by (simp add: signed_of_int signed_take_bit_int_eq_self del: of_int_add)
qed

lemma length_mixInto [simp]: "length (mixInto mixed f) = length mixed"
  by (simp add: mixInto_def Let_def)

lemma mixInto_sum:
  assumes "fd_gain f = 0 \<or> fd_gain f = 1" "k < length mixed" "\<bar>sint (mixed ! k) + frameAt f k\<bar> \<le> 32767"
  shows "sint (mixInto mixed f ! k) = sint (mixed ! k) + frameAt f k"
proof (cases "k < length (fd_samples f)")
  case True
  with assms show ?thesis
    by (auto simp: mixInto_def Let_def nth_append frameAt_def mixSample_sum)
next
  case False
  with assms show ?thesis by (simp add: mixInto_def Let_def nth_append frameAt_def)
qed

lemma mix_fold:
  assumes "\<forall>f \<in> set frames. fd_gain f = 0 \<or> fd_gain f = 1" "k < length mixed"
    "\<bar>sint (mixed ! k)\<bar> + (\<Sum>f \<leftarrow> frames. \<bar>frameAt f k\<bar>) \<le> 32767"
  shows "sint (foldl (\<lambda>mixed f. if fd_id f = i then mixed else mixInto mixed f) mixed frames ! k) =
     sint (mixed ! k) + (\<Sum>f \<leftarrow> filter (\<lambda>f. fd_id f \<noteq> i) frames. frameAt f k)"
  using assms
proof (induction frames arbitrary: mixed)
  case (Cons f frames)
  show ?case
  proof (cases "fd_id f = i")
    case True
    with Cons show ?thesis by auto
  next
    case False
    have nn: "0 \<le> (\<Sum>f \<leftarrow> frames. \<bar>frameAt f k\<bar>)" by (rule sum_list_nonneg) auto
    have s: "sint (mixInto mixed f ! k) = sint (mixed ! k) + frameAt f k"
      using Cons.prems nn by (intro mixInto_sum) auto
    have "\<bar>sint (mixInto mixed f ! k)\<bar> + (\<Sum>f \<leftarrow> frames. \<bar>frameAt f k\<bar>) \<le> 32767"
      using Cons.prems(3) unfolding s by (simp; linarith)
    then have "sint (foldl (\<lambda>mixed f. if fd_id f = i then mixed else mixInto mixed f) (mixInto mixed f) frames ! k) =
        sint (mixInto mixed f ! k) + (\<Sum>f \<leftarrow> filter (\<lambda>f. fd_id f \<noteq> i) frames. frameAt f k)"
      using Cons.prems by (intro Cons.IH) auto
    with False s show ?thesis by simp
  qed
qed simp

lemma length_mixFor [simp]: "length (mixFor n frames i) = n"
proof -
  have "length (foldl (\<lambda>mixed f. if fd_id f = i then mixed else mixInto mixed f) mixed frames) = length mixed" for mixed
    by (induction frames arbitrary: mixed) auto
  then show ?thesis by (simp add: mixFor_def)
qed

section \<open>The two phases of a tick\<close>

definition popInput :: "MixerParticipant \<Rightarrow> MixerParticipant" where
  "popInput p = p\<lparr>mp_Input := tl (mp_Input p)\<rparr>"

lemma readFrames_eq:
  assumes "distinct is" "set is \<subseteq> dom (cm_participants m)"
  shows "readFrames is m =
     (List.map_filter (\<lambda>i. Option.bind (cm_participants m i) (frameOf i)) is,
      m\<lparr>cm_participants := (\<lambda>i. if i \<in> set is then map_option popInput (cm_participants m i) else cm_participants m i)\<rparr>)"
  using assms
proof (induction "is" arbitrary: m)
  case (Cons i "is")
  from Cons.prems(2) obtain p where p: "cm_participants m i = Some p" by auto
  let ?m = "m\<lparr>cm_participants := (cm_participants m)(i \<mapsto> popInput p)\<rparr>"
  have "readFrames is ?m =
     (List.map_filter (\<lambda>i. Option.bind (cm_participants ?m i) (frameOf i)) is,
      ?m\<lparr>cm_participants := (\<lambda>i. if i \<in> set is then map_option popInput (cm_participants ?m i) else cm_participants ?m i)\<rparr>)"
    using Cons.prems by (intro Cons.IH) auto
  moreover have "List.map_filter (\<lambda>i. Option.bind (cm_participants ?m i) (frameOf i)) is =
      List.map_filter (\<lambda>i. Option.bind (cm_participants m i) (frameOf i)) is"
    using Cons.prems(1) by (auto simp: List.map_filter_def intro!: map_cong filter_cong)
  moreover have "(\<lambda>j. if j \<in> set is then map_option popInput (cm_participants ?m j) else cm_participants ?m j) =
      (\<lambda>j. if j \<in> set (i # is) then map_option popInput (cm_participants m j) else cm_participants m j)"
    using p Cons.prems(1) by (auto simp: fun_eq_iff)
  ultimately show ?case
    using p by (simp add: popInput_def [symmetric] List.map_filter_simps split: option.splits)
qed (simp add: List.map_filter_simps)

lemma frameOf_fields: "frameOf i p = Some f \<Longrightarrow> fd_id f = i \<and> fd_gain f = mp_Gain p"
proof (cases "mp_Input p")
  case (Cons x xs)
  then show "frameOf i p = Some f \<Longrightarrow> ?thesis" by (cases x) (auto simp: frameOf_def Let_def split: if_splits)
qed (simp add: frameOf_def)

lemma frames_sum:
  assumes "distinct ord" "set ord = D" "F 0 = (0 :: int)"
  shows "(\<Sum>f \<leftarrow> filter (\<lambda>f. P (fd_id f)) (List.map_filter (\<lambda>j. Option.bind (cm_participants m j) (frameOf j)) ord).
      F (frameAt f k)) = (\<Sum>j \<in> {j \<in> D. P j}. F (said m j k))"
proof -
  have "Option.bind (cm_participants m j) (frameOf j) = Some f \<Longrightarrow> fd_id f = j" for j f
    using frameOf_fields [of j] by (auto simp: bind_eq_Some_conv)
  then have "(\<Sum>f \<leftarrow> filter (\<lambda>f. P (fd_id f)) (List.map_filter (\<lambda>j. Option.bind (cm_participants m j) (frameOf j)) js).
      F (frameAt f k)) = (\<Sum>j \<leftarrow> filter P js. F (said m j k))" for js
    using assms(3) by (induction js) (auto simp: List.map_filter_simps said_def frameAt_def split: option.splits)
  then show ?thesis
    using assms(1,2) by (simp add: sum_list_distinct_conv_sum_set)
qed

lemma sendMixes_other: "i \<notin> set is \<Longrightarrow> cm_participants (sendMixes fs is m) i = cm_participants m i"
  by (induction "is" arbitrary: m) (auto simp: Let_def split: option.splits)

lemma sendMixes_frameSize [simp]: "cm_frameSize (sendMixes fs is m) = cm_frameSize m"
  by (induction "is" arbitrary: m) (auto simp: Let_def split: option.splits)

lemma sendMixes_one:
  assumes "distinct is" "i \<in> set is" "cm_participants m i = Some p" "length (mp_Output p) < mp_outCap p"
  shows "cm_participants (sendMixes fs is m) i =
     Some (p\<lparr>mp_Output := mp_Output p @ [zero_audio\<lparr>ap_Payload := int16ToBytes (mixFor (cm_frameSize m) fs (mp_ID p)),
                                              ap_IsSynthesized := True\<rparr>]\<rparr>)"
  using assms
proof (induction "is" arbitrary: m)
  case (Cons j "is")
  show ?case
  proof (cases "j = i")
    case True
    with Cons.prems show ?thesis by (simp add: Let_def sendMixes_other)
  next
    case False
    with Cons show ?thesis by (auto simp: Let_def split: option.splits)
  qed
qed simp

section \<open>Properties\<close>

text \<open>
  C11. Everybody hears the others. In a tick with unity gains in which some participant speaks and
  the samples do not add up beyond 16 bits, each participant with room in its output receives one
  frame, whose samples are the sums of the other participants' samples at that position; the orders
  in which the participants are visited make no difference.
\<close>

theorem mixer_tick_sums:
  assumes ord: "distinct ord1" "set ord1 = dom (cm_participants m)" "distinct ord2" "set ord2 = dom (cm_participants m)"
    and ids: "\<forall>i p. cm_participants m i = Some p \<longrightarrow> mp_ID p = i"
    and gains: "unity_gain m"
    and loud: "\<forall>k. (\<Sum>i \<in> dom (cm_participants m). \<bar>said m i k\<bar>) \<le> 32767"
    and speaks: "\<exists>i p. cm_participants m i = Some p \<and> frameOf i p \<noteq> None"
    and p: "cm_participants m i = Some p" "length (mp_Output p) < mp_outCap p"
  shows "\<exists>pkt. cm_participants (mixerTick ord1 ord2 m) i =
            Some (p\<lparr>mp_Input := tl (mp_Input p), mp_Output := mp_Output p @ [pkt]\<rparr>) \<and>
         length (bytesToInt16 (ap_Payload pkt)) = cm_frameSize m \<and>
         (\<forall>k < cm_frameSize m. sint (bytesToInt16 (ap_Payload pkt) ! k) =
            (\<Sum>j \<in> dom (cm_participants m) - {i}. said m j k))"
proof -
  let ?fr = "\<lambda>j. Option.bind (cm_participants m j) (frameOf j)"
  define frames where "frames = List.map_filter ?fr ord1"
  define m1 where "m1 = m\<lparr>cm_participants := (\<lambda>j. if j \<in> set ord1 then map_option popInput (cm_participants m j) else cm_participants m j)\<rparr>"
  have r: "readFrames ord1 m = (frames, m1)"
    using readFrames_eq [OF ord(1)] ord(2) by (simp add: frames_def m1_def)
  have fid: "?fr j = Some f \<Longrightarrow> fd_id f = j \<and> (fd_gain f = 0 \<or> fd_gain f = 1)" for j f
    using gains frameOf_fields [of j] unfolding bind_eq_Some_conv unity_gain_def by metis
  have g: "\<forall>f \<in> set frames. fd_gain f = 0 \<or> fd_gain f = 1"
    using fid by (auto simp: frames_def List.map_filter_def)
  have ne: "frames \<noteq> []"
  proof -
    from speaks obtain j q where "cm_participants m j = Some q" "frameOf j q \<noteq> None" by blast
    then have "j \<in> set ord1" "?fr j \<noteq> None" using ord(2) by auto
    then show ?thesis by (auto simp: frames_def List.map_filter_def filter_empty_conv)
  qed
  note sums = frames_sum [OF ord(1,2), where m = m, folded frames_def]
  have tick: "mixerTick ord1 ord2 m = sendMixes frames ord2 m1" using ne by (simp add: mixerTick_def r)
  have p1: "cm_participants m1 i = Some (popInput p)" "length (mp_Output (popInput p)) < mp_outCap (popInput p)"
    "i \<in> set ord2" "mp_ID (popInput p) = i" "cm_frameSize m1 = cm_frameSize m"
    using p ord(2,4) ids by (auto simp: m1_def popInput_def)
  have "sint (mixFor (cm_frameSize m) frames i ! k) = (\<Sum>j \<in> dom (cm_participants m) - {i}. said m j k)"
    if "k < cm_frameSize m" for k
  proof -
    have "(\<Sum>f \<leftarrow> frames. \<bar>frameAt f k\<bar>) \<le> 32767"
      using sums [where F = abs and P = "\<lambda>_. True" and k = k] loud by simp
    then have "sint (mixFor (cm_frameSize m) frames i ! k) = (\<Sum>f \<leftarrow> filter (\<lambda>f. fd_id f \<noteq> i) frames. frameAt f k)"
      using mix_fold [OF g, of k "replicate (cm_frameSize m) 0" i] that by (simp add: mixFor_def)
    also have "\<dots> = (\<Sum>j \<in> {j \<in> dom (cm_participants m). j \<noteq> i}. said m j k)"
      using sums [where F = "\<lambda>x. x" and P = "\<lambda>j. j \<noteq> i" and k = k] by simp
    also have "{j \<in> dom (cm_participants m). j \<noteq> i} = dom (cm_participants m) - {i}" by auto
    finally show ?thesis .
  qed
  with sendMixes_one [OF ord(3) p1(3,1,2), of frames] show ?thesis
    unfolding tick p1(4,5) by (auto simp: popInput_def)
qed

lemma two_party_participants:
  "cm_participants two_party = [''a'' \<mapsto> talker, ''b'' \<mapsto> listener]" "dom (cm_participants two_party) = {''a'', ''b''}"
  by (auto simp: two_party_def AddParticipant_def NewConferenceMixer_def talker_def listener_def)

lemma talker_frame: "frameOf ''a'' talker = Some \<lparr>fd_id = ''a'', fd_samples = [1, 2], fd_gain = 1\<rparr>"
  by (simp add: frameOf_def talker_def bytesToInt16_Cons) (simp add: bytesToInt16_def)

theorem mixer_tick_sums_witness:
  "\<exists>pkt. cm_participants (mixerTick [''a'', ''b''] [''b'', ''a''] two_party) ''b'' =
      Some (listener\<lparr>mp_Input := tl (mp_Input listener), mp_Output := mp_Output listener @ [pkt]\<rparr>) \<and>
   length (bytesToInt16 (ap_Payload pkt)) = cm_frameSize two_party \<and>
   (\<forall>k < cm_frameSize two_party. sint (bytesToInt16 (ap_Payload pkt) ! k) =
      (\<Sum>j \<in> dom (cm_participants two_party) - {''b''}. said two_party j k))"
proof (rule mixer_tick_sums)
  show "unity_gain two_party"
    by (auto simp: unity_gain_def two_party_participants talker_def listener_def split: if_splits)
  have s: "\<bar>said two_party ''a'' k\<bar> \<le> 2" "said two_party ''b'' k = 0" for k
    by (auto simp: said_def two_party_participants talker_frame less_Suc_eq frameOf_def [of "''b''"] listener_def)
  have "(\<Sum>i \<in> dom (cm_participants two_party). \<bar>said two_party i k\<bar>) \<le> 2" for k
    unfolding two_party_participants(2) using s [of k] by simp
  then show "\<forall>k. (\<Sum>i \<in> dom (cm_participants two_party). \<bar>said two_party i k\<bar>) \<le> 32767"
    by (intro allI) (rule order_trans [of _ 2], simp_all)
  show "\<exists>i p. cm_participants two_party i = Some p \<and> frameOf i p \<noteq> None"
    by (rule exI [of _ "''a''"]) (simp add: two_party_participants talker_frame)
  show "\<forall>i p. cm_participants two_party i = Some p \<longrightarrow> mp_ID p = i"
    by (auto simp: two_party_participants talker_def listener_def split: if_splits)
qed (auto simp: two_party_participants listener_def)

end
