(* ===== verification/G711.thy ===== *)
theory G711
  imports MediaTypes
begin

text \<open>
  The G.711 codec (\<open>pkg/media/encoder/g711.go\<close>). The scalar conversions work on Go's \<open>int\<close>; the
  slice conversions look samples up in tables filled from them at start-up and write the result
  into a buffer the caller allocated, where a write past its end panics (\<open>None\<close>). The lemmas show
  that the slice conversions never panic on the buffers the code allocates and compute the scalar
  conversions; the theorems say which codes survive decoding and encoding again, and how far a
  sample moves under encoding and decoding.
\<close>

unbundle bit_operations_syntax

section \<open>Scalar conversions\<close>

definition segmentBoundaries :: "int list" where
  "segmentBoundaries = [0xFF, 0x1FF, 0x3FF, 0x7FF, 0xFFF, 0x1FFF, 0x3FFF, 0x7FFF]"

text \<open>
  The search stops at \<open>count\<close>, which both callers set to the length of the list, so the index stays
  in range.
\<close>

fun findSegment_from :: "int \<Rightarrow> int list \<Rightarrow> nat \<Rightarrow> nat" where
  "findSegment_from v [] idx = idx"
| "findSegment_from v (b # bs) idx = (if v \<le> b then idx else findSegment_from v bs (idx + 1))"

definition findSegmentIndex :: "int \<Rightarrow> int list \<Rightarrow> nat \<Rightarrow> nat" where
  "findSegmentIndex v boundaries count = findSegment_from v (take count boundaries) 0"

text \<open>\<open>byte(x)\<close> keeps the low eight bits.\<close>

definition go_byte :: "int \<Rightarrow> u8" where
  "go_byte x = word_of_int x"

definition alaw_encode :: "int \<Rightarrow> int \<Rightarrow> u8" where
  "alaw_encode signMask absValue =
     (let segment = findSegmentIndex absValue segmentBoundaries 8 in
      if segment \<ge> 8 then go_byte (0x7F XOR signMask)
      else
        let quantBits = (if segment < 2 then drop_bit 4 absValue AND 0x0F
                         else drop_bit (segment + 3) absValue AND 0x0F) in
        go_byte ((push_bit 4 (int segment) OR quantBits) XOR signMask))"

definition linear2alaw :: "int \<Rightarrow> u8" where
  "linear2alaw pcmValue =
     (if pcmValue \<ge> 0 then alaw_encode 0xD5 pcmValue
      else if pcmValue < -8 then alaw_encode 0x55 (- pcmValue - 8)
      else 0xD5)"

definition alaw2linear :: "u8 \<Rightarrow> sample" where
  "alaw2linear b =
     (let alawByte = b XOR 0x55;
          temp = push_bit 4 (ucast (alawByte AND 0x0F)) :: sample;
          segment = unat (drop_bit 4 (alawByte AND 0x70));
          temp' = (if segment = 0 then temp + 8
                   else if segment = 1 then temp + 0x108
                   else push_bit (segment - 1) (temp + 0x108)) in
      if alawByte AND 0x80 \<noteq> 0 then temp' else - temp')"

definition ulaw_encode :: "int \<Rightarrow> int \<Rightarrow> u8" where
  "ulaw_encode signMask pcmValue =
     (let segment = findSegmentIndex pcmValue segmentBoundaries 8 in
      if segment \<ge> 8 then go_byte (0x7F XOR signMask)
      else go_byte ((push_bit 4 (int segment) OR (drop_bit (segment + 3) pcmValue AND 0xF)) XOR signMask))"

definition linear2ulaw :: "int \<Rightarrow> u8" where
  "linear2ulaw pcmValue =
     (if pcmValue < 0 then ulaw_encode 0x7F (0x84 - pcmValue)
      else ulaw_encode 0xFF (pcmValue + 0x84))"

definition ulaw2linear :: "u8 \<Rightarrow> int" where
  "ulaw2linear b =
     (let ulawByte = NOT b;
          temp = uint (push_bit 3 (ulawByte AND 0x0F)) + 0x84;
          temp' = push_bit (unat (drop_bit 4 (ulawByte AND 0x70))) temp in
      if ulawByte AND 0x80 \<noteq> 0 then 0x84 - temp' else temp' - 0x84)"

section \<open>Tables and slices\<close>

definition alawDecodeTable :: "sample list" where
  "alawDecodeTable = map (\<lambda>i. alaw2linear (of_nat i)) [0..<256]"

definition ulawDecodeTable :: "sample list" where
  "ulawDecodeTable = map (\<lambda>i. word_of_int (ulaw2linear (of_nat i))) [0..<256]"

definition pcmToALawTable :: "u8 list" where
  "pcmToALawTable = map (\<lambda>i. linear2alaw (sint (of_nat i :: u16))) [0..<65536]"

definition pcmToULawTable :: "u8 list" where
  "pcmToULawTable = map (\<lambda>i. linear2ulaw (sint (of_nat i :: u16))) [0..<65536]"

text \<open>The two decode loops and the two encode loops differ only in the table they read.\<close>

fun g711_decode_loop :: "sample list \<Rightarrow> nat \<Rightarrow> bytes \<Rightarrow> bytes \<Rightarrow> bytes option" where
  "g711_decode_loop tab i [] dst = Some dst"
| "g711_decode_loop tab i (b # bs) dst =
     (if i * 2 + 1 < length dst then
        let pcmSample = tab ! unat b in
        g711_decode_loop tab (i + 1) bs (dst[i * 2 := ucast pcmSample, i * 2 + 1 := ucast (drop_bit 8 pcmSample)])
      else None)"

definition pcma2pcmInto :: "bytes \<Rightarrow> bytes \<Rightarrow> bytes option" where
  "pcma2pcmInto dst alawData = g711_decode_loop alawDecodeTable 0 alawData dst"

definition pcmu2pcmInto :: "bytes \<Rightarrow> bytes \<Rightarrow> bytes option" where
  "pcmu2pcmInto dst ulawData = g711_decode_loop ulawDecodeTable 0 ulawData dst"

fun g711_encode_loop :: "u8 list \<Rightarrow> nat \<Rightarrow> bytes \<Rightarrow> bytes \<Rightarrow> bytes option" where
  "g711_encode_loop tab i (a # b # r) dst =
     (if i < length dst then
        let s = (ucast a OR push_bit 8 (ucast b) :: u16) in
        g711_encode_loop tab (i + 1) r (dst[i := tab ! unat s])
      else None)"
| "g711_encode_loop tab i _ dst = Some dst"

definition pcm2pcmaInto :: "bytes \<Rightarrow> bytes \<Rightarrow> bytes option" where
  "pcm2pcmaInto dst pcmData = g711_encode_loop pcmToALawTable 0 pcmData dst"

definition pcm2pcmuInto :: "bytes \<Rightarrow> bytes \<Rightarrow> bytes option" where
  "pcm2pcmuInto dst pcmData = g711_encode_loop pcmToULawTable 0 pcmData dst"

definition pcma2pcm :: "bytes \<Rightarrow> bytes option" where
  "pcma2pcm alawData = pcma2pcmInto (replicate (push_bit 1 (length alawData)) 0) alawData"

definition pcmu2pcm :: "bytes \<Rightarrow> bytes option" where
  "pcmu2pcm ulawData = pcmu2pcmInto (replicate (push_bit 1 (length ulawData)) 0) ulawData"

definition Pcm2pcma :: "bytes \<Rightarrow> bytes option" where
  "Pcm2pcma pcmData = pcm2pcmaInto (replicate (drop_bit 1 (length pcmData)) 0) pcmData"

definition pcm2pcmu :: "bytes \<Rightarrow> bytes option" where
  "pcm2pcmu pcmData = pcm2pcmuInto (replicate (drop_bit 1 (length pcmData)) 0) pcmData"

definition EncodePCMA :: "bytes \<Rightarrow> bytes option" where "EncodePCMA pcmData = Pcm2pcma pcmData"

definition DecodePCMA :: "bytes \<Rightarrow> bytes option" where "DecodePCMA alawData = pcma2pcm alawData"

definition DecodePCMU :: "bytes \<Rightarrow> bytes option" where "DecodePCMU ulawData = pcmu2pcm ulawData"

text \<open>The magnitude a code with a segment and four quantisation bits stands for.\<close>

definition alaw_level :: "nat \<Rightarrow> nat \<Rightarrow> int" where
  "alaw_level s q = (if s = 0 then 16 * int q + 8 else (16 * int q + 264) * 2 ^ (s - 1))"

definition ulaw_level :: "nat \<Rightarrow> nat \<Rightarrow> int" where
  "ulaw_level s q = (8 * int q + 132) * 2 ^ s - 132"

section \<open>The slice conversions\<close>

lemma g711_decode_loop_eq:
  "length dst = 2 * (i + length bs) \<Longrightarrow>
   g711_decode_loop tab i bs dst = Some (take (2 * i) dst @ int16ToBytes (map (\<lambda>b. tab ! unat b) bs))"
proof (induction bs arbitrary: i dst)
  case Nil
  then show ?case by (simp add: int16ToBytes_def)
next
  case (Cons b bs)
  let ?s = "tab ! unat b"
  let ?d = "dst[i * 2 := ucast ?s, i * 2 + 1 := ucast (drop_bit 8 ?s)]"
  have "take (2 * (i + 1)) ?d = take (2 * i) dst @ [ucast ?s, ucast (drop_bit 8 ?s)]"
    using Cons.prems by (simp add: take_Suc_conv_app_nth mult.commute [of 2 i])
  with Cons.IH [of ?d "i + 1"] Cons.prems show ?case
    by (simp add: int16ToBytes_Cons Let_def)
qed

lemma g711_encode_loop_eq:
  "length dst = i + length bs div 2 \<Longrightarrow>
   g711_encode_loop tab i bs dst = Some (take i dst @ map (\<lambda>s. tab ! unat s) (bytesToInt16 bs))"
proof (induction tab i bs dst rule: g711_encode_loop.induct)
  case (1 tab i a b r dst)
  then show ?case by (simp add: bytesToInt16_Cons Let_def take_Suc_conv_app_nth)
qed (simp_all add: bytesToInt16_def)

lemma nth_table: "unat w < n \<Longrightarrow> map (\<lambda>i. f (of_nat i)) [0..<n] ! unat (w :: 'a::len word) = f w"
  by simp

lemma unat_u8: "unat (w :: u8) < 256"
proof -
  have "unat w < 2 ^ LENGTH(8)" by (rule unsigned_less)
  then show ?thesis by simp
qed

lemma unat_u16: "unat (w :: u16) < 65536"
proof -
  have "unat w < 2 ^ LENGTH(16)" by (rule unsigned_less)
  then show ?thesis by simp
qed

lemma table_eqs:
  "alawDecodeTable ! unat b = alaw2linear b"
  "ulawDecodeTable ! unat b = word_of_int (ulaw2linear b)"
  "pcmToALawTable ! unat (s :: u16) = linear2alaw (sint s)"
  "pcmToULawTable ! unat s = linear2ulaw (sint s)"
  unfolding alawDecodeTable_def ulawDecodeTable_def pcmToALawTable_def pcmToULawTable_def
  by (rule nth_table [where f = alaw2linear, OF unat_u8]
      nth_table [where f = "\<lambda>b. word_of_int (ulaw2linear b)", OF unat_u8]
      nth_table [where f = "\<lambda>s. linear2alaw (sint s)", OF unat_u16]
      nth_table [where f = "\<lambda>s. linear2ulaw (sint s)", OF unat_u16])+

lemma DecodePCMA_eq: "DecodePCMA d = Some (int16ToBytes (map alaw2linear d))"
  by (simp add: DecodePCMA_def pcma2pcm_def pcma2pcmInto_def g711_decode_loop_eq table_eqs push_bit_eq_mult)

lemma DecodePCMU_eq: "DecodePCMU d = Some (int16ToBytes (map (\<lambda>b. word_of_int (ulaw2linear b)) d))"
  by (simp add: DecodePCMU_def pcmu2pcm_def pcmu2pcmInto_def g711_decode_loop_eq table_eqs push_bit_eq_mult)

lemma EncodePCMA_eq: "EncodePCMA p = Some (map (\<lambda>s. linear2alaw (sint s)) (bytesToInt16 p))"
  by (simp add: EncodePCMA_def Pcm2pcma_def pcm2pcmaInto_def g711_encode_loop_eq table_eqs drop_bit_eq_div)

lemma pcm2pcmu_eq: "pcm2pcmu p = Some (map (\<lambda>s. linear2ulaw (sint s)) (bytesToInt16 p))"
  by (simp add: pcm2pcmu_def pcm2pcmuInto_def g711_encode_loop_eq table_eqs drop_bit_eq_div)

section \<open>Segments and codes\<close>

lemma all_bytes: "list_all (\<lambda>i. P (of_nat i)) [0..<256] \<Longrightarrow> P (b :: u8)"
  using unat_u8 [of b] by (auto simp: list_all_iff dest!: bspec [of _ _ "unat b"])

lemma alaw_codes: "b \<noteq> 0x55 \<Longrightarrow> linear2alaw (sint (alaw2linear b)) = b"
proof -
  have "list_all (\<lambda>i. of_nat i = (0x55 :: u8) \<or> linear2alaw (sint (alaw2linear (of_nat i))) = of_nat i) [0..<256]"
    by code_simp
  from all_bytes [OF this] show "b \<noteq> 0x55 \<Longrightarrow> linear2alaw (sint (alaw2linear b)) = b" by blast
qed

lemma ulaw_codes: "b \<noteq> 0x7F \<Longrightarrow> linear2ulaw (sint (word_of_int (ulaw2linear b) :: sample)) = b"
proof -
  have "list_all (\<lambda>i. of_nat i = (0x7F :: u8) \<or>
          linear2ulaw (sint (word_of_int (ulaw2linear (of_nat i)) :: sample)) = of_nat i) [0..<256]"
    by code_simp
  from all_bytes [OF this]
  show "b \<noteq> 0x7F \<Longrightarrow> linear2ulaw (sint (word_of_int (ulaw2linear b) :: sample)) = b" by blast
qed

lemma all_codes:
  "list_all (\<lambda>s. list_all (P s) [0..<16]) [0..<8] \<Longrightarrow> s < 8 \<Longrightarrow> q < 16 \<Longrightarrow> P s q"
  by (simp add: list_all_iff)

lemma alaw_levels:
  assumes "s < 8" "q < 16"
  shows "sint (alaw2linear (go_byte ((push_bit 4 (int s) OR int q) XOR 0xD5))) = alaw_level s q"
    "sint (alaw2linear (go_byte ((push_bit 4 (int s) OR int q) XOR 0x55))) = - alaw_level s q"
proof -
  have "list_all (\<lambda>s. list_all (\<lambda>q.
      sint (alaw2linear (go_byte ((push_bit 4 (int s) OR int q) XOR 0xD5))) = alaw_level s q) [0..<16]) [0..<8]"
    by code_simp
  from all_codes [OF this assms]
  show "sint (alaw2linear (go_byte ((push_bit 4 (int s) OR int q) XOR 0xD5))) = alaw_level s q" .
  have "list_all (\<lambda>s. list_all (\<lambda>q.
      sint (alaw2linear (go_byte ((push_bit 4 (int s) OR int q) XOR 0x55))) = - alaw_level s q) [0..<16]) [0..<8]"
    by code_simp
  from all_codes [OF this assms]
  show "sint (alaw2linear (go_byte ((push_bit 4 (int s) OR int q) XOR 0x55))) = - alaw_level s q" .
qed

lemma ulaw_levels:
  assumes "s < 8" "q < 16"
  shows "sint (word_of_int (ulaw2linear (go_byte ((push_bit 4 (int s) OR int q) XOR 0xFF))) :: sample) = ulaw_level s q"
    "sint (word_of_int (ulaw2linear (go_byte ((push_bit 4 (int s) OR int q) XOR 0x7F))) :: sample) = - ulaw_level s q"
proof -
  have "list_all (\<lambda>s. list_all (\<lambda>q. sint (word_of_int (ulaw2linear
      (go_byte ((push_bit 4 (int s) OR int q) XOR 0xFF))) :: sample) = ulaw_level s q) [0..<16]) [0..<8]"
    by code_simp
  from all_codes [OF this assms]
  show "sint (word_of_int (ulaw2linear (go_byte ((push_bit 4 (int s) OR int q) XOR 0xFF))) :: sample) = ulaw_level s q" .
  have "list_all (\<lambda>s. list_all (\<lambda>q. sint (word_of_int (ulaw2linear
      (go_byte ((push_bit 4 (int s) OR int q) XOR 0x7F))) :: sample) = - ulaw_level s q) [0..<16]) [0..<8]"
    by code_simp
  from all_codes [OF this assms]
  show "sint (word_of_int (ulaw2linear (go_byte ((push_bit 4 (int s) OR int q) XOR 0x7F))) :: sample) = - ulaw_level s q" .
qed

lemma findSegmentIndex_cases:
  assumes "0 \<le> v" "v \<le> 0x7FFF"
  obtains "findSegmentIndex v segmentBoundaries 8 = 0" "v < 256"
  | s where "findSegmentIndex v segmentBoundaries 8 = s" "s \<in> {1..7}" "2 ^ (s + 7) \<le> v" "v < 2 ^ (s + 8)"
proof -
  define s where "s = findSegmentIndex v segmentBoundaries 8"
  have *: "(s = 0 \<and> v < 256) \<or> (s \<in> {1..7} \<and> 2 ^ (s + 7) \<le> v \<and> v < 2 ^ (s + 8))"
    using assms by (simp add: s_def findSegmentIndex_def segmentBoundaries_def)
  with that show ?thesis by (auto simp: s_def)
qed

lemma quant_bits:
  assumes "2 ^ (s + 7) \<le> v" "v < 2 ^ (s + 8)"
  obtains q where "drop_bit (s + 3) v AND 0xF = int q" "q < 16"
    "(int q + 16) * 2 ^ (s + 3) \<le> v" "v < (int q + 17) * 2 ^ (s + 3)"
proof -
  define d where "d = v div 2 ^ (s + 3)"
  define P where "P = (2 :: int) ^ (s + 3)"
  have P: "0 < P" "d = v div P" by (simp_all add: P_def d_def)
  have v: "16 * P \<le> v" "v < 32 * P" using assms by (simp_all add: P_def power_add)
  have dv: "d * P \<le> v" "v < (d + 1) * P"
    using P div_mult_mod_eq [of v P] pos_mod_bound [of P v] pos_mod_sign [of P v]
    unfolding P(2) distrib_right by linarith+
  have "d * P < 32 * P" "16 * P < (d + 1) * P" using v dv by linarith+
  then have d: "16 \<le> d" "d < 32" using P(1) by simp_all
  have m: "d mod 16 = d - 16" using d by presburger
  have a: "drop_bit (s + 3) v AND 0xF = d mod 16"
    using take_bit_eq_mask [of 4 d] by (simp add: d_def drop_bit_eq_div take_bit_eq_mod mask_eq_exp_minus_1)
  with that [of "nat (d - 16)"] dv d m show ?thesis by (simp add: P_def add.commute [of 1 d] nat_less_iff)
qed

lemma seg_cases: "s \<in> {1..7 :: nat} \<Longrightarrow> s = 1 \<or> s = 2 \<or> s = 3 \<or> s = 4 \<or> s = 5 \<or> s = 6 \<or> s = 7"
  by auto

lemma level_bounds:
  assumes "s \<in> {1..7}" "(int q + 16) * 2 ^ (s + 3) \<le> v" "v < (int q + 17) * 2 ^ (s + 3)"
  shows "\<bar>alaw_level s q - v\<bar> \<le> v div 32" "\<bar>ulaw_level s q - (v - 132)\<bar> \<le> v div 32"
  using seg_cases [OF assms(1)] assms(2,3) by (auto simp: alaw_level_def ulaw_level_def)

lemma alaw_encode_code:
  assumes "0 \<le> v" "v \<le> 0x7FFF"
  obtains s q where "s < 8" "q < 16" "\<And>m. alaw_encode m v = go_byte ((push_bit 4 (int s) OR int q) XOR m)"
    "\<bar>alaw_level s q - v\<bar> \<le> max 8 (v div 32)"
  using assms
proof (cases rule: findSegmentIndex_cases)
  case 1
  have "drop_bit 4 v AND 0xF = v div 16"
    using 1 assms take_bit_eq_mask [of 4 "v div 16"]
    by (simp add: drop_bit_eq_div take_bit_eq_mod mask_eq_exp_minus_1)
  then have "alaw_encode m v = go_byte ((push_bit 4 (int 0) OR int (nat (v div 16))) XOR m)" for m
    using 1 assms by (simp add: alaw_encode_def pos_imp_zdiv_nonneg_iff)
  moreover have "\<bar>alaw_level 0 (nat (v div 16)) - v\<bar> \<le> max 8 (v div 32)"
    using assms by (simp add: alaw_level_def pos_imp_zdiv_nonneg_iff)
  moreover have "nat (v div 16) < 16" using 1 assms by linarith
  ultimately show ?thesis by (intro that [of 0 "nat (v div 16)"]) simp_all
next
  case (2 s)
  obtain q where q: "drop_bit (s + 3) v AND 0xF = int q" "q < 16"
    "(int q + 16) * 2 ^ (s + 3) \<le> v" "v < (int q + 17) * 2 ^ (s + 3)"
    using quant_bits [OF 2(3,4)] .
  have "alaw_encode m v = go_byte ((push_bit 4 (int s) OR int q) XOR m)" for m
    using 2(1,2) q(1) by (cases "s = 1") (simp_all add: alaw_encode_def)
  with that [of s q] level_bounds(1) [OF 2(2) q(3,4)] q(2) 2(2) show ?thesis by simp
qed

lemma ulaw_encode_code:
  assumes "132 \<le> v" "v \<le> 0x7FFF"
  obtains s q where "s < 8" "q < 16" "\<And>m. ulaw_encode m v = go_byte ((push_bit 4 (int s) OR int q) XOR m)"
    "\<bar>ulaw_level s q - (v - 132)\<bar> \<le> v div 32"
proof -
  have "0 \<le> v" using assms by simp
  from this assms(2) show ?thesis
  proof (cases rule: findSegmentIndex_cases)
    case 1
    obtain q where q: "drop_bit (0 + 3) v AND 0xF = int q" "q < 16"
      "(int q + 16) * 2 ^ (0 + 3) \<le> v" "v < (int q + 17) * 2 ^ (0 + 3)"
      using quant_bits [of 0 v] 1 assms by auto
    then show ?thesis using 1 that [of 0 q] by (simp add: ulaw_encode_def ulaw_level_def)
  next
    case (2 s)
    obtain q where q: "drop_bit (s + 3) v AND 0xF = int q" "q < 16"
      "(int q + 16) * 2 ^ (s + 3) \<le> v" "v < (int q + 17) * 2 ^ (s + 3)"
      using quant_bits [OF 2(3,4)] .
    have "ulaw_encode m v = go_byte ((push_bit 4 (int s) OR int q) XOR m)" for m
      using 2(1,2) q(1) by (simp add: ulaw_encode_def)
    with that [of s q] level_bounds(2) [OF 2(2) q(3,4)] q(2) 2(2) show ?thesis by simp
  qed
qed

lemma alaw_error:
  fixes x :: sample
  shows "\<bar>sint (alaw2linear (linear2alaw (sint x))) - sint x\<bar>
         \<le> (if 0 \<le> sint x then max 8 (sint x div 32) else 8 + max 8 (\<bar>sint x\<bar> div 32))"
proof -
  have r: "- 32768 \<le> sint x" "sint x \<le> 32767"
    using sint_greater_eq [of x] sint_less [of x] by simp_all
  consider "0 \<le> sint x" | "sint x < - 8" | "- 8 \<le> sint x" "sint x < 0" by linarith
  then show ?thesis
  proof cases
    case 1
    obtain s q where "s < 8" "q < 16" "\<And>m. alaw_encode m (sint x) = go_byte ((push_bit 4 (int s) OR int q) XOR m)"
      "\<bar>alaw_level s q - sint x\<bar> \<le> max 8 (sint x div 32)"
      using alaw_encode_code [of "sint x"] 1 r by auto
    with 1 show ?thesis by (simp add: linear2alaw_def alaw_levels)
  next
    case 2
    define v where "v = - sint x - 8"
    obtain s q where "s < 8" "q < 16" "\<And>m. alaw_encode m v = go_byte ((push_bit 4 (int s) OR int q) XOR m)"
      and e: "\<bar>alaw_level s q - v\<bar> \<le> max 8 (v div 32)"
      using alaw_encode_code [of v] 2 r by (auto simp: v_def)
    then have "sint (alaw2linear (linear2alaw (sint x))) = - alaw_level s q"
      using 2 by (simp add: linear2alaw_def alaw_levels flip: v_def)
    moreover have "v div 32 \<le> \<bar>sint x\<bar> div 32" by (rule zdiv_mono1) (use 2 in \<open>auto simp: v_def\<close>)
    moreover have "\<bar>sint x\<bar> = v + 8" "\<not> 0 \<le> sint x" using 2 by (simp_all add: v_def)
    moreover have "\<bar>- alaw_level s q - sint x\<bar> \<le> 8 + \<bar>alaw_level s q - v\<bar>"
      by (simp add: v_def)
    ultimately show ?thesis using e by (simp only: if_False) linarith
  next
    case 3
    have "sint (alaw2linear 0xD5) = 8" by code_simp
    with 3 show ?thesis by (simp add: linear2alaw_def)
  qed
qed

lemma ulaw_error:
  fixes x :: sample
  assumes "\<bar>sint x\<bar> \<le> 32635"
  shows "\<bar>sint (word_of_int (ulaw2linear (linear2ulaw (sint x))) :: sample) - sint x\<bar> \<le> (\<bar>sint x\<bar> + 132) div 32"
proof -
  define v where "v = \<bar>sint x\<bar> + 132"
  obtain s q where c: "s < 8" "q < 16" "\<And>m. ulaw_encode m v = go_byte ((push_bit 4 (int s) OR int q) XOR m)"
    and e: "\<bar>ulaw_level s q - (v - 132)\<bar> \<le> v div 32"
    using ulaw_encode_code [of v] assms by (auto simp: v_def)
  have "linear2ulaw (sint x) = ulaw_encode (if sint x < 0 then 0x7F else 0xFF) v"
    by (simp add: linear2ulaw_def v_def)
  then have "sint (word_of_int (ulaw2linear (linear2ulaw (sint x))) :: sample)
             = (if sint x < 0 then - ulaw_level s q else ulaw_level s q)"
    using c by (simp add: ulaw_levels)
  then show ?thesis using e by (auto simp: v_def split: if_splits)
qed

lemma ulaw_clip:
  fixes x :: sample
  assumes "32635 < \<bar>sint x\<bar>"
  shows "sint (word_of_int (ulaw2linear (linear2ulaw (sint x))) :: sample) = (if sint x < 0 then - 32124 else 32124)"
proof -
  have "linear2ulaw (sint x) = (if sint x < 0 then 0 else 0x80)"
    using assms by (auto simp: linear2ulaw_def ulaw_encode_def findSegmentIndex_def segmentBoundaries_def go_byte_def)
  moreover have "sint (word_of_int (ulaw2linear 0) :: sample) = - 32124" by code_simp
  moreover have "sint (word_of_int (ulaw2linear 0x80) :: sample) = 32124" by code_simp
  ultimately show ?thesis by simp
qed

section \<open>Properties\<close>

text \<open>
  C12. Decoding a G.711 payload and encoding the samples again returns the payload, without a
  write outside the allocated buffers, for every payload without the A-law code \<open>0x55\<close> and
  without the mu-law code \<open>0x7F\<close>. These two are the codes of the smallest negative sample: they
  come back as \<open>0xD5\<close> and \<open>0xFF\<close>.
\<close>

theorem g711_roundtrip:
  "(0x55 \<notin> set d \<longrightarrow> Option.bind (DecodePCMA d) EncodePCMA = Some d)
   \<and> (0x7F \<notin> set d \<longrightarrow> Option.bind (DecodePCMU d) pcm2pcmu = Some d)
   \<and> Option.bind (DecodePCMA [0x55]) EncodePCMA = Some [0xD5]
   \<and> Option.bind (DecodePCMU [0x7F]) pcm2pcmu = Some [0xFF]"
proof (intro conjI impI)
  have "linear2alaw (sint (alaw2linear 0x55)) = 0xD5" by code_simp
  then show "Option.bind (DecodePCMA [0x55]) EncodePCMA = Some [0xD5]"
    by (simp add: DecodePCMA_eq EncodePCMA_eq)
  have "linear2ulaw (sint (word_of_int (ulaw2linear 0x7F) :: sample)) = 0xFF" by code_simp
  then show "Option.bind (DecodePCMU [0x7F]) pcm2pcmu = Some [0xFF]"
    by (simp add: DecodePCMU_eq pcm2pcmu_eq)
next
  assume "0x55 \<notin> set d"
  then show "Option.bind (DecodePCMA d) EncodePCMA = Some d"
    unfolding DecodePCMA_eq EncodePCMA_eq Option.bind.bind_lunit bytesToInt16_int16ToBytes option.inject map_map
    by (intro map_idI) (auto intro!: alaw_codes)
next
  assume "0x7F \<notin> set d"
  then show "Option.bind (DecodePCMU d) pcm2pcmu = Some d"
    unfolding DecodePCMU_eq pcm2pcmu_eq Option.bind.bind_lunit bytesToInt16_int16ToBytes option.inject map_map
    by (intro map_idI) (auto simp: comp_def intro!: ulaw_codes)
qed

theorem g711_roundtrip_witness:
  "Option.bind (DecodePCMA [0, 0xD5, 0xFF]) EncodePCMA = Some [0, 0xD5, 0xFF]
   \<and> Option.bind (DecodePCMU [0, 0xD5, 0xFF]) pcm2pcmu = Some [0, 0xD5, 0xFF]"
  using g711_roundtrip [of "[0, 0xD5, 0xFF]"] by simp

text \<open>
  C19. Encoding PCM and decoding it again gives as many samples as went in, each close to the
  sample it came from: for A-law within \<open>max 8 (x / 32)\<close> of a sample that is not negative and within
  8 more of a negative one, for mu-law within \<open>(|x| + 132) / 32\<close> up to magnitude 32635, beyond which
  the sample is clipped to magnitude 32124.
\<close>

theorem g711_error:
  assumes "i < length pcm div 2"
  defines "x \<equiv> sint (bytesToInt16 pcm ! i)"
  shows "\<exists>a u. Option.bind (EncodePCMA pcm) DecodePCMA = Some a
           \<and> Option.bind (pcm2pcmu pcm) DecodePCMU = Some u
           \<and> length (bytesToInt16 a) = length pcm div 2 \<and> length (bytesToInt16 u) = length pcm div 2
           \<and> \<bar>sint (bytesToInt16 a ! i) - x\<bar> \<le> (if 0 \<le> x then max 8 (x div 32) else 8 + max 8 (\<bar>x\<bar> div 32))
           \<and> (if \<bar>x\<bar> \<le> 32635 then \<bar>sint (bytesToInt16 u ! i) - x\<bar> \<le> (\<bar>x\<bar> + 132) div 32
              else sint (bytesToInt16 u ! i) = (if x < 0 then - 32124 else 32124))"
proof -
  let ?s = "bytesToInt16 pcm"
  let ?a = "map (\<lambda>s. alaw2linear (linear2alaw (sint s))) ?s"
  let ?u = "map (\<lambda>s. word_of_int (ulaw2linear (linear2ulaw (sint s)))) ?s :: sample list"
  have "Option.bind (EncodePCMA pcm) DecodePCMA = Some (int16ToBytes ?a)"
    by (simp add: EncodePCMA_eq DecodePCMA_eq comp_def)
  moreover have "Option.bind (pcm2pcmu pcm) DecodePCMU = Some (int16ToBytes ?u)"
    by (simp add: pcm2pcmu_eq DecodePCMU_eq comp_def)
  moreover have "\<bar>sint (?a ! i) - x\<bar> \<le> (if 0 \<le> x then max 8 (x div 32) else 8 + max 8 (\<bar>x\<bar> div 32))"
    using alaw_error [of "?s ! i"] assms(1) by (simp only: x_def nth_map length_bytesToInt16)
  moreover have "if \<bar>x\<bar> \<le> 32635 then \<bar>sint (?u ! i) - x\<bar> \<le> (\<bar>x\<bar> + 132) div 32
      else sint (?u ! i) = (if x < 0 then - 32124 else 32124)"
    using ulaw_error [of "?s ! i"] ulaw_clip [of "?s ! i"] assms(1) by (simp add: x_def)
  ultimately show ?thesis
    by (intro exI [of _ "int16ToBytes ?a"] exI [of _ "int16ToBytes ?u"]) simp
qed

theorem g711_error_witness:
  "\<exists>a. Option.bind (EncodePCMA [0xE8, 0x03]) DecodePCMA = Some a \<and> \<bar>sint (bytesToInt16 a ! 0) - 1000\<bar> \<le> 31"
proof -
  have "sint (bytesToInt16 [0xE8, 0x03 :: u8] ! 0) = 1000" by code_simp
  with g711_error [of 0 "[0xE8, 0x03]"] show ?thesis by auto
qed

end
