(* ===== verification/Routing.thy ===== *)
theory Routing
  imports MediaTypes "HOL-Library.Multiset"
begin

text \<open>
  Packet routing and the relay fast path (\<open>pkg/media/router.go\<close>, \<open>relay.go\<close>). The round-robin
  index is a 64-bit word that the source reads as a signed number; \<open>None\<close> is the panic of a
  negative slice index. Connectors are of any type, packets too.
\<close>

section \<open>The router\<close>

datatype RoutingStrategy = StrategyBroadcast | StrategyRoundRobin | StrategyFirstAvailable | StrategyOther int

record 'p RouteRule =
  rr_Condition :: "('p \<Rightarrow> bool) option"
  rr_Targets :: "string list"
  rr_Strategy :: RoutingStrategy

record 'p Router =
  ro_rules :: "'p RouteRule list"
  ro_defaultStrategy :: RoutingStrategy
  ro_roundRobinIndex :: u64

definition NewRouter :: "RoutingStrategy \<Rightarrow> 'p Router" where
  "NewRouter s = \<lparr>ro_rules = [], ro_defaultStrategy = s, ro_roundRobinIndex = 0\<rparr>"

definition AddRule :: "'p RouteRule \<Rightarrow> 'p Router \<Rightarrow> 'p Router" where
  "AddRule rule r = r\<lparr>ro_rules := ro_rules r @ [rule]\<rparr>"

text \<open>Go's \<open>%\<close> takes the sign of the dividend.\<close>

definition go_rem :: "int \<Rightarrow> int \<Rightarrow> int" where
  "go_rem a b = sgn a * (\<bar>a\<bar> mod \<bar>b\<bar>)"

definition applyStrategy ::
  "RoutingStrategy \<Rightarrow> string list \<Rightarrow> 't list \<Rightarrow> 'p Router \<Rightarrow> ('t list \<times> 'p Router) option" where
  "applyStrategy strategy targets available r =
     (if available = [] then Some ([], r)
      else case strategy of
        StrategyBroadcast \<Rightarrow> Some (available, r)
      | StrategyRoundRobin \<Rightarrow>
          let idx = ro_roundRobinIndex r + 1;
              i = go_rem (sint idx) (int (length available));
              r = r\<lparr>ro_roundRobinIndex := idx\<rparr> in
          if i < 0 then None else Some ([available ! nat i], r)
      | StrategyFirstAvailable \<Rightarrow> Some ([available ! 0], r)
      | StrategyOther _ \<Rightarrow> Some (available, r))"

definition rule_matches :: "'p \<Rightarrow> 'p RouteRule \<Rightarrow> bool" where
  "rule_matches packet rule = (case rr_Condition rule of None \<Rightarrow> False | Some c \<Rightarrow> c packet)"

definition Route :: "'p \<Rightarrow> 't list \<Rightarrow> 'p Router \<Rightarrow> ('t list \<times> 'p Router) option" where
  "Route packet available r =
     (case find (rule_matches packet) (ro_rules r) of
        Some rule \<Rightarrow> applyStrategy (rr_Strategy rule) (rr_Targets rule) available r
      | None \<Rightarrow> applyStrategy (ro_defaultStrategy r) [] available r)"

record TransportConnector =
  tc_ID :: string
  tc_Direction :: string
  tc_active :: bool

definition NewTransportConnector :: "string \<Rightarrow> string \<Rightarrow> TransportConnector" where
  "NewTransportConnector i direction = \<lparr>tc_ID = i, tc_Direction = direction, tc_active = True\<rparr>"

definition SetActive :: "bool \<Rightarrow> TransportConnector \<Rightarrow> TransportConnector" where
  "SetActive b tc = tc\<lparr>tc_active := b\<rparr>"

section \<open>The relay state\<close>

record RelayState =
  rs_enabled :: bool
  rs_active :: bool
  rs_inputCodec :: "string option"
  rs_outputCodec :: "string option"

definition updateActive :: "RelayState \<Rightarrow> RelayState" where
  "updateActive r =
     (if \<not> rs_enabled r then r\<lparr>rs_active := False\<rparr>
      else case (rs_inputCodec r, rs_outputCodec r) of
        (Some inp, Some out) \<Rightarrow>
          if inp = '''' \<or> out = '''' then r\<lparr>rs_active := False\<rparr> else r\<lparr>rs_active := (inp = out)\<rparr>
      | _ \<Rightarrow> r\<lparr>rs_active := False\<rparr>)"

definition NewRelayState :: RelayState where
  "NewRelayState = \<lparr>rs_enabled = True, rs_active = False, rs_inputCodec = None, rs_outputCodec = None\<rparr>"

definition SetEnabled :: "bool \<Rightarrow> RelayState \<Rightarrow> RelayState" where
  "SetEnabled b r = updateActive (r\<lparr>rs_enabled := b\<rparr>)"

definition SetInputCodec :: "string \<Rightarrow> RelayState \<Rightarrow> RelayState" where
  "SetInputCodec c r = updateActive (r\<lparr>rs_inputCodec := Some c\<rparr>)"

definition SetOutputCodec :: "string \<Rightarrow> RelayState \<Rightarrow> RelayState" where
  "SetOutputCodec c r = updateActive (r\<lparr>rs_outputCodec := Some c\<rparr>)"

section \<open>The packet pool\<close>

type_synonym PacketPool = "AudioPacket list"

definition poolGet :: "PacketPool \<Rightarrow> AudioPacket \<times> PacketPool" where
  "poolGet pool =
     (case pool of
        pkt # rest \<Rightarrow>
          (pkt\<lparr>ap_PlayID := [], ap_Sequence := 0, ap_Payload := [], ap_RTPSamples := 0, ap_IsFirstPacket := False,
               ap_IsEndPacket := False, ap_IsSynthesized := False, ap_IsSilence := False, ap_SourceText := []\<rparr>, rest)
      | [] \<Rightarrow> (zero_audio, []))"

definition poolPut :: "AudioPacket option \<Rightarrow> PacketPool \<Rightarrow> PacketPool" where
  "poolPut pkt pool =
     (case pkt of
        None \<Rightarrow> pool
      | Some pkt \<Rightarrow> if length pool < 64 then pool @ [pkt\<lparr>ap_Payload := []\<rparr>] else pool)"

section \<open>Specification\<close>

fun routeAll :: "'p list \<Rightarrow> 't list \<Rightarrow> 'p Router \<Rightarrow> ('t list list \<times> 'p Router) option" where
  "routeAll [] available r = Some ([], r)"
| "routeAll (p # ps) available r =
     (case Route p available r of
        None \<Rightarrow> None
      | Some (ts, r) \<Rightarrow> map_option (\<lambda>(tss, r). (ts # tss, r)) (routeAll ps available r))"

datatype RelayOp = OpEnabled bool | OpInput string | OpOutput string

fun relayOp :: "RelayOp \<Rightarrow> RelayState \<Rightarrow> RelayState" where
  "relayOp (OpEnabled b) r = SetEnabled b r"
| "relayOp (OpInput c) r = SetInputCodec c r"
| "relayOp (OpOutput c) r = SetOutputCodec c r"

text \<open>What the relay flag means.\<close>

definition relay_ok :: "RelayState \<Rightarrow> bool" where
  "relay_ok r \<longleftrightarrow>
     (rs_active r \<longleftrightarrow> rs_enabled r \<and> rs_inputCodec r = rs_outputCodec r \<and>
        rs_inputCodec r \<noteq> None \<and> rs_inputCodec r \<noteq> Some '''')"

section \<open>Lemmas\<close>

text \<open>The targets of a rule have no influence on where a packet goes.\<close>

lemma applyStrategy_targets: "applyStrategy s ts available r = applyStrategy s ts' available r"
  by (simp add: applyStrategy_def)

lemma poolGet_reset: "fst (poolGet pool) = zero_audio"
  by (cases pool) (simp_all add: poolGet_def zero_audio_def)

lemma poolPut_bound: "length pool \<le> 64 \<Longrightarrow> length (poolPut pkt pool) \<le> 64"
  by (simp add: poolPut_def split: option.splits)

lemma updateActive_ok: "relay_ok (updateActive r)"
  by (auto simp: relay_ok_def updateActive_def split: option.splits)

text \<open>The fast path is on exactly when it is wanted and both codecs are known and equal.\<close>

lemma relay_active_iff: "relay_ok (fold relayOp ops NewRelayState)"
proof (cases ops rule: rev_cases)
  case Nil
  then show ?thesis by (simp add: NewRelayState_def relay_ok_def)
next
  case (snoc xs x)
  then show ?thesis
    by (cases x) (simp_all add: updateActive_ok SetEnabled_def SetInputCodec_def SetOutputCodec_def)
qed

section \<open>Round robin\<close>

lemma sint_small: "0 \<le> sint w \<Longrightarrow> sint w + 1 < 2 ^ 63 \<Longrightarrow> sint (w + 1 :: u64) = sint w + 1"
  by (simp add: sint_word_ariths signed_take_bit_int_eq_self)

lemma Route_round_robin:
  assumes "\<forall>rule \<in> set (ro_rules r). \<not> rule_matches p rule" "ro_defaultStrategy r = StrategyRoundRobin"
    "available \<noteq> []" "0 \<le> sint (ro_roundRobinIndex r)" "sint (ro_roundRobinIndex r) + 1 < 2 ^ 63"
  shows "Route p available r =
     Some ([available ! (nat (sint (ro_roundRobinIndex r) + 1) mod length available)],
           r\<lparr>ro_roundRobinIndex := ro_roundRobinIndex r + 1\<rparr>)"
proof -
  have f: "find (rule_matches p) (ro_rules r) = None" using assms(1) by (simp add: find_None_iff)
  let ?i = "sint (ro_roundRobinIndex r) + 1"
  have "go_rem ?i (int (length available)) = ?i mod int (length available)" "0 \<le> ?i mod int (length available)"
    using assms(3,4) by (simp_all add: go_rem_def)
  moreover have "nat (?i mod int (length available)) = nat ?i mod length available"
    using assms(4) by (simp add: nat_mod_distrib)
  ultimately show ?thesis
    using assms by (simp add: Route_def f applyStrategy_def Let_def sint_small not_less)
qed

lemma routeAll_round_robin:
  assumes "\<forall>p \<in> set ps. \<forall>rule \<in> set (ro_rules r). \<not> rule_matches p rule" "ro_defaultStrategy r = StrategyRoundRobin"
    "available \<noteq> []" "0 \<le> sint (ro_roundRobinIndex r)" "sint (ro_roundRobinIndex r) + int (length ps) < 2 ^ 63"
  shows "\<exists>r'. routeAll ps available r =
     Some (map (\<lambda>k. [available ! ((nat (sint (ro_roundRobinIndex r)) + 1 + k) mod length available)]) [0..<length ps], r')"
  using assms
proof (induction ps arbitrary: r)
  case (Cons p ps)
  let ?r = "r\<lparr>ro_roundRobinIndex := ro_roundRobinIndex r + 1\<rparr>"
  have s: "sint (ro_roundRobinIndex r + 1) = sint (ro_roundRobinIndex r) + 1"
    using Cons.prems(4,5) by (intro sint_small) auto
  have "Route p available r = Some ([available ! (nat (sint (ro_roundRobinIndex r) + 1) mod length available)], ?r)"
    using Cons.prems by (intro Route_round_robin) auto
  moreover have "\<exists>r'. routeAll ps available ?r =
     Some (map (\<lambda>k. [available ! ((nat (sint (ro_roundRobinIndex ?r)) + 1 + k) mod length available)]) [0..<length ps], r')"
    using Cons.prems s by (intro Cons.IH) auto
  moreover have "nat (sint (ro_roundRobinIndex r) + 1) = nat (sint (ro_roundRobinIndex r)) + 1"
    using Cons.prems(4) by simp
  ultimately show ?case by (auto simp: s map_upt_Suc simp del: upt_Suc)
qed simp

lemma rotation_mset: "0 < n \<Longrightarrow> mset (map (\<lambda>k. (c + k) mod n) [0..<n]) = mset [0..<n]"
proof -
  assume n: "0 < n"
  let ?f = "\<lambda>k. (c + k) mod n"
  have inj: "inj_on ?f {0..<n}"
  proof (rule inj_onI)
    fix a b assume ab: "a \<in> {0..<n}" "b \<in> {0..<n}" "?f a = ?f b"
    then have "int n dvd int (c + a) - int (c + b)" by (metis mod_eq_dvd_iff zmod_int)
    then have d: "int n dvd int a - int b" "int n dvd int b - int a" by (simp_all add: dvd_diff_commute)
    have "\<not> (0 < int a - int b \<and> int a - int b < int n)" "\<not> (0 < int b - int a \<and> int b - int a < int n)"
      using zdvd_not_zless d by blast+
    then show "a = b" using ab(1,2) by (simp; linarith)
  qed
  moreover have "?f ` {0..<n} \<subseteq> {0..<n}" using n by auto
  ultimately have "?f ` {0..<n} = {0..<n}" by (intro endo_inj_surj) auto
  then show ?thesis
    using inj by (intro set_eq_iff_mset_eq_distinct [THEN iffD1]) (auto simp: distinct_map)
qed

section \<open>Properties\<close>

text \<open>
  C14. Round robin is fair: as long as the counter does not overflow, routing as many packets as
  there are connectors, all under the round-robin default, sends exactly one packet to each of
  them.
\<close>

theorem round_robin_fair:
  assumes "\<forall>p \<in> set ps. \<forall>rule \<in> set (ro_rules r). \<not> rule_matches p rule" "ro_defaultStrategy r = StrategyRoundRobin"
    "available \<noteq> []" "length ps = length available" "0 \<le> sint (ro_roundRobinIndex r)"
    "sint (ro_roundRobinIndex r) + int (length ps) < 2 ^ 63"
  shows "\<exists>tss r'. routeAll ps available r = Some (tss, r') \<and> mset (concat tss) = mset available"
proof -
  let ?c = "nat (sint (ro_roundRobinIndex r)) + 1" let ?n = "length available"
  have "concat (map (\<lambda>k. [available ! ((?c + k) mod ?n)]) ks) = map (\<lambda>k. available ! ((?c + k) mod ?n)) ks" for ks
    by (induction ks) auto
  moreover have "mset (map (\<lambda>k. available ! ((?c + k) mod ?n)) [0..<?n]) = mset available"
  proof -
    have "mset (map (\<lambda>k. available ! ((?c + k) mod ?n)) [0..<?n]) =
        image_mset ((!) available) (mset (map (\<lambda>k. (?c + k) mod ?n) [0..<?n]))"
      by (simp add: multiset.map_comp comp_def)
    also have "\<dots> = image_mset ((!) available) (mset [0..<?n])"
      using assms(3) by (subst rotation_mset) auto
    also have "\<dots> = mset (map ((!) available) [0..<?n])" by (simp only: mset_map)
    also have "map ((!) available) [0..<?n] = available" by (rule map_nth)
    finally show ?thesis .
  qed
  ultimately show ?thesis
    using routeAll_round_robin [OF assms(1-3,5,6)] assms(4) by auto
qed

theorem round_robin_fair_witness:
  "\<exists>tss r'. routeAll [10, 20, 30] [''x'', ''y'', ''z''] (NewRouter StrategyRoundRobin :: nat Router) = Some (tss, r') \<and>
     mset (concat tss) = mset [''x'', ''y'', ''z'']"
  by (rule round_robin_fair) (simp_all add: NewRouter_def)

end
