(* ===== verification/Processors.thy ===== *)
theory Processors
  imports MediaTypes "HOL-Library.Multiset"
begin

text \<open>
  The processor registry (\<open>pkg/media/processor.go\<close>). Processors act on a session state of any type
  and may report an error. The constructors of the source, \<open>FuncProcessor\<close> and \<open>PacketProcessor\<close>,
  both offer the direct packet path; \<open>CustomProcessor\<close> stands for an application's own processor
  that does not.
\<close>

section \<open>Processors\<close>

record MediaEvent =
  me_Type :: string
  me_SessionID :: string
  me_Payload :: "MediaPacket option"
  me_Sender :: "string option"

definition EventTypePacket :: string where "EventTypePacket = ''packet''"

record BaseProcessor =
  bp_name :: string
  bp_priority :: int
  bp_condition :: "(MediaEvent \<Rightarrow> bool) option"

definition NewBaseProcessor :: "string \<Rightarrow> int \<Rightarrow> BaseProcessor" where
  "NewBaseProcessor name priority = \<lparr>bp_name = name, bp_priority = priority, bp_condition = None\<rparr>"

definition WithCondition :: "(MediaEvent \<Rightarrow> bool) \<Rightarrow> BaseProcessor \<Rightarrow> BaseProcessor" where
  "WithCondition condition bp = bp\<lparr>bp_condition := Some condition\<rparr>"

definition baseCanHandle :: "BaseProcessor \<Rightarrow> MediaEvent \<Rightarrow> bool" where
  "baseCanHandle bp event = (case bp_condition bp of None \<Rightarrow> True | Some c \<Rightarrow> c event)"

type_synonym 's handler = "'s \<Rightarrow> MediaEvent \<Rightarrow> 's \<times> string option"

datatype 's Processor =
    FuncProcessor BaseProcessor "'s handler"
  | PacketProcessor BaseProcessor "'s \<Rightarrow> MediaPacket \<Rightarrow> 's \<times> string option"
  | CustomProcessor BaseProcessor "'s handler"

fun baseOf :: "'s Processor \<Rightarrow> BaseProcessor" where
  "baseOf (FuncProcessor bp f) = bp"
| "baseOf (PacketProcessor bp f) = bp"
| "baseOf (CustomProcessor bp f) = bp"

definition Name :: "'s Processor \<Rightarrow> string" where "Name p = bp_name (baseOf p)"
definition Priority :: "'s Processor \<Rightarrow> int" where "Priority p = bp_priority (baseOf p)"

fun CanHandle :: "'s Processor \<Rightarrow> MediaEvent \<Rightarrow> bool" where
  "CanHandle (PacketProcessor bp f) event =
     (if \<not> baseCanHandle bp event then False else me_Type event = EventTypePacket)"
| "CanHandle p event = baseCanHandle (baseOf p) event"

fun Process :: "'s Processor \<Rightarrow> 's \<Rightarrow> MediaEvent \<Rightarrow> 's \<times> string option" where
  "Process (FuncProcessor bp f) session event = f session event"
| "Process (CustomProcessor bp f) session event = f session event"
| "Process (PacketProcessor bp f) session event =
     (case me_Payload event of
        Some packet \<Rightarrow> f session packet
      | None \<Rightarrow> (session, Some ''event payload is not a MediaPacket''))"

fun isPacketSink :: "'s Processor \<Rightarrow> bool" where
  "isPacketSink (CustomProcessor bp f) = False"
| "isPacketSink _ = True"

definition packetEvent :: "string \<Rightarrow> string option \<Rightarrow> MediaPacket \<Rightarrow> MediaEvent" where
  "packetEvent sid sender packet =
     \<lparr>me_Type = EventTypePacket, me_SessionID = sid, me_Payload = Some packet, me_Sender = sender\<rparr>"

text \<open>The direct path; the session id is that of the session.\<close>

fun ProcessPacket ::
  "'s Processor \<Rightarrow> string \<Rightarrow> 's \<Rightarrow> string option \<Rightarrow> MediaPacket \<Rightarrow> 's \<times> string option" where
  "ProcessPacket (FuncProcessor bp f) sid session sender packet =
     (case bp_condition bp of
        Some c \<Rightarrow>
          if \<not> c \<lparr>me_Type = EventTypePacket, me_SessionID = [], me_Payload = None, me_Sender = None\<rparr>
          then (session, None) else f session (packetEvent sid sender packet)
      | None \<Rightarrow> f session (packetEvent sid sender packet))"
| "ProcessPacket (PacketProcessor bp f) sid session sender packet = f session packet"
| "ProcessPacket (CustomProcessor bp f) sid session sender packet = (session, None)"

section \<open>The registry\<close>

record 's ProcessorRegistry =
  pg_processors :: "'s Processor list"
  pg_packetSinks :: "'s Processor list option"

definition NewProcessorRegistry :: "'s ProcessorRegistry" where
  "NewProcessorRegistry = \<lparr>pg_processors = [], pg_packetSinks = None\<rparr>"

definition rebuildPacketSinks :: "'s ProcessorRegistry \<Rightarrow> 's ProcessorRegistry" where
  "rebuildPacketSinks pr = pr\<lparr>pg_packetSinks := Some (filter isPacketSink (pg_processors pr))\<rparr>"

fun insertByPriority :: "'s Processor \<Rightarrow> 's Processor list \<Rightarrow> 's Processor list" where
  "insertByPriority processor [] = [processor]"
| "insertByPriority processor (p # ps) =
     (if Priority processor > Priority p then processor # p # ps else p # insertByPriority processor ps)"

definition Register :: "'s Processor \<Rightarrow> 's ProcessorRegistry \<Rightarrow> 's ProcessorRegistry" where
  "Register processor pr =
     rebuildPacketSinks (pr\<lparr>pg_processors := insertByPriority processor (pg_processors pr)\<rparr>)"

fun removeByName :: "string \<Rightarrow> 's Processor list \<Rightarrow> 's Processor list" where
  "removeByName name [] = []"
| "removeByName name (p # ps) = (if Name p = name then ps else p # removeByName name ps)"

definition Unregister :: "string \<Rightarrow> 's ProcessorRegistry \<Rightarrow> 's ProcessorRegistry" where
  "Unregister name pr = rebuildPacketSinks (pr\<lparr>pg_processors := removeByName name (pg_processors pr)\<rparr>)"

definition GetPacketProcessors :: "'s ProcessorRegistry \<Rightarrow> 's Processor list" where
  "GetPacketProcessors pr = (case pg_packetSinks pr of Some p \<Rightarrow> p | None \<Rightarrow> [])"

definition GetProcessors :: "'s ProcessorRegistry \<Rightarrow> MediaEvent \<Rightarrow> 's Processor list" where
  "GetProcessors pr event = filter (\<lambda>p. CanHandle p event) (pg_processors pr)"

definition GetAllProcessors :: "'s ProcessorRegistry \<Rightarrow> 's Processor list" where
  "GetAllProcessors pr = pg_processors pr"

section \<open>Specification\<close>

datatype 's RegOp = OpRegister "'s Processor" | OpUnregister string

fun regOp :: "'s RegOp \<Rightarrow> 's ProcessorRegistry \<Rightarrow> 's ProcessorRegistry" where
  "regOp (OpRegister p) = Register p"
| "regOp (OpUnregister n) = Unregister n"

definition registry_ok :: "'s ProcessorRegistry \<Rightarrow> bool" where
  "registry_ok pr \<longleftrightarrow>
     sorted (map (\<lambda>p. - Priority p) (pg_processors pr)) \<and>
     GetPacketProcessors pr = filter isPacketSink (pg_processors pr)"

section \<open>Lemmas\<close>

lemma insertByPriority_mset [simp]: "mset (insertByPriority p ps) = add_mset p (mset ps)"
  by (induction ps) auto

lemma insertByPriority_set [simp]: "set (insertByPriority p ps) = insert p (set ps)"
  by (induction ps) auto

lemma insertByPriority_sorted:
  "sorted (map (\<lambda>p. - Priority p) ps) \<Longrightarrow> sorted (map (\<lambda>p. - Priority p) (insertByPriority p ps))"
  by (induction ps) auto

lemma insertByPriority_filter:
  "sorted (map (\<lambda>p. - Priority p) ps) \<Longrightarrow>
   filter (\<lambda>q. Priority q = k) (insertByPriority p ps) =
     filter (\<lambda>q. Priority q = k) ps @ (if Priority p = k then [p] else [])"
proof (induction ps)
  case (Cons q ps)
  show ?case
  proof (cases "Priority p > Priority q")
    case True
    with Cons.prems have "\<forall>x \<in> set (q # ps). Priority x < Priority p" by auto
    then have "filter (\<lambda>x. Priority x = Priority p) (q # ps) = []" by (auto simp: filter_empty_conv)
    with True show ?thesis by auto
  next
    case False
    with Cons show ?thesis by auto
  qed
qed simp

lemma removeByName_sorted:
  "sorted (map f ps) \<Longrightarrow> sorted (map f (removeByName n ps))" "set (removeByName n ps) \<subseteq> set ps"
  by (induction ps) auto

lemma GetPacketProcessors_rebuild:
  "GetPacketProcessors (rebuildPacketSinks pr) = filter isPacketSink (pg_processors pr)"
  "pg_processors (rebuildPacketSinks pr) = pg_processors pr"
  by (simp_all add: GetPacketProcessors_def rebuildPacketSinks_def)

lemma Register_processors: "pg_processors (Register p pr) = insertByPriority p (pg_processors pr)"
  by (simp add: Register_def GetPacketProcessors_rebuild)

lemma regOp_ok: "registry_ok pr \<Longrightarrow> registry_ok (regOp op pr)"
  by (cases op) (simp_all add: registry_ok_def Register_def Unregister_def GetPacketProcessors_rebuild
      insertByPriority_sorted removeByName_sorted)

lemma registers_sort:
  "pg_processors (fold Register ps NewProcessorRegistry) = sort_key (\<lambda>p. - Priority p) ps"
proof (induction ps rule: rev_induct)
  case Nil
  then show ?case by (simp add: NewProcessorRegistry_def)
next
  case (snoc p ps)
  let ?f = "\<lambda>p. - Priority p" let ?l = "sort_key (\<lambda>p. - Priority p) ps"
  have "pg_processors (fold Register (ps @ [p]) NewProcessorRegistry) = insertByPriority p ?l"
    using snoc by (simp add: Register_processors)
  also have "\<dots> = sort_key ?f (ps @ [p])"
  proof (rule properties_for_sort_key [symmetric])
    show "mset (insertByPriority p ?l) = mset (ps @ [p])" by simp
    show "sorted (map ?f (insertByPriority p ?l))" by (intro insertByPriority_sorted) simp
    fix k
    have "filter (\<lambda>x. ?f k = ?f x) (insertByPriority p ?l) = filter (\<lambda>x. Priority x = Priority k) (insertByPriority p ?l)"
      by (rule filter_cong) auto
    also have "\<dots> = filter (\<lambda>x. Priority x = Priority k) ?l @ (if Priority p = Priority k then [p] else [])"
      by (intro insertByPriority_filter) simp
    also have "filter (\<lambda>x. Priority x = Priority k) ?l = filter (\<lambda>x. Priority x = Priority k) ps"
      using sort_key_stable [of "\<lambda>p. - Priority p" "- Priority k" ps] by simp
    finally show "filter (\<lambda>x. ?f k = ?f x) (insertByPriority p ?l) = filter (\<lambda>x. ?f k = ?f x) (ps @ [p])"
      by (auto intro: filter_cong)
  qed
  finally show ?case .
qed

section \<open>Properties\<close>

text \<open>
  C13. Registration order. Registering processors one after the other leaves them in the order of a
  stable sort by descending priority: higher priorities first, and equal priorities in the order
  of registration. After any registrations and removals the list is in priority order and the
  lock-free snapshot of packet sinks is exactly its sub-list of sinks.
\<close>

theorem registry_order:
  "GetAllProcessors (fold Register ps NewProcessorRegistry) = sort_key (\<lambda>p. - Priority p) ps \<and>
   sorted (map (\<lambda>p. - Priority p) (GetAllProcessors (fold regOp ops NewProcessorRegistry))) \<and>
   GetPacketProcessors (fold regOp ops NewProcessorRegistry) =
     filter isPacketSink (GetAllProcessors (fold regOp ops NewProcessorRegistry))"
proof -
  have "registry_ok (fold regOp ops NewProcessorRegistry)"
    by (induction ops rule: rev_induct)
       (auto simp: regOp_ok, simp add: registry_ok_def NewProcessorRegistry_def GetPacketProcessors_def)
  then show ?thesis by (simp add: registry_ok_def GetAllProcessors_def registers_sort)
qed

text \<open>
  The direct path ignores the condition of a packet processor. A \<open>PacketProcessor\<close> whose
  condition rejects every event is not among the processors for any event, but it is in the
  snapshot of the direct path, and that path runs it on every packet.
\<close>

lemma packet_processor_condition:
  assumes "\<forall>e. \<not> c e"
  shows "let p = PacketProcessor (WithCondition c (NewBaseProcessor n prio)) f;
             pr = Register p NewProcessorRegistry in
         GetProcessors pr e = [] \<and> GetPacketProcessors pr = [p] \<and>
         ProcessPacket p sid session sender packet = f session packet"
  using assms
  by (simp add: Let_def Register_def GetPacketProcessors_rebuild NewProcessorRegistry_def GetProcessors_def
      baseCanHandle_def WithCondition_def)

end
