(* ===== verification/Pipeline.thy ===== *)
theory Pipeline
  imports ProtoTypes "HOL-Library.Multiset" "HOL-Library.Sublist"
begin

text \<open>
  The fan-out of one input stream to several outputs (\<open>pkg/protocol/pipeline/pipeline.go\<close>). Writers,
  the goroutine of each sink, the draining goroutine of a closed sink and the calls that remove
  sinks run concurrently, so each of them is a program counter with a step function that does one
  access to shared memory, and \<open>pipe_step\<close> lets any of them take its next step. \<open>Stuck\<close> is a step
  that has to wait, \<open>Panics\<close> a panic of the Go runtime. What a call of \<open>OutputSink\<close> returns is an
  argument of the step that makes it.
\<close>

section \<open>State\<close>

datatype 'a outcome = Stuck | Panics | Moved 'a

text \<open>Where a call of \<open>closeInternal\<close> is: before the instruction of that name, or at its end.\<close>

datatype close_pc = CCas | CDone | CDrain | CCh | CSink | CEnd

text \<open>The goroutine of a sink: in its \<open>select\<close>, or inside \<open>processFrame\<close>.\<close>

datatype loop_pc = LSelect | LTry MediaFrame nat | LWrote | LFailed | LClosing close_pc | LExit

record sinkWrapper =
  sw_ID :: string
  sw_Protocol :: string
  sw_cap :: nat
  sw_ch :: "MediaFrame list"
  sw_chClosed :: bool
  sw_done :: bool
  sw_closed :: bool
  sw_framesWritten :: u64
  sw_framesDropped :: u64
  sw_errors :: u64
  sw_loop :: loop_pc
  sw_drains :: nat

record StreamPipeline =
  pl_streamID :: string
  pl_sinks :: "string \<rightharpoonup> nat"
  pl_heap :: "sinkWrapper list"
  pl_locked :: bool
  pl_framesIn :: u64
  pl_framesDropped :: u64
  pl_bufSize :: int
  pl_closed :: bool

text \<open>What a step does to a sink: frames that enter and leave its channel, and calls of its methods.\<close>

datatype PipeLabel =
    Accepted nat MediaFrame
  | Refused nat MediaFrame
  | Took nat MediaFrame
  | Drained nat MediaFrame
  | CalledWrite nat MediaFrame bool
  | CalledClose nat

datatype pipe_error = SinkNil | SinkIDEmpty | PipelineClosed | ErrSinkAlreadyExists | ErrSinkNotFound
  | ErrPipelineNotFound

section \<open>A sink\<close>

definition newSinkWrapper :: "string \<Rightarrow> string \<Rightarrow> int \<Rightarrow> sinkWrapper" where
  "newSinkWrapper sid protocol bufSize =
     \<lparr>sw_ID = sid, sw_Protocol = protocol, sw_cap = nat (if bufSize \<le> 0 then 100 else bufSize), sw_ch = [],
      sw_chClosed = False, sw_done = False, sw_closed = False, sw_framesWritten = 0,
      sw_framesDropped = 0, sw_errors = 0, sw_loop = LSelect, sw_drains = 0\<rparr>"

text \<open>\<open>closeInternal\<close>: closing a channel twice panics.\<close>

fun closeInternal :: "nat \<Rightarrow> close_pc \<Rightarrow> sinkWrapper \<Rightarrow> (PipeLabel list \<times> close_pc \<times> sinkWrapper) outcome" where
  "closeInternal r CCas w =
     (if sw_closed w then Moved ([], CEnd, w) else Moved ([], CDone, w\<lparr>sw_closed := True\<rparr>))"
| "closeInternal r CDone w = (if sw_done w then Panics else Moved ([], CDrain, w\<lparr>sw_done := True\<rparr>))"
| "closeInternal r CDrain w = Moved ([], CCh, w\<lparr>sw_drains := sw_drains w + 1\<rparr>)"
| "closeInternal r CCh w = (if sw_chClosed w then Panics else Moved ([], CSink, w\<lparr>sw_chClosed := True\<rparr>))"
| "closeInternal r CSink w = Moved ([CalledClose r], CEnd, w)"
| "closeInternal r CEnd w = Stuck"

text \<open>The draining goroutine: \<open>for range w.ch\<close>.\<close>

definition drain_step :: "nat \<Rightarrow> sinkWrapper \<Rightarrow> (PipeLabel list \<times> sinkWrapper) outcome" where
  "drain_step r w =
     (if sw_drains w = 0 then Stuck
      else
        (case sw_ch w of
           f # q \<Rightarrow> Moved ([Drained r f], w\<lparr>sw_ch := q\<rparr>)
         | [] \<Rightarrow> if sw_chClosed w then Moved ([], w\<lparr>sw_drains := sw_drains w - 1\<rparr>) else Stuck))"

text \<open>
  The goroutine of a sink, \<open>loop\<close> with \<open>processFrame\<close>. \<open>pick\<close> is the case the \<open>select\<close> takes and \<open>ok\<close>
  what \<open>WriteFrame\<close> of the sink returns.
\<close>

definition loop_step :: "bool \<Rightarrow> bool \<Rightarrow> nat \<Rightarrow> sinkWrapper \<Rightarrow> (PipeLabel list \<times> sinkWrapper) outcome" where
  "loop_step pick ok r w =
     (case sw_loop w of
        LSelect \<Rightarrow>
          if pick then
            (case sw_ch w of
               f # q \<Rightarrow> Moved ([Took r f], w\<lparr>sw_ch := q, sw_loop := LTry f 0\<rparr>)
             | [] \<Rightarrow> if sw_chClosed w then Moved ([], w\<lparr>sw_loop := LExit\<rparr>) else Stuck)
          else if sw_done w then Moved ([], w\<lparr>sw_loop := LExit\<rparr>) else Stuck
      | LTry f attempt \<Rightarrow>
          Moved ([CalledWrite r f ok],
            w\<lparr>sw_loop := (if ok then LWrote else if attempt + 1 < 3 then LTry f (attempt + 1) else LFailed)\<rparr>)
      | LWrote \<Rightarrow> Moved ([], w\<lparr>sw_framesWritten := sw_framesWritten w + 1, sw_loop := LSelect\<rparr>)
      | LFailed \<Rightarrow> Moved ([], w\<lparr>sw_errors := sw_errors w + 1, sw_loop := LClosing CCas\<rparr>)
      | LClosing c \<Rightarrow>
          (case closeInternal r c w of
             Stuck \<Rightarrow> Moved ([], w\<lparr>sw_loop := LSelect\<rparr>)
           | Panics \<Rightarrow> Panics
           | Moved (ls, c', w') \<Rightarrow> Moved (ls, w'\<lparr>sw_loop := LClosing c'\<rparr>))
      | LExit \<Rightarrow> Stuck)"

section \<open>Calls on a stream pipeline\<close>

definition newStreamPipeline :: "string \<Rightarrow> int \<Rightarrow> StreamPipeline" where
  "newStreamPipeline streamID bufSize =
     \<lparr>pl_streamID = streamID, pl_sinks = Map.empty, pl_heap = [], pl_locked = False, pl_framesIn = 0,
      pl_framesDropped = 0, pl_bufSize = bufSize, pl_closed = False\<rparr>"

text \<open>\<open>AddSink\<close> holds the lock from its first to its last access to shared memory.\<close>

definition AddSink :: "(string \<times> string) option \<Rightarrow> StreamPipeline \<Rightarrow> pipe_error option \<times> StreamPipeline" where
  "AddSink sink p =
     (case sink of
        None \<Rightarrow> (Some SinkNil, p)
      | Some (sid, protocol) \<Rightarrow>
          if sid = '''' then (Some SinkIDEmpty, p)
          else if pl_closed p then (Some PipelineClosed, p)
          else if pl_sinks p sid \<noteq> None then (Some ErrSinkAlreadyExists, p)
          else
            (None, p\<lparr>pl_sinks := (pl_sinks p)(sid \<mapsto> length (pl_heap p)),
                     pl_heap := pl_heap p @ [newSinkWrapper sid protocol (pl_bufSize p)]\<rparr>))"

text \<open>
  \<open>WriteFrame\<close>: at \<open>WNext\<close> the loop is about to call \<open>tryWrite\<close> for the next sink, at \<open>WSend\<close> this call
  has found the sink open and is about to send, at \<open>WFull\<close> to count the frame as dropped. \<open>ord\<close> is
  the order in which the map of sinks is ranged over.
\<close>

datatype write_pc =
    WStart | WCount | WSnap | WNext "nat list" u64 | WSend nat "nat list" u64 | WFull nat "nat list" u64 | WEnd

fun WriteFrame ::
  "nat list \<Rightarrow> MediaFrame \<Rightarrow> write_pc \<Rightarrow> StreamPipeline \<Rightarrow> (PipeLabel list \<times> write_pc \<times> StreamPipeline) outcome" where
  "WriteFrame ord frame WStart p = Moved ([], if pl_closed p then WEnd else WCount, p)"
| "WriteFrame ord frame WCount p = Moved ([], WSnap, p\<lparr>pl_framesIn := pl_framesIn p + 1\<rparr>)"
| "WriteFrame ord frame WSnap p = (if pl_locked p then Stuck else Moved ([], WNext ord 0, p))"
| "WriteFrame ord frame (WNext [] dropped) p =
     Moved ([], WEnd, if dropped > 0 then p\<lparr>pl_framesDropped := pl_framesDropped p + dropped\<rparr> else p)"
| "WriteFrame ord frame (WNext (r # rs) dropped) p =
     (if sw_closed (pl_heap p ! r) then Moved ([Refused r frame], WNext rs (dropped + 1), p)
      else Moved ([], WSend r rs dropped, p))"
| "WriteFrame ord frame (WSend r rs dropped) p =
     (let w = pl_heap p ! r in
      if sw_chClosed w then Panics
      else if length (sw_ch w) < sw_cap w then
        Moved ([Accepted r frame], WNext rs dropped,
          p\<lparr>pl_heap := (pl_heap p)[r := w\<lparr>sw_ch := sw_ch w @ [frame]\<rparr>]\<rparr>)
      else Moved ([], WFull r rs dropped, p))"
| "WriteFrame ord frame (WFull r rs dropped) p =
     (let w = pl_heap p ! r in
      Moved ([Refused r frame], WNext rs (dropped + 1),
        p\<lparr>pl_heap := (pl_heap p)[r := w\<lparr>sw_framesDropped := sw_framesDropped w + 1\<rparr>]\<rparr>))"
| "WriteFrame ord frame WEnd p = Stuck"

text \<open>\<open>closeInternal\<close> of the sink \<open>r\<close> as part of a call on the pipeline.\<close>

definition closeSink ::
  "nat \<Rightarrow> close_pc \<Rightarrow> StreamPipeline \<Rightarrow> (PipeLabel list \<times> close_pc \<times> StreamPipeline) outcome" where
  "closeSink r c p =
     (case closeInternal r c (pl_heap p ! r) of
        Stuck \<Rightarrow> Stuck
      | Panics \<Rightarrow> Panics
      | Moved (ls, c', w) \<Rightarrow> Moved (ls, c', p\<lparr>pl_heap := (pl_heap p)[r := w]\<rparr>))"

text \<open>\<open>RemoveSink\<close> holds the lock while it closes the sink.\<close>

datatype remove_pc = RmStart | RmClosing nat close_pc | RmEnd "pipe_error option"

fun RemoveSink ::
  "string \<Rightarrow> remove_pc \<Rightarrow> StreamPipeline \<Rightarrow> (PipeLabel list \<times> remove_pc \<times> StreamPipeline) outcome" where
  "RemoveSink sinkID RmStart p =
     (if pl_locked p then Stuck
      else
        (case pl_sinks p sinkID of
           None \<Rightarrow> Moved ([], RmEnd (Some ErrSinkNotFound), p)
         | Some r \<Rightarrow> Moved ([], RmClosing r CCas, p\<lparr>pl_sinks := (pl_sinks p)(sinkID := None), pl_locked := True\<rparr>)))"
| "RemoveSink sinkID (RmClosing r c) p =
     (case closeSink r c p of
        Stuck \<Rightarrow> Moved ([], RmEnd None, p\<lparr>pl_locked := False\<rparr>)
      | Panics \<Rightarrow> Panics
      | Moved (ls, c', p') \<Rightarrow> Moved (ls, RmClosing r c', p'))"
| "RemoveSink sinkID (RmEnd e) p = Stuck"

text \<open>\<open>Close\<close> marks the pipeline as closed, then closes every sink with the lock held.\<close>

datatype stop_pc = StStart | StLock | StNext "nat list" | StClosing nat close_pc "nat list" | StEnd

fun ClosePipeline ::
  "nat list \<Rightarrow> stop_pc \<Rightarrow> StreamPipeline \<Rightarrow> (PipeLabel list \<times> stop_pc \<times> StreamPipeline) outcome" where
  "ClosePipeline ord StStart p =
     (if pl_closed p then Moved ([], StEnd, p) else Moved ([], StLock, p\<lparr>pl_closed := True\<rparr>))"
| "ClosePipeline ord StLock p = (if pl_locked p then Stuck else Moved ([], StNext ord, p\<lparr>pl_locked := True\<rparr>))"
| "ClosePipeline ord (StNext []) p = Moved ([], StEnd, p\<lparr>pl_sinks := Map.empty, pl_locked := False\<rparr>)"
| "ClosePipeline ord (StNext (r # rs)) p = Moved ([], StClosing r CCas rs, p)"
| "ClosePipeline ord (StClosing r c rs) p =
     (case closeSink r c p of
        Stuck \<Rightarrow> Moved ([], StNext rs, p)
      | Panics \<Rightarrow> Panics
      | Moved (ls, c', p') \<Rightarrow> Moved (ls, StClosing r c' rs, p'))"
| "ClosePipeline ord StEnd p = Stuck"

record SinkStats =
  st_ID :: string
  st_Protocol :: string
  st_FramesWritten :: u64
  st_FramesDropped :: u64
  st_Errors :: u64
  st_Active :: bool

definition sinkStats :: "sinkWrapper \<Rightarrow> SinkStats" where
  "sinkStats w =
     \<lparr>st_ID = sw_ID w, st_Protocol = sw_Protocol w, st_FramesWritten = sw_framesWritten w,
      st_FramesDropped = sw_framesDropped w, st_Errors = sw_errors w, st_Active = (\<not> sw_closed w)\<rparr>"

record PipelineStats =
  ps_StreamID :: string
  ps_SinkCount :: nat
  ps_FramesIn :: u64
  ps_FramesDropped :: u64
  ps_Sinks :: "SinkStats list"

text \<open>\<open>Stats\<close> and \<open>Sinks\<close>; \<open>ord\<close> is the order in which the map is ranged over.\<close>

definition pipelineStats :: "nat list \<Rightarrow> StreamPipeline \<Rightarrow> PipelineStats" where
  "pipelineStats ord p =
     \<lparr>ps_StreamID = pl_streamID p, ps_SinkCount = length ord, ps_FramesIn = pl_framesIn p,
      ps_FramesDropped = pl_framesDropped p, ps_Sinks = map (\<lambda>r. sinkStats (pl_heap p ! r)) ord\<rparr>"

definition Sinks :: "nat list \<Rightarrow> StreamPipeline \<Rightarrow> (string \<times> string) list" where
  "Sinks ord p = map (\<lambda>r. (sw_ID (pl_heap p ! r), sw_Protocol (pl_heap p ! r))) ord"

section \<open>Pipelines by stream\<close>

record PipelineManager =
  pm_pipelines :: "string \<rightharpoonup> nat"
  pm_heap :: "StreamPipeline list"
  pm_bufSize :: int

definition NewPipelineManager :: "int \<Rightarrow> PipelineManager" where
  "NewPipelineManager bufSize =
     \<lparr>pm_pipelines = Map.empty, pm_heap = [], pm_bufSize = (if bufSize \<le> 0 then 100 else bufSize)\<rparr>"

definition CreatePipeline :: "string \<Rightarrow> PipelineManager \<Rightarrow> nat \<times> PipelineManager" where
  "CreatePipeline streamID m =
     (case pm_pipelines m streamID of
        Some p \<Rightarrow> (p, m)
      | None \<Rightarrow>
          (length (pm_heap m),
           m\<lparr>pm_pipelines := (pm_pipelines m)(streamID \<mapsto> length (pm_heap m)),
             pm_heap := pm_heap m @ [newStreamPipeline streamID (pm_bufSize m)]\<rparr>))"

definition GetPipeline :: "string \<Rightarrow> PipelineManager \<Rightarrow> nat option" where
  "GetPipeline streamID m = pm_pipelines m streamID"

text \<open>The pipeline that \<open>WriteFrame\<close>, \<open>AddSink\<close> and \<open>RemoveSink\<close> of the manager are called on.\<close>

definition targetPipeline :: "string \<Rightarrow> PipelineManager \<Rightarrow> pipe_error + nat" where
  "targetPipeline streamID m =
     (case GetPipeline streamID m of None \<Rightarrow> Inl ErrPipelineNotFound | Some p \<Rightarrow> Inr p)"

text \<open>\<open>DestroyPipeline\<close> removes the stream and returns the pipeline that it then closes.\<close>

definition DestroyPipeline :: "string \<Rightarrow> PipelineManager \<Rightarrow> nat option \<times> PipelineManager" where
  "DestroyPipeline streamID m =
     (case pm_pipelines m streamID of
        None \<Rightarrow> (None, m)
      | Some p \<Rightarrow> (Some p, m\<lparr>pm_pipelines := (pm_pipelines m)(streamID := None)\<rparr>))"

definition manager_ok :: "PipelineManager \<Rightarrow> bool" where
  "manager_ok m \<longleftrightarrow>
     (\<forall>sid p. pm_pipelines m sid = Some p \<longrightarrow> p < length (pm_heap m) \<and> pl_streamID (pm_heap m ! p) = sid)"

section \<open>Interleavings\<close>

text \<open>The calls that are under way, each with its program counter.\<close>

datatype Thread =
    TWrite MediaFrame write_pc
  | TRemove string remove_pc
  | TClose stop_pc

fun thread_step :: "nat list \<Rightarrow> Thread \<Rightarrow> StreamPipeline \<Rightarrow> (PipeLabel list \<times> Thread \<times> StreamPipeline) outcome" where
  "thread_step ord (TWrite f c) p =
     (case WriteFrame ord f c p of
        Stuck \<Rightarrow> Stuck | Panics \<Rightarrow> Panics | Moved (ls, c', p') \<Rightarrow> Moved (ls, TWrite f c', p'))"
| "thread_step ord (TRemove sid c) p =
     (case RemoveSink sid c p of
        Stuck \<Rightarrow> Stuck | Panics \<Rightarrow> Panics | Moved (ls, c', p') \<Rightarrow> Moved (ls, TRemove sid c', p'))"
| "thread_step ord (TClose c) p =
     (case ClosePipeline ord c p of
        Stuck \<Rightarrow> Stuck | Panics \<Rightarrow> Panics | Moved (ls, c', p') \<Rightarrow> Moved (ls, TClose c', p'))"

record System =
  sy_pipe :: StreamPipeline
  sy_threads :: "Thread list"

definition range_of :: "StreamPipeline \<Rightarrow> nat list \<Rightarrow> bool" where
  "range_of p ord \<longleftrightarrow> distinct ord \<and> set ord = ran (pl_sinks p)"

definition put_sink :: "nat \<Rightarrow> sinkWrapper \<Rightarrow> System \<Rightarrow> System" where
  "put_sink r w s = s\<lparr>sy_pipe := (sy_pipe s)\<lparr>pl_heap := (pl_heap (sy_pipe s))[r := w]\<rparr>\<rparr>"

inductive pipe_step :: "System \<Rightarrow> PipeLabel list \<Rightarrow> System \<Rightarrow> bool" where
  call: "t \<in> {TWrite f WStart, TRemove sid RmStart, TClose StStart} \<Longrightarrow>
    pipe_step s [] (s\<lparr>sy_threads := sy_threads s @ [t]\<rparr>)"
| add: "\<not> pl_locked (sy_pipe s) \<Longrightarrow> pipe_step s [] (s\<lparr>sy_pipe := snd (AddSink sink (sy_pipe s))\<rparr>)"
| thread: "i < length (sy_threads s) \<Longrightarrow> range_of (sy_pipe s) ord \<Longrightarrow>
    thread_step ord (sy_threads s ! i) (sy_pipe s) = Moved (ls, t, p) \<Longrightarrow>
    pipe_step s ls (s\<lparr>sy_pipe := p, sy_threads := (sy_threads s)[i := t]\<rparr>)"
| loop: "r < length (pl_heap (sy_pipe s)) \<Longrightarrow> loop_step pick ok r (pl_heap (sy_pipe s) ! r) = Moved (ls, w) \<Longrightarrow>
    pipe_step s ls (put_sink r w s)"
| drain: "r < length (pl_heap (sy_pipe s)) \<Longrightarrow> drain_step r (pl_heap (sy_pipe s) ! r) = Moved (ls, w) \<Longrightarrow>
    pipe_step s ls (put_sink r w s)"

inductive pipe_reach :: "System \<Rightarrow> PipeLabel list \<Rightarrow> bool" where
  start: "pipe_reach \<lparr>sy_pipe = newStreamPipeline streamID bufSize, sy_threads = []\<rparr> []"
| step: "pipe_reach s tr \<Longrightarrow> pipe_step s ls s' \<Longrightarrow> pipe_reach s' (tr @ ls)"

definition pipe_panics :: "System \<Rightarrow> bool" where
  "pipe_panics s \<longleftrightarrow>
     (\<exists>ord t. t \<in> set (sy_threads s) \<and> range_of (sy_pipe s) ord \<and> thread_step ord t (sy_pipe s) = Panics) \<or>
     (\<exists>pick ok r. r < length (pl_heap (sy_pipe s)) \<and> loop_step pick ok r (pl_heap (sy_pipe s) ! r) = Panics)"

text \<open>A schedule: calls, and whose turn it is.\<close>

datatype Turn =
    Call Thread | Add "(string \<times> string) option" | Run "nat list" nat | Loop bool bool nat | Drain nat

fun turn :: "Turn \<Rightarrow> System \<times> PipeLabel list \<Rightarrow> (System \<times> PipeLabel list) option" where
  "turn (Call t) (s, tr) =
     (case t of
        TWrite f WStart \<Rightarrow> Some (s\<lparr>sy_threads := sy_threads s @ [t]\<rparr>, tr)
      | TRemove sid RmStart \<Rightarrow> Some (s\<lparr>sy_threads := sy_threads s @ [t]\<rparr>, tr)
      | TClose StStart \<Rightarrow> Some (s\<lparr>sy_threads := sy_threads s @ [t]\<rparr>, tr)
      | _ \<Rightarrow> None)"
| "turn (Add sink) (s, tr) =
     (if pl_locked (sy_pipe s) then None else Some (s\<lparr>sy_pipe := snd (AddSink sink (sy_pipe s))\<rparr>, tr))"
| "turn (Run ord i) (s, tr) =
     (if i < length (sy_threads s) \<and> range_of (sy_pipe s) ord then
        (case thread_step ord (sy_threads s ! i) (sy_pipe s) of
           Moved (ls, t, p) \<Rightarrow> Some (s\<lparr>sy_pipe := p, sy_threads := (sy_threads s)[i := t]\<rparr>, tr @ ls)
         | _ \<Rightarrow> None)
      else None)"
| "turn (Loop pick ok r) (s, tr) =
     (if r < length (pl_heap (sy_pipe s)) then
        (case loop_step pick ok r (pl_heap (sy_pipe s) ! r) of
           Moved (ls, w) \<Rightarrow> Some (put_sink r w s, tr @ ls)
         | _ \<Rightarrow> None)
      else None)"
| "turn (Drain r) (s, tr) =
     (if r < length (pl_heap (sy_pipe s)) then
        (case drain_step r (pl_heap (sy_pipe s) ! r) of
           Moved (ls, w) \<Rightarrow> Some (put_sink r w s, tr @ ls)
         | _ \<Rightarrow> None)
      else None)"

fun turns :: "Turn list \<Rightarrow> System \<times> PipeLabel list \<Rightarrow> (System \<times> PipeLabel list) option" where
  "turns [] x = Some x"
| "turns (a # as) x = Option.bind (turn a x) (turns as)"

definition empty_system :: System where
  "empty_system = \<lparr>sy_pipe = newStreamPipeline ''live'' 1, sy_threads = []\<rparr>"

section \<open>What a run does to a sink\<close>

fun accepted_of :: "nat \<Rightarrow> PipeLabel \<Rightarrow> MediaFrame list" where
  "accepted_of r (Accepted r' f) = (if r' = r then [f] else [])"
| "accepted_of r _ = []"

fun taken_of :: "nat \<Rightarrow> PipeLabel \<Rightarrow> MediaFrame list" where
  "taken_of r (Took r' f) = (if r' = r then [f] else [])"
| "taken_of r _ = []"

fun left_of :: "nat \<Rightarrow> PipeLabel \<Rightarrow> MediaFrame list" where
  "left_of r (Took r' f) = (if r' = r then [f] else [])"
| "left_of r (Drained r' f) = (if r' = r then [f] else [])"
| "left_of r _ = []"

fun written_of :: "nat \<Rightarrow> PipeLabel \<Rightarrow> MediaFrame list" where
  "written_of r (CalledWrite r' f ok) = (if r' = r \<and> ok then [f] else [])"
| "written_of r _ = []"

abbreviation accepted :: "nat \<Rightarrow> PipeLabel list \<Rightarrow> MediaFrame list" where
  "accepted r tr \<equiv> concat (map (accepted_of r) tr)"

abbreviation taken :: "nat \<Rightarrow> PipeLabel list \<Rightarrow> MediaFrame list" where
  "taken r tr \<equiv> concat (map (taken_of r) tr)"

abbreviation left :: "nat \<Rightarrow> PipeLabel list \<Rightarrow> MediaFrame list" where
  "left r tr \<equiv> concat (map (left_of r) tr)"

abbreviation written :: "nat \<Rightarrow> PipeLabel list \<Rightarrow> MediaFrame list" where
  "written r tr \<equiv> concat (map (written_of r) tr)"

abbreviation closes :: "nat \<Rightarrow> PipeLabel list \<Rightarrow> nat" where
  "closes r tr \<equiv> count_list tr (CalledClose r)"

text \<open>The calls of \<open>closeInternal\<close> that have won the exchange of the flag and not yet ended.\<close>

definition closing :: "close_pc \<Rightarrow> close_pc multiset" where
  "closing c = (if c = CCas \<or> c = CEnd then {#} else {#c#})"

fun thread_closing :: "nat \<Rightarrow> Thread \<Rightarrow> close_pc multiset" where
  "thread_closing r (TRemove sid (RmClosing r' c)) = (if r' = r then closing c else {#})"
| "thread_closing r (TClose (StClosing r' c rs)) = (if r' = r then closing c else {#})"
| "thread_closing r _ = {#}"

fun loop_closing :: "loop_pc \<Rightarrow> close_pc multiset" where
  "loop_closing (LClosing c) = closing c"
| "loop_closing _ = {#}"

definition close_inv :: "sinkWrapper \<Rightarrow> close_pc multiset \<Rightarrow> nat \<Rightarrow> bool" where
  "close_inv w cs n \<longleftrightarrow>
     (if sw_closed w then
        (\<exists>c. cs = {#c#} \<and> c \<noteq> CCas \<and> c \<noteq> CEnd \<and> n = 0 \<and> sw_done w = (c \<noteq> CDone) \<and> sw_chClosed w = (c = CSink)) \<or>
        cs = {#} \<and> n = 1 \<and> sw_done w \<and> sw_chClosed w
      else cs = {#} \<and> n = 0 \<and> \<not> sw_done w \<and> \<not> sw_chClosed w)"

text \<open>The frames the goroutine of a sink took are written in this order, but for those that failed.\<close>

definition write_inv :: "loop_pc \<Rightarrow> MediaFrame list \<Rightarrow> MediaFrame list \<Rightarrow> bool" where
  "write_inv l ts ws \<longleftrightarrow>
     (case l of LTry f n \<Rightarrow> \<exists>xs. ts = xs @ [f] \<and> subseq ws xs | _ \<Rightarrow> subseq ws ts)"

definition sink_inv :: "nat \<Rightarrow> PipeLabel list \<Rightarrow> sinkWrapper \<Rightarrow> bool" where
  "sink_inv r tr w \<longleftrightarrow>
     accepted r tr = left r tr @ sw_ch w \<and> length (sw_ch w) \<le> sw_cap w \<and>
     write_inv (sw_loop w) (taken r tr) (written r tr) \<and>
     sw_framesWritten w + (if sw_loop w = LWrote then 1 else 0) = of_nat (length (written r tr))"

definition thread_sum :: "nat \<Rightarrow> Thread list \<Rightarrow> close_pc multiset" where
  "thread_sum r ts = sum_mset (image_mset (thread_closing r) (mset ts))"

fun thread_refs :: "Thread \<Rightarrow> nat set" where
  "thread_refs (TWrite f (WNext rs d)) = set rs"
| "thread_refs (TWrite f (WSend r rs d)) = insert r (set rs)"
| "thread_refs (TWrite f (WFull r rs d)) = insert r (set rs)"
| "thread_refs (TRemove sid (RmClosing r c)) = {r}"
| "thread_refs (TClose (StNext rs)) = set rs"
| "thread_refs (TClose (StClosing r c rs)) = insert r (set rs)"
| "thread_refs _ = {}"

fun label_ref :: "PipeLabel \<Rightarrow> nat" where
  "label_ref (Accepted r f) = r"
| "label_ref (Refused r f) = r"
| "label_ref (Took r f) = r"
| "label_ref (Drained r f) = r"
| "label_ref (CalledWrite r f ok) = r"
| "label_ref (CalledClose r) = r"

definition refs_inv :: "System \<Rightarrow> PipeLabel list \<Rightarrow> bool" where
  "refs_inv s tr \<longleftrightarrow>
     (let n = length (pl_heap (sy_pipe s)) in
      ran (pl_sinks (sy_pipe s)) \<subseteq> {..<n} \<and> (\<forall>t \<in> set (sy_threads s). thread_refs t \<subseteq> {..<n}) \<and>
      label_ref ` set tr \<subseteq> {..<n})"

definition pipe_inv :: "System \<Rightarrow> PipeLabel list \<Rightarrow> bool" where
  "pipe_inv s tr \<longleftrightarrow> refs_inv s tr \<and>
     (\<forall>r < length (pl_heap (sy_pipe s)).
        sink_inv r tr (pl_heap (sy_pipe s) ! r) \<and>
        close_inv (pl_heap (sy_pipe s) ! r)
          (thread_sum r (sy_threads s) + loop_closing (sw_loop (pl_heap (sy_pipe s) ! r))) (closes r tr))"

section \<open>The manager\<close>

lemma manager_keeps:
  "manager_ok (NewPipelineManager b)"
  "manager_ok m \<Longrightarrow> manager_ok (snd (CreatePipeline sid m))"
  "manager_ok m \<Longrightarrow> manager_ok (snd (DestroyPipeline sid m))"
  by (auto simp: manager_ok_def NewPipelineManager_def CreatePipeline_def DestroyPipeline_def newStreamPipeline_def
      nth_append less_Suc_eq split: option.splits if_splits)

text \<open>Two streams never share a pipeline, and a destroyed stream has none.\<close>

lemma manager_distinct:
  "manager_ok m \<Longrightarrow> GetPipeline a m = Some p \<Longrightarrow> GetPipeline b m = Some p \<Longrightarrow> a = b"
  by (auto simp: manager_ok_def GetPipeline_def)

lemma manager_create_destroy:
  "GetPipeline sid (snd (CreatePipeline sid m)) = Some (fst (CreatePipeline sid m))"
  "targetPipeline sid (snd (DestroyPipeline sid m)) = Inl ErrPipelineNotFound"
  by (auto simp: GetPipeline_def CreatePipeline_def DestroyPipeline_def targetPipeline_def split: option.splits)

section \<open>Closing\<close>

lemma close_inv_fields [simp]:
  "close_inv (w\<lparr>sw_ch := q\<rparr>) cs n = close_inv w cs n" "close_inv (w\<lparr>sw_loop := l\<rparr>) cs n = close_inv w cs n"
  "close_inv (w\<lparr>sw_framesDropped := x\<rparr>) cs n = close_inv w cs n"
  "close_inv (w\<lparr>sw_framesWritten := x\<rparr>) cs n = close_inv w cs n"
  "close_inv (w\<lparr>sw_errors := x\<rparr>) cs n = close_inv w cs n" "close_inv (w\<lparr>sw_drains := k\<rparr>) cs n = close_inv w cs n"
  by (simp_all add: close_inv_def)

lemma closeInternal_inv:
  assumes "close_inv w (M + closing c) n"
  shows "closeInternal r c w \<noteq> Panics"
    "closeInternal r c w = Moved (ls, c', w') \<Longrightarrow>
       close_inv w' (M + closing c') (n + closes r ls) \<and> sw_ch w' = sw_ch w \<and> sw_cap w' = sw_cap w \<and>
       sw_loop w' = sw_loop w \<and> sw_framesWritten w' = sw_framesWritten w \<and> set ls \<subseteq> {CalledClose r}"
    "closeInternal r c w = Stuck \<longleftrightarrow> c = CEnd"
  using assms by (cases c; auto simp: close_inv_def closing_def split: if_splits)+

section \<open>One step keeps the invariant\<close>

definition quiet :: "nat \<Rightarrow> PipeLabel list \<Rightarrow> bool" where
  "quiet r ls \<longleftrightarrow> accepted r ls = [] \<and> taken r ls = [] \<and> left r ls = [] \<and> written r ls = [] \<and> closes r ls = 0"

lemma quiet_other: "r \<notin> label_ref ` set ls \<Longrightarrow> quiet r ls"
proof (induction ls)
  case (Cons l ls)
  then show ?case by (cases l) (auto simp: quiet_def)
qed (simp add: quiet_def)

lemma quiet_sink: "quiet r ls \<Longrightarrow> sink_inv r (tr @ ls) w \<longleftrightarrow> sink_inv r tr w"
  by (simp only: quiet_def sink_inv_def map_append concat_append append_Nil2)

lemma quiet_closed: "set ls \<subseteq> {CalledClose r} \<Longrightarrow>
    accepted r' ls = [] \<and> taken r' ls = [] \<and> left r' ls = [] \<and> written r' ls = [] \<and> label_ref ` set ls \<subseteq> {r}"
  by (induction ls) auto

lemma thread_sum_update:
  assumes "i < length ts"
  shows "\<exists>M. thread_sum r ts = M + thread_closing r (ts ! i) \<and> (\<forall>t. thread_sum r (ts[i := t]) = M + thread_closing r t)"
proof -
  have "mset ts = mset (take i ts @ drop (Suc i) ts) + {#ts ! i#}"
    by (subst id_take_nth_drop [OF assms]) simp
  moreover have "mset (ts[i := t]) = mset (take i ts @ drop (Suc i) ts) + {#t#}" for t
    by (subst upd_conv_take_nth_drop [OF assms]) simp
  ultimately show ?thesis
    unfolding thread_sum_def by (intro exI [of _ "\<Sum>t\<in>#mset (take i ts @ drop (Suc i) ts). thread_closing r t"]) simp
qed

text \<open>
  What a step has to show: references stay in bounds, and a sink is either left alone or keeps its
  own invariant.
\<close>

lemma pipe_inv_step:
  assumes inv: "pipe_inv s tr"
    and len: "length (pl_heap p) = length (pl_heap (sy_pipe s))" and sinks: "ran (pl_sinks p) \<subseteq> ran (pl_sinks (sy_pipe s))"
    and refs: "\<And>t. t \<in> set ts \<Longrightarrow> t \<in> set (sy_threads s) \<or> thread_refs t \<subseteq> {..<length (pl_heap (sy_pipe s))}"
    and labels: "label_ref ` set ls \<subseteq> {..<length (pl_heap (sy_pipe s))}"
    and each: "\<And>r. r < length (pl_heap (sy_pipe s)) \<Longrightarrow>
      pl_heap p ! r = pl_heap (sy_pipe s) ! r \<and> thread_sum r ts = thread_sum r (sy_threads s) \<and> quiet r ls \<or>
      sink_inv r (tr @ ls) (pl_heap p ! r) \<and>
      close_inv (pl_heap p ! r) (thread_sum r ts + loop_closing (sw_loop (pl_heap p ! r))) (closes r tr + closes r ls)"
  shows "pipe_inv (s\<lparr>sy_pipe := p, sy_threads := ts\<rparr>) (tr @ ls)"
proof -
  have "refs_inv (s\<lparr>sy_pipe := p, sy_threads := ts\<rparr>) (tr @ ls)"
    using inv sinks refs labels len unfolding pipe_inv_def refs_inv_def Let_def by (fastforce simp: image_Un)
  moreover have "sink_inv r (tr @ ls) (pl_heap p ! r) \<and>
      close_inv (pl_heap p ! r) (thread_sum r ts + loop_closing (sw_loop (pl_heap p ! r))) (closes r (tr @ ls))"
    if r: "r < length (pl_heap p)" for r
  proof -
    have "sink_inv r tr (pl_heap (sy_pipe s) ! r)" "close_inv (pl_heap (sy_pipe s) ! r)
        (thread_sum r (sy_threads s) + loop_closing (sw_loop (pl_heap (sy_pipe s) ! r))) (closes r tr)"
      using inv r len by (simp_all add: pipe_inv_def)
    then show ?thesis using each [of r] r len by (auto simp: quiet_sink) (simp add: quiet_def)
  qed
  ultimately show ?thesis by (simp add: pipe_inv_def)
qed

text \<open>A step of a call that leaves the sinks alone.\<close>

lemma pipe_inv_idle:
  assumes "pipe_inv s tr" "i < length (sy_threads s)" "pl_heap p = pl_heap (sy_pipe s)"
    "ran (pl_sinks p) \<subseteq> ran (pl_sinks (sy_pipe s))"
    "thread_refs t \<subseteq> {..<length (pl_heap (sy_pipe s))}" "label_ref ` set ls \<subseteq> {..<length (pl_heap (sy_pipe s))}"
    "\<And>r. quiet r ls" "\<And>r. thread_closing r t = thread_closing r (sy_threads s ! i)"
  shows "pipe_inv (s\<lparr>sy_pipe := p, sy_threads := (sy_threads s)[i := t]\<rparr>) (tr @ ls)"
proof (rule pipe_inv_step [OF assms(1)])
  fix t' assume "t' \<in> set ((sy_threads s)[i := t])"
  then show "t' \<in> set (sy_threads s) \<or> thread_refs t' \<subseteq> {..<length (pl_heap (sy_pipe s))}"
    using assms(5) set_update_subset_insert [of "sy_threads s" i t] by auto
next
  fix r assume "r < length (pl_heap (sy_pipe s))"
  show "pl_heap p ! r = pl_heap (sy_pipe s) ! r \<and> thread_sum r ((sy_threads s)[i := t]) = thread_sum r (sy_threads s) \<and> quiet r ls \<or>
      sink_inv r (tr @ ls) (pl_heap p ! r) \<and> close_inv (pl_heap p ! r)
        (thread_sum r ((sy_threads s)[i := t]) + loop_closing (sw_loop (pl_heap p ! r))) (closes r tr + closes r ls)"
    using thread_sum_update [OF assms(2), of r] assms(3,7,8) by fastforce
qed (use assms in auto)

text \<open>A step that changes one sink, by a call or by one of the sink's goroutines.\<close>

lemma pipe_inv_sink:
  assumes inv: "pipe_inv s tr" and r: "r < length (pl_heap (sy_pipe s))"
    and p: "pl_heap p = (pl_heap (sy_pipe s))[r := w]" "pl_sinks p = pl_sinks (sy_pipe s)"
    and refs: "\<And>t. t \<in> set ts \<Longrightarrow> t \<in> set (sy_threads s) \<or> thread_refs t \<subseteq> {..<length (pl_heap (sy_pipe s))}"
    and ls: "label_ref ` set ls \<subseteq> {r}"
    and other: "\<And>r'. r' \<noteq> r \<Longrightarrow> thread_sum r' ts = thread_sum r' (sy_threads s)"
    and w: "sink_inv r (tr @ ls) w" "close_inv w (thread_sum r ts + loop_closing (sw_loop w)) (closes r tr + closes r ls)"
  shows "pipe_inv (s\<lparr>sy_pipe := p, sy_threads := ts\<rparr>) (tr @ ls)"
proof (rule pipe_inv_step [OF inv])
  fix r' assume "r' < length (pl_heap (sy_pipe s))"
  show "pl_heap p ! r' = pl_heap (sy_pipe s) ! r' \<and> thread_sum r' ts = thread_sum r' (sy_threads s) \<and> quiet r' ls \<or>
      sink_inv r' (tr @ ls) (pl_heap p ! r') \<and> close_inv (pl_heap p ! r')
        (thread_sum r' ts + loop_closing (sw_loop (pl_heap p ! r'))) (closes r' tr + closes r' ls)"
  proof (cases "r' = r")
    case True
    then show ?thesis using r w by (simp add: p)
  next
    case False
    then have "quiet r' ls" using ls by (intro quiet_other) auto
    then show ?thesis using False other by (simp add: p)
  qed
qed (use r p refs ls in auto)

lemma thread_sum_same:
  "i < length ts \<Longrightarrow> thread_closing r t = thread_closing r (ts ! i) \<Longrightarrow> thread_sum r (ts[i := t]) = thread_sum r ts"
  using thread_sum_update [of i ts r] by auto

lemma threads_after:
  "t' \<in> set ((sy_threads s)[i := t]) \<Longrightarrow> thread_refs t \<subseteq> {..<n} \<Longrightarrow> t' \<in> set (sy_threads s) \<or> thread_refs t' \<subseteq> {..<n}"
  using set_update_subset_insert [of "sy_threads s" i t] by auto

lemma pipe_inv_refs:
  assumes "pipe_inv s tr" "i < length (sy_threads s)"
  shows "thread_refs (sy_threads s ! i) \<subseteq> {..<length (pl_heap (sy_pipe s))}"
  using assms by (simp add: pipe_inv_def refs_inv_def Let_def)

lemma pipe_inv_at:
  assumes "pipe_inv s tr" "r < length (pl_heap (sy_pipe s))"
  shows "sink_inv r tr (pl_heap (sy_pipe s) ! r)"
    "close_inv (pl_heap (sy_pipe s) ! r) (thread_sum r (sy_threads s) + loop_closing (sw_loop (pl_heap (sy_pipe s) ! r))) (closes r tr)"
  using assms by (simp_all add: pipe_inv_def)

lemma write_keeps:
  assumes inv: "pipe_inv s tr" and i: "i < length (sy_threads s)" "sy_threads s ! i = TWrite f c"
    and ord: "range_of (sy_pipe s) ord" and step: "WriteFrame ord f c (sy_pipe s) = Moved (ls, c', p)"
  shows "pipe_inv (s\<lparr>sy_pipe := p, sy_threads := (sy_threads s)[i := TWrite f c']\<rparr>) (tr @ ls)"
proof -
  let ?n = "length (pl_heap (sy_pipe s))" and ?p = "sy_pipe s" and ?ts = "(sy_threads s)[i := TWrite f c']"
  have refs: "thread_refs (TWrite f c) \<subseteq> {..<?n}" using pipe_inv_refs [OF inv i(1)] i(2) by simp
  have same: "thread_sum r ?ts = thread_sum r (sy_threads s)" for r
    by (rule thread_sum_same [OF i(1)]) (simp add: i(2))
  have ord': "set ord \<subseteq> {..<?n}" using inv ord by (simp add: pipe_inv_def refs_inv_def range_of_def Let_def)
  consider (idle) "pl_heap p = pl_heap ?p" "pl_sinks p = pl_sinks ?p" "\<forall>l \<in> set ls. \<exists>r < ?n. l = Refused r f"
      "thread_refs (TWrite f c') \<subseteq> {..<?n}"
    | (send) r rs d where "c = WSend r rs d" "\<not> sw_chClosed (pl_heap ?p ! r)" "length (sw_ch (pl_heap ?p ! r)) < sw_cap (pl_heap ?p ! r)"
      "ls = [Accepted r f]" "c' = WNext rs d"
      "p = ?p\<lparr>pl_heap := (pl_heap ?p)[r := (pl_heap ?p ! r)\<lparr>sw_ch := sw_ch (pl_heap ?p ! r) @ [f]\<rparr>]\<rparr>"
    | (full) r rs d where "c = WFull r rs d" "ls = [Refused r f]" "c' = WNext rs (d + 1)"
      "p = ?p\<lparr>pl_heap := (pl_heap ?p)[r := (pl_heap ?p ! r)\<lparr>sw_framesDropped := sw_framesDropped (pl_heap ?p ! r) + 1\<rparr>]\<rparr>"
    using step refs ord'
    by (cases "(ord, f, c, ?p)" rule: WriteFrame.cases) (auto simp: Let_def split: if_splits)
  then show ?thesis
  proof cases
    case idle
    have q: "quiet r ls" for r
      using idle(3) by (induction ls) (auto simp: quiet_def)
    show ?thesis
      by (rule pipe_inv_idle [OF inv i(1) idle(1) _ idle(4) _ q]) (use idle i(2) in auto)
  next
    case send
    have r: "r < ?n" using refs send(1) by simp
    show ?thesis
      unfolding send(6)
    proof (rule pipe_inv_sink [OF inv r])
      show "sink_inv r (tr @ ls) ((pl_heap ?p ! r)\<lparr>sw_ch := sw_ch (pl_heap ?p ! r) @ [f]\<rparr>)"
        using pipe_inv_at(1) [OF inv r] send(3,4) by (simp add: sink_inv_def)
    qed (use send refs same pipe_inv_at(2) [OF inv r] in \<open>simp_all add: threads_after\<close>)
  next
    case full
    have r: "r < ?n" using refs full(1) by simp
    show ?thesis
      unfolding full(4)
    proof (rule pipe_inv_sink [OF inv r])
      show "sink_inv r (tr @ ls) ((pl_heap ?p ! r)\<lparr>sw_framesDropped := sw_framesDropped (pl_heap ?p ! r) + 1\<rparr>)"
        using pipe_inv_at(1) [OF inv r] full(2) by (simp add: sink_inv_def)
    qed (use full refs same pipe_inv_at(2) [OF inv r] in \<open>simp_all add: threads_after\<close>)
  qed
qed

text \<open>A call of \<open>closeInternal\<close> by a thread.\<close>

lemma close_keeps:
  assumes inv: "pipe_inv s tr" and i: "i < length (sy_threads s)" and r: "r < length (pl_heap (sy_pipe s))"
    and t: "\<And>r'. thread_closing r' (sy_threads s ! i) = (if r' = r then closing c else {#})"
      "\<And>r'. thread_closing r' t = (if r' = r then closing c' else {#})" "thread_refs t \<subseteq> {..<length (pl_heap (sy_pipe s))}"
    and step: "closeSink r c (sy_pipe s) = Moved (ls, c', p)"
  shows "pipe_inv (s\<lparr>sy_pipe := p, sy_threads := (sy_threads s)[i := t]\<rparr>) (tr @ ls)"
proof -
  let ?w = "pl_heap (sy_pipe s) ! r" and ?ts = "(sy_threads s)[i := t]"
  obtain w' where w': "closeInternal r c ?w = Moved (ls, c', w')" "p = (sy_pipe s)\<lparr>pl_heap := (pl_heap (sy_pipe s))[r := w']\<rparr>"
    using step by (auto simp: closeSink_def split: outcome.splits)
  obtain M where M: "thread_sum r (sy_threads s) = M + closing c" "thread_sum r ?ts = M + closing c'"
    using thread_sum_update [OF i, of r] t by auto
  have "close_inv ?w ((M + loop_closing (sw_loop ?w)) + closing c) (closes r tr)"
    using pipe_inv_at(2) [OF inv r] by (simp add: M(1) ac_simps)
  note C = closeInternal_inv(2) [OF this w'(1)]
  show ?thesis
    unfolding w'(2)
  proof (rule pipe_inv_sink [OF inv r])
    have "accepted r ls = [] \<and> taken r ls = [] \<and> left r ls = [] \<and> written r ls = []" using C quiet_closed by blast
    then show "sink_inv r (tr @ ls) w'"
      using pipe_inv_at(1) [OF inv r] C by (simp only: sink_inv_def map_append concat_append append_Nil2)
    show "close_inv w' (thread_sum r ?ts + loop_closing (sw_loop w')) (closes r tr + closes r ls)"
      using C by (simp add: M(2) ac_simps)
    show "thread_sum r' ?ts = thread_sum r' (sy_threads s)" if "r' \<noteq> r" for r'
      by (rule thread_sum_same [OF i]) (use t that in simp)
    show "label_ref ` set ls \<subseteq> {r}" using C quiet_closed by blast
    show "t' \<in> set (sy_threads s) \<or> thread_refs t' \<subseteq> {..<length (pl_heap (sy_pipe s))}" if "t' \<in> set ?ts" for t'
      by (rule threads_after [OF that t(3)])
  qed simp_all
qed

lemma close_no_panic:
  assumes inv: "pipe_inv s tr" and i: "i < length (sy_threads s)" and r: "r < length (pl_heap (sy_pipe s))"
    and t: "thread_closing r (sy_threads s ! i) = closing c"
  shows "closeSink r c (sy_pipe s) \<noteq> Panics" "closeSink r c (sy_pipe s) = Stuck \<longleftrightarrow> c = CEnd"
proof -
  let ?w = "pl_heap (sy_pipe s) ! r"
  obtain M where M: "thread_sum r (sy_threads s) = M + closing c" using thread_sum_update [OF i, of r] t by auto
  have "close_inv ?w ((M + loop_closing (sw_loop ?w)) + closing c) (closes r tr)"
    using pipe_inv_at(2) [OF inv r] by (simp add: M ac_simps)
  from closeInternal_inv(1,3) [OF this, of r]
  show "closeSink r c (sy_pipe s) \<noteq> Panics" "closeSink r c (sy_pipe s) = Stuck \<longleftrightarrow> c = CEnd"
    by (auto simp: closeSink_def split: outcome.splits)
qed

lemma remove_keeps:
  assumes inv: "pipe_inv s tr" and i: "i < length (sy_threads s)" "sy_threads s ! i = TRemove sid c"
    and step: "RemoveSink sid c (sy_pipe s) = Moved (ls, c', p)"
  shows "pipe_inv (s\<lparr>sy_pipe := p, sy_threads := (sy_threads s)[i := TRemove sid c']\<rparr>) (tr @ ls)"
proof (cases c)
  case RmStart
  have "ran (pl_sinks (sy_pipe s)) \<subseteq> {..<length (pl_heap (sy_pipe s))}"
    using inv by (simp add: pipe_inv_def refs_inv_def Let_def)
  then have "pl_heap p = pl_heap (sy_pipe s)" "ran (pl_sinks p) \<subseteq> ran (pl_sinks (sy_pipe s))"
    "thread_refs (TRemove sid c') \<subseteq> {..<length (pl_heap (sy_pipe s))}" "ls = []" "thread_closing r (TRemove sid c') = {#}" for r
    using step RmStart by (auto simp: closing_def ran_def split: if_splits option.splits)
  then show ?thesis by (intro pipe_inv_idle [OF inv i(1)]) (simp_all add: i(2) RmStart quiet_def)
next
  case (RmClosing r cc)
  have r: "r < length (pl_heap (sy_pipe s))" using pipe_inv_refs [OF inv i(1)] i(2) RmClosing by simp
  have n: "closeSink r cc (sy_pipe s) \<noteq> Panics" "closeSink r cc (sy_pipe s) = Stuck \<longleftrightarrow> cc = CEnd"
    using close_no_panic [OF inv i(1) r, of cc] i(2) RmClosing by simp_all
  show ?thesis
  proof (cases "closeSink r cc (sy_pipe s)")
    case Stuck
    then have "p = (sy_pipe s)\<lparr>pl_locked := False\<rparr>" "ls = []" "c' = RmEnd None" "cc = CEnd"
      using step RmClosing n by simp_all
    then show ?thesis by (intro pipe_inv_idle [OF inv i(1)]) (simp_all add: i(2) RmClosing quiet_def closing_def)
  next
    case (Moved x)
    obtain d where m: "closeSink r cc (sy_pipe s) = Moved (ls, d, p)" and c': "c' = RmClosing r d"
      using step Moved RmClosing by (cases x) simp
    show ?thesis
      by (rule close_keeps [OF inv i(1) r _ _ _ m]) (use r in \<open>simp_all add: i(2) RmClosing c'\<close>)
  qed (use n in simp)
qed (use step in simp)

lemma stop_keeps:
  assumes inv: "pipe_inv s tr" and i: "i < length (sy_threads s)" "sy_threads s ! i = TClose c"
    and ord: "range_of (sy_pipe s) ord" and step: "ClosePipeline ord c (sy_pipe s) = Moved (ls, c', p)"
  shows "pipe_inv (s\<lparr>sy_pipe := p, sy_threads := (sy_threads s)[i := TClose c']\<rparr>) (tr @ ls)"
proof -
  let ?n = "length (pl_heap (sy_pipe s))"
  have refs: "thread_refs (TClose c) \<subseteq> {..<?n}" using pipe_inv_refs [OF inv i(1)] i(2) by simp
  have ord': "set ord \<subseteq> {..<?n}" using inv ord by (simp add: pipe_inv_def refs_inv_def range_of_def Let_def)
  show ?thesis
  proof (cases "\<exists>r cc rs. c = StClosing r cc rs")
    case False
    then have "pl_heap p = pl_heap (sy_pipe s)" "ran (pl_sinks p) \<subseteq> ran (pl_sinks (sy_pipe s))"
      "thread_refs (TClose c') \<subseteq> {..<?n}" "ls = []" "thread_closing r (TClose c') = {#}" "thread_closing r (TClose c) = {#}" for r
      using step refs ord'
      by (cases "(ord, c, sy_pipe s)" rule: ClosePipeline.cases; auto simp: closing_def split: if_splits)+
    then show ?thesis by (intro pipe_inv_idle [OF inv i(1)]) (simp_all add: i(2) quiet_def)
  next
    case True
    then obtain r cc rs where c: "c = StClosing r cc rs" by blast
    have r: "r < ?n" using refs c by simp
    have n: "closeSink r cc (sy_pipe s) \<noteq> Panics" "closeSink r cc (sy_pipe s) = Stuck \<longleftrightarrow> cc = CEnd"
      using close_no_panic [OF inv i(1) r, of cc] i(2) c by simp_all
    show ?thesis
    proof (cases "closeSink r cc (sy_pipe s)")
      case Stuck
      then have "p = sy_pipe s" "ls = []" "c' = StNext rs" "cc = CEnd" using step c n by simp_all
      then show ?thesis
        using refs c by (intro pipe_inv_idle [OF inv i(1)]) (simp_all add: i(2) quiet_def closing_def)
    next
      case (Moved x)
      obtain d where m: "closeSink r cc (sy_pipe s) = Moved (ls, d, p)" and c': "c' = StClosing r d rs"
        using step Moved c by (cases x) simp
      show ?thesis
        by (rule close_keeps [OF inv i(1) r _ _ _ m]) (use refs r in \<open>simp_all add: i(2) c c'\<close>)
    qed (use n in simp)
  qed
qed

lemma write_inv_steps:
  "write_inv LSelect ts ws \<Longrightarrow> write_inv (LTry f 0) (ts @ [f]) ws"
  "write_inv (LTry f n) ts ws \<Longrightarrow> write_inv (LTry f m) ts ws"
  "write_inv (LTry f n) ts ws \<Longrightarrow> write_inv LWrote ts (ws @ [f])"
  "write_inv (LTry f n) ts ws \<Longrightarrow> write_inv LFailed ts ws"
  "l \<in> {LSelect, LWrote, LFailed, LExit} \<union> range LClosing \<Longrightarrow> l' \<in> {LSelect, LWrote, LFailed, LExit} \<union> range LClosing \<Longrightarrow>
     write_inv l ts ws = write_inv l' ts ws"
  by (auto simp: write_inv_def split: loop_pc.splits intro: list_emb_append2)

lemma loop_sink:
  assumes s: "sink_inv r tr w" and c: "close_inv w (M + loop_closing (sw_loop w)) n"
    and step: "loop_step pick ok r w = Moved (ls, w')"
  shows "sink_inv r (tr @ ls) w' \<and> close_inv w' (M + loop_closing (sw_loop w')) (n + closes r ls) \<and> label_ref ` set ls \<subseteq> {r}"
proof (cases "sw_loop w")
  case LSelect
  then show ?thesis
    using s c step write_inv_steps(1) write_inv_steps(5) [of LSelect LExit]
    by (auto simp: loop_step_def sink_inv_def split: if_splits list.splits)
next
  case (LTry f k)
  then show ?thesis
    using s c step write_inv_steps(2-4) by (auto simp: loop_step_def sink_inv_def split: if_splits)
next
  case LWrote
  then show ?thesis
    using s c step write_inv_steps(5) [of LWrote LSelect] by (auto simp: loop_step_def sink_inv_def)
next
  case LFailed
  then show ?thesis
    using s c step write_inv_steps(5) [of LFailed "LClosing CCas"] by (auto simp: loop_step_def sink_inv_def closing_def)
next
  case (LClosing d)
  have c': "close_inv w (M + closing d) n" using c LClosing by simp
  show ?thesis
  proof (cases "closeInternal r d w")
    case Stuck
    then have "d = CEnd" "ls = []" "w' = w\<lparr>sw_loop := LSelect\<rparr>"
      using closeInternal_inv(3) [OF c', of r] step LClosing by (auto simp: loop_step_def)
    then show ?thesis
      using s c LClosing write_inv_steps(5) [of "LClosing CEnd" LSelect] by (simp add: sink_inv_def closing_def)
  next
    case Panics
    then show ?thesis using closeInternal_inv(1) [OF c', of r] by simp
  next
    case (Moved x)
    obtain d' v where v: "closeInternal r d w = Moved (ls, d', v)" "w' = v\<lparr>sw_loop := LClosing d'\<rparr>"
      using step Moved LClosing by (cases x) (auto simp: loop_step_def)
    note C = closeInternal_inv(2) [OF c' v(1)]
    have "accepted r ls = [] \<and> taken r ls = [] \<and> left r ls = [] \<and> written r ls = [] \<and> label_ref ` set ls \<subseteq> {r}"
      using C quiet_closed by blast
    moreover have "write_inv (LClosing d') ts ws = write_inv (LClosing d) ts ws" for ts ws
      by (rule write_inv_steps(5)) auto
    ultimately have "sink_inv r (tr @ ls) w'"
      using s C LClosing by (simp add: v(2) sink_inv_def del: concat_eq_Nil_conv)
    then show ?thesis using C \<open>_ \<and> _ \<and> _ \<and> _ \<and> label_ref ` set ls \<subseteq> {r}\<close> by (simp add: v(2))
  qed
next
  case LExit
  then show ?thesis using step by (simp add: loop_step_def)
qed

lemma drain_sink:
  assumes "sink_inv r tr w" "close_inv w (M + loop_closing (sw_loop w)) n" "drain_step r w = Moved (ls, w')"
  shows "sink_inv r (tr @ ls) w' \<and> close_inv w' (M + loop_closing (sw_loop w')) (n + closes r ls) \<and> label_ref ` set ls \<subseteq> {r}"
  using assms by (auto simp: drain_step_def sink_inv_def split: if_splits list.splits)

lemma goroutine_keeps:
  assumes inv: "pipe_inv s tr" and r: "r < length (pl_heap (sy_pipe s))"
    and w: "\<And>M n. close_inv (pl_heap (sy_pipe s) ! r) (M + loop_closing (sw_loop (pl_heap (sy_pipe s) ! r))) n \<Longrightarrow>
      sink_inv r (tr @ ls) w \<and> close_inv w (M + loop_closing (sw_loop w)) (n + closes r ls) \<and> label_ref ` set ls \<subseteq> {r}"
  shows "pipe_inv (put_sink r w s) (tr @ ls)"
proof -
  note W = w [OF pipe_inv_at(2) [OF inv r]]
  have "pipe_inv (s\<lparr>sy_pipe := (sy_pipe s)\<lparr>pl_heap := (pl_heap (sy_pipe s))[r := w]\<rparr>, sy_threads := sy_threads s\<rparr>) (tr @ ls)"
    by (rule pipe_inv_sink [OF inv r, where w = w]) (use W in \<open>auto simp del: map_append concat_append\<close>)
  then show ?thesis by (simp add: put_sink_def)
qed

lemma add_keeps:
  assumes inv: "pipe_inv s tr"
  shows "pipe_inv (s\<lparr>sy_pipe := snd (AddSink sink (sy_pipe s))\<rparr>) tr"
proof (cases "fst (AddSink sink (sy_pipe s))")
  case (Some e)
  then have "snd (AddSink sink (sy_pipe s)) = sy_pipe s" by (auto simp: AddSink_def split: option.splits prod.splits if_splits)
  then show ?thesis using inv by simp
next
  case None
  let ?n = "length (pl_heap (sy_pipe s))"
  obtain sid protocol where new: "snd (AddSink sink (sy_pipe s)) = (sy_pipe s)\<lparr>pl_sinks := (pl_sinks (sy_pipe s))(sid \<mapsto> ?n),
      pl_heap := pl_heap (sy_pipe s) @ [newSinkWrapper sid protocol (pl_bufSize (sy_pipe s))]\<rparr>"
    using None by (auto simp: AddSink_def split: option.splits prod.splits if_splits)
  have refs: "ran (pl_sinks (sy_pipe s)) \<subseteq> {..<?n}" "\<forall>t \<in> set (sy_threads s). thread_refs t \<subseteq> {..<?n}" "label_ref ` set tr \<subseteq> {..<?n}"
    using inv by (simp_all add: pipe_inv_def refs_inv_def Let_def)
  have "quiet ?n tr" using refs(3) by (intro quiet_other) auto
  moreover have "thread_sum ?n (sy_threads s) = {#}"
  proof -
    have "thread_closing ?n t = {#}" if "t \<in> set (sy_threads s)" for t
      using bspec [OF refs(2) that] by (cases "(?n, t)" rule: thread_closing.cases) auto
    then show ?thesis by (simp add: thread_sum_def)
  qed
  ultimately have fresh: "sink_inv ?n tr (newSinkWrapper sid protocol b)" "close_inv (newSinkWrapper sid protocol b)
      (thread_sum ?n (sy_threads s) + loop_closing (sw_loop (newSinkWrapper sid protocol b))) (closes ?n tr)" for b
    by (simp_all add: quiet_def sink_inv_def close_inv_def newSinkWrapper_def write_inv_def del: concat_eq_Nil_conv)
  have "refs_inv (s\<lparr>sy_pipe := snd (AddSink sink (sy_pipe s))\<rparr>) tr"
    using refs by (fastforce simp: new refs_inv_def Let_def ran_def)
  then show ?thesis
    using inv fresh by (auto simp: new pipe_inv_def nth_append less_Suc_eq)
qed

lemma call_keeps:
  assumes inv: "pipe_inv s tr" and t: "\<And>r. thread_closing r t = {#}" "thread_refs t = {}"
  shows "pipe_inv (s\<lparr>sy_threads := sy_threads s @ [t]\<rparr>) tr"
proof -
  have "pipe_inv (s\<lparr>sy_pipe := sy_pipe s, sy_threads := sy_threads s @ [t]\<rparr>) (tr @ [])"
    by (rule pipe_inv_step [OF inv]) (use t in \<open>auto simp: thread_sum_def quiet_def\<close>)
  then show ?thesis by simp
qed

lemma pipe_step_keeps: "pipe_step s ls s' \<Longrightarrow> pipe_inv s tr \<Longrightarrow> pipe_inv s' (tr @ ls)"
proof (induction rule: pipe_step.induct)
  case (call t f sid s)
  then show ?case using call_keeps [OF call.prems, of t] by auto
next
  case (add s sink)
  then show ?case using add_keeps [OF add.prems] by simp
next
  case (thread i s ord ls t p)
  show ?case
  proof (cases "sy_threads s ! i")
    case (TWrite f c)
    then show ?thesis
      using thread by (auto split: outcome.splits prod.splits intro: write_keeps)
  next
    case (TRemove sid c)
    then show ?thesis
      using thread by (auto split: outcome.splits prod.splits intro: remove_keeps)
  next
    case (TClose c)
    then show ?thesis
      using thread by (auto split: outcome.splits prod.splits intro: stop_keeps)
  qed
next
  case (loop r s pick ok ls w)
  show ?case
    by (rule goroutine_keeps [OF loop.prems loop.hyps(1)])
      (rule loop_sink [OF pipe_inv_at(1) [OF loop.prems loop.hyps(1)] _ loop.hyps(2)])
next
  case (drain r s ls w)
  show ?case
    by (rule goroutine_keeps [OF drain.prems drain.hyps(1)])
      (rule drain_sink [OF pipe_inv_at(1) [OF drain.prems drain.hyps(1)] _ drain.hyps(2)])
qed

lemma pipe_reach_inv: "pipe_reach s tr \<Longrightarrow> pipe_inv s tr"
proof (induction rule: pipe_reach.induct)
  case (start streamID bufSize)
  show ?case by (simp add: pipe_inv_def refs_inv_def newStreamPipeline_def)
next
  case (step s tr ls s')
  then show ?case using pipe_step_keeps by blast
qed

section \<open>What every interleaving keeps\<close>

lemma taken_left: "subseq (taken r tr) (left r tr)"
proof (induction tr)
  case (Cons l tr)
  have "subseq (taken_of r l) (left_of r l)" by (cases l) auto
  then show ?case using Cons list_emb_append_mono by fastforce
qed simp

lemma write_inv_subseq: "write_inv l ts ws \<Longrightarrow> subseq ws ts"
  by (auto simp: write_inv_def split: loop_pc.splits intro: list_emb_append2)

text \<open>
  C7. Whatever the interleaving of writers, sinks, removals and shut-down: what a sink has received is a
  subsequence of what its channel accepted, in order and without repetition; frames leave the channel
  in the order they entered it, and it never holds more than its capacity; the count of written
  frames is exact; and a sink's \<open>Close\<close> is called at most once, never before the sink is marked
  closed.
\<close>

theorem pipeline_contract:
  assumes "pipe_reach s tr" "r < length (pl_heap (sy_pipe s))"
  defines "w \<equiv> pl_heap (sy_pipe s) ! r"
  shows "subseq (written r tr) (accepted r tr) \<and> accepted r tr = left r tr @ sw_ch w \<and> length (sw_ch w) \<le> sw_cap w
    \<and> sw_framesWritten w + (if sw_loop w = LWrote then 1 else 0) = of_nat (length (written r tr))
    \<and> closes r tr \<le> (if sw_closed w then 1 else 0)"
proof -
  note inv = pipe_inv_at [OF pipe_reach_inv [OF assms(1)] assms(2), folded w_def]
  have "subseq (written r tr) (left r tr)"
    using subseq_order.trans [OF write_inv_subseq taken_left] inv(1) by (auto simp: sink_inv_def)
  then have "subseq (written r tr) (left r tr @ sw_ch w)" by (rule subseq_rev_drop_many)
  moreover have "closes r tr \<le> (if sw_closed w then 1 else 0)" using inv(2) by (auto simp: close_inv_def split: if_splits)
  ultimately show ?thesis using inv(1) by (simp add: sink_inv_def)
qed

lemma turn_reach:
  assumes "pipe_reach s tr" "turn a (s, tr) = Some (s', tr')"
  shows "pipe_reach s' tr'"
proof -
  have "\<exists>ls. tr' = tr @ ls \<and> pipe_step s ls s'"
    using assms(2)
    by (cases a) (auto split: if_splits outcome.splits Thread.splits write_pc.splits remove_pc.splits stop_pc.splits
        intro: pipe_step.intros)
  then show ?thesis using assms(1) pipe_reach.step by blast
qed

lemma turns_reach: "turns as (s, tr) = Some (s', tr') \<Longrightarrow> pipe_reach s tr \<Longrightarrow> pipe_reach s' tr'"
proof (induction as arbitrary: s tr)
  case (Cons a as)
  then show ?case by (cases "turn a (s, tr)") (auto dest: turn_reach)
qed simp

lemma empty_reach: "turns as (empty_system, []) = Some (s, tr) \<Longrightarrow> pipe_reach s tr"
  using turns_reach pipe_reach.start unfolding empty_system_def by blast

lemmas turn_simps = empty_system_def newStreamPipeline_def AddSink_def newSinkWrapper_def range_of_def
  loop_step_def drain_step_def closeSink_def put_sink_def Let_def

theorem pipeline_contract_witness:
  "\<exists>s. turns [Add (Some (''a'', ''hls'')), Call (TWrite zero_frame WStart), Run [0] 0, Run [0] 0, Run [0] 0, Run [0] 0, Run [0] 0,
      Loop True True 0, Loop True True 0, Loop True True 0] (empty_system, []) =
      Some (s, [Accepted 0 zero_frame, Took 0 zero_frame, CalledWrite 0 zero_frame True]) \<and>
    sw_framesWritten (pl_heap (sy_pipe s) ! 0) = 1"
proof -
  let ?as = "[Add (Some (''a'', ''hls'')), Call (TWrite zero_frame WStart), Run [0] 0, Run [0] 0, Run [0] 0, Run [0] 0, Run [0] 0,
      Loop True True 0, Loop True True 0, Loop True True 0]"
  let ?tr = "[Accepted 0 zero_frame, Took 0 zero_frame, CalledWrite 0 zero_frame True]"
  obtain s where s: "turns ?as (empty_system, []) = Some (s, ?tr)" "length (pl_heap (sy_pipe s)) = 1"
      "sw_loop (pl_heap (sy_pipe s) ! 0) = LSelect"
    by (simp add: turn_simps)
  have "sw_framesWritten (pl_heap (sy_pipe s) ! 0) = 1"
    using pipeline_contract [OF empty_reach [OF s(1)], of 0] s(2,3) by simp
  then show ?thesis using s(1) by blast
qed

text \<open>
  C17. The only panic of the pipeline is a race. A reachable state can panic exactly if some \<open>WriteFrame\<close>
  has found a sink open, and before it sends the sink's channel has been closed: \<open>tryWrite\<close> sends on a closed
  channel. Closing never panics, however many calls close the same sink at once.
\<close>

theorem pipeline_panics_iff:
  assumes "pipe_reach s tr"
  shows "pipe_panics s \<longleftrightarrow>
    (\<exists>f r rs d. TWrite f (WSend r rs d) \<in> set (sy_threads s) \<and> sw_chClosed (pl_heap (sy_pipe s) ! r))"
    (is "_ \<longleftrightarrow> ?race")
proof
  note inv = pipe_reach_inv [OF assms]
  assume "pipe_panics s"
  then consider ord t where "t \<in> set (sy_threads s)" "thread_step ord t (sy_pipe s) = Panics"
    | pick ok r where "r < length (pl_heap (sy_pipe s))" "loop_step pick ok r (pl_heap (sy_pipe s) ! r) = Panics"
    by (auto simp: pipe_panics_def)
  then show ?race
  proof cases
    case (1 ord t)
    then obtain i where i: "i < length (sy_threads s)" "sy_threads s ! i = t" by (auto simp: in_set_conv_nth)
    have refs: "thread_refs t \<subseteq> {..<length (pl_heap (sy_pipe s))}" using pipe_inv_refs [OF inv i(1)] i(2) by simp
    show ?thesis
    proof (cases t)
      case (TWrite f c)
      then have "WriteFrame ord f c (sy_pipe s) = Panics" using 1(2) by (auto split: outcome.splits)
      then show ?thesis
        using 1(1) TWrite by (cases "(ord, f, c, sy_pipe s)" rule: WriteFrame.cases) (auto simp: Let_def split: if_splits)
    next
      case (TRemove sid c)
      then have "RemoveSink sid c (sy_pipe s) = Panics" using 1(2) by (auto split: outcome.splits)
      then show ?thesis
        using TRemove i refs close_no_panic(1) [OF inv i(1)]
        by (cases c) (auto split: if_splits option.splits outcome.splits)
    next
      case (TClose c)
      then have "ClosePipeline ord c (sy_pipe s) = Panics" using 1(2) by (auto split: outcome.splits)
      then show ?thesis
        using TClose i refs close_no_panic(1) [OF inv i(1)]
        by (cases "(ord, c, sy_pipe s)" rule: ClosePipeline.cases) (auto split: if_splits outcome.splits)
    qed
  next
    case (2 pick ok r)
    then have "\<exists>c. sw_loop (pl_heap (sy_pipe s) ! r) = LClosing c \<and> closeInternal r c (pl_heap (sy_pipe s) ! r) = Panics"
      by (auto simp: loop_step_def split: loop_pc.splits if_splits list.splits outcome.splits)
    then show ?thesis using pipe_inv_at(2) [OF inv 2(1)] closeInternal_inv(1) by fastforce
  qed
next
  assume ?race
  then obtain f r rs d where t: "TWrite f (WSend r rs d) \<in> set (sy_threads s)" "sw_chClosed (pl_heap (sy_pipe s) ! r)" by blast
  have "finite (ran (pl_sinks (sy_pipe s)))"
    using pipe_reach_inv [OF assms] finite_subset by (fastforce simp: pipe_inv_def refs_inv_def Let_def)
  then obtain ord where "range_of (sy_pipe s) ord" unfolding range_of_def using finite_distinct_list by metis
  moreover have "thread_step ord (TWrite f (WSend r rs d)) (sy_pipe s) = Panics" for ord using t(2) by simp
  ultimately show "pipe_panics s" using t(1) unfolding pipe_panics_def by blast
qed

theorem pipeline_panics_iff_witness:
  "\<exists>s. turns [Add (Some (''a'', ''hls'')), Call (TWrite zero_frame WStart), Run [0] 0, Run [0] 0, Run [0] 0, Run [0] 0,
      Call (TRemove ''a'' RmStart), Run [0] 1, Run [] 1, Run [] 1, Run [] 1, Run [] 1] (empty_system, []) = Some (s, []) \<and>
    pipe_panics s"
proof -
  let ?as = "[Add (Some (''a'', ''hls'')), Call (TWrite zero_frame WStart), Run [0] 0, Run [0] 0, Run [0] 0, Run [0] 0,
      Call (TRemove ''a'' RmStart), Run [0] 1, Run [] 1, Run [] 1, Run [] 1, Run [] 1]"
  obtain s where s: "turns ?as (empty_system, []) = Some (s, [])" "TWrite zero_frame (WSend 0 [] 0) \<in> set (sy_threads s)"
      "sw_chClosed (pl_heap (sy_pipe s) ! 0)"
    by (simp add: turn_simps ran_def)
  then show ?thesis using pipeline_panics_iff [OF empty_reach [OF s(1)]] by blast
qed

end
