(* ===== verification/TurnTaking.thy ===== *)
theory TurnTaking
  imports Prelude
begin

text \<open>
  End-of-turn detection of the voice agent (\<open>pkg/control/turn.go\<close>). Clock readings are arguments in
  nanoseconds; \<open>None\<close> is the zero time, whose distance to any clock reading saturates. The
  specification looks at the recent frames themselves; the lemmas show that the counters of the
  code implement it.
\<close>

section \<open>The code\<close>

datatype TurnState = TurnIdle | TurnListening | TurnEnding

datatype TurnEvent = TurnEventSpeechStart | TurnEventSpeechEnd | TurnEventTurnTimeout

record TurnConfig =
  tc_SpeechStartFrames :: int
  tc_SilenceEndFrames :: int
  tc_MinTurnDuration :: int
  tc_MaxTurnDuration :: int

definition DefaultTurnConfig :: TurnConfig where
  "DefaultTurnConfig =
     \<lparr>tc_SpeechStartFrames = 3, tc_SilenceEndFrames = 25, tc_MinTurnDuration = 200000000,
      tc_MaxTurnDuration = 30000000000\<rparr>"

record TurnManager =
  tm_config :: TurnConfig
  tm_state :: TurnState
  tm_speechFrames :: int
  tm_silenceFrames :: int
  tm_turnStart :: "int option"
  tm_lastActive :: "int option"

definition orElse :: "int \<Rightarrow> int \<Rightarrow> int" where
  "orElse d x = (if x \<le> 0 then d else x)"

definition NewTurnManager :: "TurnConfig \<Rightarrow> TurnManager" where
  "NewTurnManager config =
     \<lparr>tm_config =
        \<lparr>tc_SpeechStartFrames = orElse 3 (tc_SpeechStartFrames config),
         tc_SilenceEndFrames = orElse 25 (tc_SilenceEndFrames config),
         tc_MinTurnDuration = orElse 200000000 (tc_MinTurnDuration config),
         tc_MaxTurnDuration = orElse 30000000000 (tc_MaxTurnDuration config)\<rparr>,
      tm_state = TurnIdle, tm_speechFrames = 0, tm_silenceFrames = 0, tm_turnStart = None, tm_lastActive = None\<rparr>"

definition turnReset :: "TurnManager \<Rightarrow> TurnManager" where
  "turnReset tm =
     tm\<lparr>tm_state := TurnIdle, tm_speechFrames := 0, tm_silenceFrames := 0, tm_turnStart := None,
        tm_lastActive := None\<rparr>"

text \<open>\<open>now.Sub(t)\<close>, which saturates.\<close>

definition time_Sub :: "int \<Rightarrow> int option \<Rightarrow> int" where
  "time_Sub now t = (case t of Some t \<Rightarrow> now - t | None \<Rightarrow> 2 ^ 63 - 1)"

definition turnIdle :: "TurnManager \<Rightarrow> TurnManager" where
  "turnIdle tm = tm\<lparr>tm_state := TurnIdle, tm_speechFrames := 0, tm_silenceFrames := 0\<rparr>"

definition processIdle :: "int \<Rightarrow> bool \<Rightarrow> TurnManager \<Rightarrow> TurnEvent list \<times> TurnManager" where
  "processIdle now speaking tm =
     (if speaking then
        let tm = tm\<lparr>tm_speechFrames := tm_speechFrames tm + 1, tm_silenceFrames := 0\<rparr> in
        if tm_speechFrames tm \<ge> tc_SpeechStartFrames (tm_config tm) then
          ([TurnEventSpeechStart],
           tm\<lparr>tm_state := TurnListening, tm_turnStart := Some now, tm_lastActive := Some now, tm_speechFrames := 0\<rparr>)
        else ([], tm)
      else ([], tm\<lparr>tm_speechFrames := 0\<rparr>))"

definition processListening :: "int \<Rightarrow> bool \<Rightarrow> TurnManager \<Rightarrow> TurnEvent list \<times> TurnManager" where
  "processListening now speaking tm =
     (let (events, tm) =
        (if speaking then ([], tm\<lparr>tm_silenceFrames := 0, tm_lastActive := Some now\<rparr>)
         else
           let tm = tm\<lparr>tm_silenceFrames := tm_silenceFrames tm + 1\<rparr> in
           if tm_silenceFrames tm \<ge> tc_SilenceEndFrames (tm_config tm) then
             (if time_Sub now (tm_turnStart tm) \<ge> tc_MinTurnDuration (tm_config tm) then [TurnEventSpeechEnd] else [],
              turnIdle tm)
           else ([], tm)) in
      if tm_state tm = TurnListening \<and> time_Sub now (tm_turnStart tm) \<ge> tc_MaxTurnDuration (tm_config tm)
      then (events @ [TurnEventTurnTimeout], turnIdle tm)
      else (events, tm))"

definition processLocked :: "int \<Rightarrow> bool \<Rightarrow> TurnManager \<Rightarrow> TurnEvent list \<times> TurnManager" where
  "processLocked now speaking tm =
     (case tm_state tm of
        TurnIdle \<Rightarrow> processIdle now speaking tm
      | TurnListening \<Rightarrow> processListening now speaking tm
      | TurnEnding \<Rightarrow> ([], tm))"

definition TurnDuration :: "int \<Rightarrow> TurnManager \<Rightarrow> int" where
  "TurnDuration now tm =
     (if tm_state tm = TurnListening \<and> tm_turnStart tm \<noteq> None then time_Sub now (tm_turnStart tm) else 0)"

fun processAll :: "(int \<times> bool) list \<Rightarrow> TurnManager \<Rightarrow> TurnEvent list list \<times> TurnManager" where
  "processAll [] tm = ([], tm)"
| "processAll ((now, speaking) # fs) tm =
     (let (es, tm) = processLocked now speaking tm; (ess, tm) = processAll fs tm in (es # ess, tm))"

section \<open>Specification\<close>

text \<open>
  Either nobody talks, or somebody has talked since a time; the frames of the phase are kept, the
  latest first.
\<close>

datatype Phase = Quiet "bool list" | Talking int "bool list"

definition recent :: "bool \<Rightarrow> bool list \<Rightarrow> int" where
  "recent b h = int (length (takeWhile (\<lambda>x. x = b) h))"

fun spec_frame :: "TurnConfig \<Rightarrow> int \<Rightarrow> bool \<Rightarrow> Phase \<Rightarrow> TurnEvent list \<times> Phase" where
  "spec_frame cfg now speaking (Quiet h) =
     (if recent True (speaking # h) \<ge> tc_SpeechStartFrames cfg then ([TurnEventSpeechStart], Talking now [])
      else ([], Quiet (speaking # h)))"
| "spec_frame cfg now speaking (Talking t h) =
     (if recent False (speaking # h) \<ge> tc_SilenceEndFrames cfg then
        (if now - t \<ge> tc_MinTurnDuration cfg then [TurnEventSpeechEnd] else [], Quiet [])
      else if now - t \<ge> tc_MaxTurnDuration cfg then ([TurnEventTurnTimeout], Quiet [])
      else ([], Talking t (speaking # h)))"

fun spec_frames :: "TurnConfig \<Rightarrow> (int \<times> bool) list \<Rightarrow> Phase \<Rightarrow> TurnEvent list list \<times> Phase" where
  "spec_frames cfg [] ph = ([], ph)"
| "spec_frames cfg ((now, speaking) # fs) ph =
     (let (es, ph) = spec_frame cfg now speaking ph; (ess, ph) = spec_frames cfg fs ph in (es # ess, ph))"

text \<open>The counters are the lengths of the latest runs.\<close>

fun turn_abs :: "TurnManager \<Rightarrow> Phase \<Rightarrow> bool" where
  "turn_abs tm (Quiet h) \<longleftrightarrow>
     tm_state tm = TurnIdle \<and> tm_speechFrames tm = recent True h \<and> tm_silenceFrames tm = 0"
| "turn_abs tm (Talking t h) \<longleftrightarrow>
     tm_state tm = TurnListening \<and> tm_turnStart tm = Some t \<and> tm_silenceFrames tm = recent False h \<and> tm_speechFrames tm = 0"

definition turn_ok :: "TurnConfig \<Rightarrow> bool" where
  "turn_ok cfg \<longleftrightarrow> 0 < tc_SpeechStartFrames cfg \<and> 0 < tc_SilenceEndFrames cfg \<and> 0 < tc_MinTurnDuration cfg \<and> 0 < tc_MaxTurnDuration cfg"

section \<open>The counters implement the specification\<close>

lemma recent_Cons: "recent b (x # h) = (if x = b then recent b h + 1 else 0)" "recent b [] = 0"
  by (simp_all add: recent_def)

lemma recent_nonneg: "0 \<le> recent b h"
  by (simp add: recent_def)

lemma processLocked_spec:
  assumes "turn_abs tm ph" "turn_ok (tm_config tm)"
  shows "fst (processLocked now speaking tm) = fst (spec_frame (tm_config tm) now speaking ph) \<and>
    turn_abs (snd (processLocked now speaking tm)) (snd (spec_frame (tm_config tm) now speaking ph)) \<and>
    tm_config (snd (processLocked now speaking tm)) = tm_config tm"
  using assms
  by (cases ph) (auto simp: processLocked_def processIdle_def processListening_def turnIdle_def time_Sub_def
      recent_Cons turn_ok_def Let_def)

lemma processAll_spec:
  "turn_abs tm ph \<Longrightarrow> turn_ok (tm_config tm) \<Longrightarrow>
   fst (processAll fs tm) = fst (spec_frames (tm_config tm) fs ph) \<and>
   turn_abs (snd (processAll fs tm)) (snd (spec_frames (tm_config tm) fs ph))"
proof (induction fs arbitrary: tm ph)
  case (Cons f fs)
  obtain now b where f: "f = (now, b)" by (cases f)
  note s = processLocked_spec [OF Cons.prems, of now b]
  show ?case
    using Cons.IH [of "snd (processLocked now b tm)" "snd (spec_frame (tm_config tm) now b ph)"] s Cons.prems(2)
    by (simp add: f case_prod_unfold Let_def)
qed simp

text \<open>
  C16. End-of-turn detection is what its comments describe. For every configuration and every sequence
  of voice-activity results the code reports exactly the events of the specification: speech starts
  once the latest frames, as many as configured, were all speech; it ends once as many of the
  latest frames were all silence, and is reported if the turn was long enough; a turn that reaches
  the maximum is cut off; after the end of a turn counting starts anew.
\<close>

theorem turn_detection:
  "fst (processAll fs (NewTurnManager config)) =
     fst (spec_frames (tm_config (NewTurnManager config)) fs (Quiet []))"
proof -
  have "turn_abs (NewTurnManager config) (Quiet [])" "turn_ok (tm_config (NewTurnManager config))"
    by (simp_all add: NewTurnManager_def recent_def turn_ok_def orElse_def)
  then show ?thesis using processAll_spec by blast
qed

end
