(* ===== verification/AgentLoop.thy ===== *)
theory AgentLoop
  imports TurnTaking
begin

text \<open>
  The voice agent (\<open>pkg/control/session.go\<close> and \<open>orchestrate.go\<close>): one goroutine that listens,
  lets the plugins recognise, answer and synthesise, and plays the answer frame by frame. The
  recognisers and the client are other programs: what they return is an argument of the step that
  calls them, as are clock readings and the case a \<open>select\<close> takes. The application feeds audio at any
  time; it starts and stops the session from one goroutine.
\<close>

section \<open>State\<close>

datatype SessionState = StateIdle | StateListening | StateThinking | StateSpeaking

type_synonym sample = u32

text \<open>What the client receives; a frame of audio with whether sending it succeeded.\<close>

datatype AgentOut =
    OutState SessionState SessionState
  | OutAsr string
  | OutLlm string
  | OutAudio "sample list" bool
  | OutBargeIn

record SessionConfig =
  sc_SampleRate :: u32
  sc_Channels :: u16
  sc_FrameMs :: u16
  sc_TurnConfig :: TurnConfig

definition DefaultSessionConfig :: SessionConfig where
  "DefaultSessionConfig =
     \<lparr>sc_SampleRate = 16000, sc_Channels = 1, sc_FrameMs = 20, sc_TurnConfig = DefaultTurnConfig\<rparr>"

text \<open>
  Where the goroutine is: not running, in the \<open>select\<close> of \<open>Run\<close>, waiting for a plugin inside
  \<open>handleTurn\<close>, or in \<open>speak\<close> before the frame at an offset or waiting after it.
\<close>

datatype agent_pc =
    PNone | PSelect | PASR "sample list" | PLLM string | PTTS string
  | PSpeak "sample list" nat | PWait "sample list" nat

record AgentSession =
  ag_config :: SessionConfig
  ag_sink :: bool
  ag_turn :: TurnManager
  ag_state :: SessionState
  ag_cancel :: bool
  ag_ctxDone :: bool
  ag_stopping :: bool
  ag_closed :: bool
  ag_audioBuffer :: "sample list"
  ag_audioIn :: "sample list list"
  ag_speechEndCh :: bool
  ag_bargeInCh :: bool
  ag_bargeInFlag :: bool
  ag_speakCancel :: bool
  ag_pc :: agent_pc

type_synonym agent_result = "AgentOut list \<times> AgentSession"

definition NewAgentSession :: "SessionConfig \<Rightarrow> bool \<Rightarrow> AgentSession" where
  "NewAgentSession config sink =
     \<lparr>ag_config = config, ag_sink = sink, ag_turn = NewTurnManager (sc_TurnConfig config), ag_state = StateIdle,
      ag_cancel = False, ag_ctxDone = False, ag_stopping = False, ag_closed = False, ag_audioBuffer = [],
      ag_audioIn = [], ag_speechEndCh = False, ag_bargeInCh = False, ag_bargeInFlag = False,
      ag_speakCancel = False, ag_pc = PNone\<rparr>"

text \<open>The constructor: every plugin must be loaded.\<close>

datatype agent_error = AsrMissing | TtsMissing | LlmMissing | DetectorMissing | SessionClosed | AlreadyStarted

definition openAgentSession ::
  "bool \<Rightarrow> bool \<Rightarrow> bool \<Rightarrow> bool \<Rightarrow> SessionConfig \<Rightarrow> bool \<Rightarrow> agent_error + AgentSession" where
  "openAgentSession asr tts llm detector config sink =
     (if \<not> asr then Inl AsrMissing else if \<not> tts then Inl TtsMissing
      else if \<not> llm then Inl LlmMissing else if \<not> detector then Inl DetectorMissing
      else Inr (NewAgentSession config sink))"

section \<open>The session\<close>

definition emit :: "AgentOut \<Rightarrow> AgentSession \<Rightarrow> AgentOut list" where
  "emit x a = (if ag_sink a then [x] else [])"

definition setState :: "SessionState \<Rightarrow> AgentSession \<Rightarrow> agent_result" where
  "setState new a =
     (if ag_state a \<noteq> new then emit (OutState (ag_state a) new) a else [], a\<lparr>ag_state := new\<rparr>)"

definition loopFeedAudio :: "sample list \<Rightarrow> AgentSession \<Rightarrow> AgentSession" where
  "loopFeedAudio audio a =
     (if length (ag_audioIn a) < 256 then a\<lparr>ag_audioIn := ag_audioIn a @ [audio]\<rparr> else a)"

definition FeedAudio :: "sample list \<Rightarrow> AgentSession \<Rightarrow> AgentSession" where
  "FeedAudio audio a = (if length audio = 0 then a else loopFeedAudio audio a)"

definition OnSpeechEnd :: "AgentSession \<Rightarrow> AgentSession" where
  "OnSpeechEnd a = a\<lparr>ag_speechEndCh := True\<rparr>"

definition BargeIn :: "AgentSession \<Rightarrow> AgentSession" where
  "BargeIn a = a\<lparr>ag_bargeInFlag := True, ag_bargeInCh := True\<rparr>"

definition appendAudio :: "sample list \<Rightarrow> AgentSession \<Rightarrow> AgentSession" where
  "appendAudio audio a = a\<lparr>ag_audioBuffer := ag_audioBuffer a @ audio\<rparr>"

definition drainAudio :: "AgentSession \<Rightarrow> sample list \<times> AgentSession" where
  "drainAudio a = (ag_audioBuffer a, a\<lparr>ag_audioBuffer := []\<rparr>)"

definition resetAudioBuffer :: "AgentSession \<Rightarrow> AgentSession" where
  "resetAudioBuffer a = a\<lparr>ag_audioBuffer := []\<rparr>"

fun onTurnEvent :: "TurnEvent \<Rightarrow> AgentSession \<Rightarrow> agent_result" where
  "onTurnEvent TurnEventSpeechStart a =
     (if ag_state a = StateSpeaking then (emit OutBargeIn a, BargeIn a) else ([], a))"
| "onTurnEvent TurnEventSpeechEnd a = ([], OnSpeechEnd a)"
| "onTurnEvent TurnEventTurnTimeout a = ([], OnSpeechEnd a)"

fun onTurnEvents :: "TurnEvent list \<Rightarrow> AgentSession \<Rightarrow> agent_result" where
  "onTurnEvents [] a = ([], a)"
| "onTurnEvents (e # es) a =
     (let (out1, a) = onTurnEvent e a; (out2, a) = onTurnEvents es a in (out1 @ out2, a))"

text \<open>\<open>Process\<close> of the turn manager with the session's callback.\<close>

definition turnProcess :: "int \<Rightarrow> bool \<Rightarrow> AgentSession \<Rightarrow> agent_result" where
  "turnProcess now speaking a =
     (let (es, tm) = processLocked now speaking (ag_turn a) in onTurnEvents es (a\<lparr>ag_turn := tm\<rparr>))"

section \<open>The loop\<close>

text \<open>
  \<open>vad\<close> is the result of the detector: \<open>None\<close> for an error, otherwise whether the frame is speech and
  whether its energy exceeds 0.02.
\<close>

definition handleAudioFrame :: "int \<Rightarrow> (bool \<times> bool) option \<Rightarrow> sample list \<Rightarrow> AgentSession \<Rightarrow> agent_result" where
  "handleAudioFrame now vad audio a =
     (case vad of
        None \<Rightarrow> ([], a)
      | Some (speaking, loud) \<Rightarrow>
          if ag_state a = StateSpeaking then ([], if speaking \<and> loud then BargeIn a else a)
          else turnProcess now speaking (appendAudio audio a))"

text \<open>\<open>handleTurn\<close>, cut at the calls of the plugins. A turn ends by listening again.\<close>

definition listenAgain :: "AgentSession \<Rightarrow> agent_result" where
  "listenAgain a = setState StateListening (a\<lparr>ag_pc := PSelect\<rparr>)"

definition handleTurn :: "AgentSession \<Rightarrow> agent_result" where
  "handleTurn a =
     (let (audio, a) = drainAudio a in
      if length audio = 0 then ([], a) else setState StateThinking (a\<lparr>ag_pc := PASR audio\<rparr>))"

definition afterASR :: "string option \<Rightarrow> AgentSession \<Rightarrow> agent_result" where
  "afterASR res a =
     (case res of
        None \<Rightarrow> listenAgain (resetAudioBuffer a)
      | Some text \<Rightarrow>
          let out = emit (OutAsr text) a in
          if ag_bargeInFlag a then
            let (out', a) = listenAgain (a\<lparr>ag_bargeInFlag := False\<rparr>) in (out @ out', a)
          else (out, a\<lparr>ag_pc := PLLM text\<rparr>))"

definition afterLLM :: "string option \<Rightarrow> AgentSession \<Rightarrow> agent_result" where
  "afterLLM res a =
     (case res of
        None \<Rightarrow> listenAgain a
      | Some text \<Rightarrow>
          let out = emit (OutLlm text) a in
          if ag_bargeInFlag a then
            let (out', a) = listenAgain (a\<lparr>ag_bargeInFlag := False\<rparr>) in (out @ out', a)
          else (out, a\<lparr>ag_pc := PTTS text\<rparr>))"

text \<open>What \<open>handleTurn\<close> does after \<open>speak\<close> has returned.\<close>

definition endSpeak :: "AgentSession \<Rightarrow> agent_result" where
  "endSpeak a = listenAgain (a\<lparr>ag_speakCancel := False, ag_bargeInFlag := False\<rparr>)"

definition afterTTS :: "sample list option \<Rightarrow> AgentSession \<Rightarrow> agent_result" where
  "afterTTS res a =
     (case res of
        None \<Rightarrow> listenAgain a
      | Some audio \<Rightarrow>
          let (out, a) = setState StateSpeaking a in
          if length audio = 0 then let (out', a) = endSpeak a in (out @ out', a)
          else (out, a\<lparr>ag_speakCancel := True, ag_pc := PSpeak audio 0\<rparr>))"

text \<open>The product of rate and duration is below 2 to the 48, so the floating-point division is exact enough to truncate like this.\<close>

definition samplesPerFrame :: "SessionConfig \<Rightarrow> nat" where
  "samplesPerFrame cfg =
     (let n = unat (sc_SampleRate cfg) * unat (sc_FrameMs cfg) div 1000 in if n = 0 then 320 else n)"

text \<open>The body of the loop of \<open>speak\<close> up to its \<open>select\<close>; \<open>ok\<close> is whether the client takes the frame.\<close>

definition speakFrame :: "bool \<Rightarrow> sample list \<Rightarrow> nat \<Rightarrow> AgentSession \<Rightarrow> agent_result" where
  "speakFrame ok audio offset a =
     (if offset \<ge> length audio then endSpeak a
      else if ag_bargeInFlag a then endSpeak a
      else if ag_ctxDone a then endSpeak a
      else
        let end = min (offset + samplesPerFrame (ag_config a)) (length audio);
            frame = take (end - offset) (drop offset audio);
            out = emit (OutAudio frame ok) a in
        if ag_sink a \<and> \<not> ok then let (out', a) = endSpeak a in (out @ out', a)
        else (out, a\<lparr>ag_pc := PWait audio (offset + samplesPerFrame (ag_config a))\<rparr>))"

text \<open>What happens next: the case a \<open>select\<close> takes, or the result of the call that is under way.\<close>

datatype AgentMove =
    SelCtx | SelAudio int "(bool \<times> bool) option" | SelSpeechEnd | SelBargeIn
  | Recognized "string option" | Generated "string option" | Synthesized "sample list option"
  | Sent bool | WaitCtx | WaitBargeIn | WaitTimer

fun agentRun :: "AgentMove \<Rightarrow> AgentSession \<Rightarrow> agent_result option" where
  "agentRun SelCtx a =
     (if ag_pc a = PSelect \<and> ag_ctxDone a then Some ([], a\<lparr>ag_speakCancel := False, ag_pc := PNone\<rparr>) else None)"
| "agentRun (SelAudio now vad) a =
     (case ag_audioIn a of
        audio # rest \<Rightarrow>
          if ag_pc a = PSelect then Some (handleAudioFrame now vad audio (a\<lparr>ag_audioIn := rest\<rparr>)) else None
      | [] \<Rightarrow> None)"
| "agentRun SelSpeechEnd a =
     (if ag_pc a = PSelect \<and> ag_speechEndCh a then Some (handleTurn (a\<lparr>ag_speechEndCh := False\<rparr>)) else None)"
| "agentRun SelBargeIn a =
     (if ag_pc a = PSelect \<and> ag_bargeInCh a then Some ([], a\<lparr>ag_bargeInCh := False\<rparr>) else None)"
| "agentRun (Recognized res) a = (case ag_pc a of PASR audio \<Rightarrow> Some (afterASR res a) | _ \<Rightarrow> None)"
| "agentRun (Generated res) a = (case ag_pc a of PLLM text \<Rightarrow> Some (afterLLM res a) | _ \<Rightarrow> None)"
| "agentRun (Synthesized res) a = (case ag_pc a of PTTS text \<Rightarrow> Some (afterTTS res a) | _ \<Rightarrow> None)"
| "agentRun (Sent ok) a = (case ag_pc a of PSpeak audio offset \<Rightarrow> Some (speakFrame ok audio offset a) | _ \<Rightarrow> None)"
| "agentRun WaitCtx a =
     (case ag_pc a of PWait audio offset \<Rightarrow> if ag_ctxDone a then Some (endSpeak a) else None | _ \<Rightarrow> None)"
| "agentRun WaitBargeIn a =
     (case ag_pc a of
        PWait audio offset \<Rightarrow> if ag_bargeInCh a then Some (endSpeak (a\<lparr>ag_bargeInCh := False\<rparr>)) else None
      | _ \<Rightarrow> None)"
| "agentRun WaitTimer a =
     (case ag_pc a of PWait audio offset \<Rightarrow> Some ([], a\<lparr>ag_pc := PSpeak audio offset\<rparr>) | _ \<Rightarrow> None)"

section \<open>Starting and stopping\<close>

definition agentStart :: "AgentSession \<Rightarrow> agent_error option \<times> agent_result" where
  "agentStart a =
     (if ag_closed a then (Some SessionClosed, [], a)
      else if ag_cancel a then (Some AlreadyStarted, [], a)
      else (None, setState StateListening (a\<lparr>ag_cancel := True, ag_ctxDone := False, ag_pc := PSelect\<rparr>)))"

text \<open>\<open>Stop\<close> up to its wait for the goroutine, and after it; \<open>Destroy\<close> marks the session as closed as well.\<close>

definition stopBegin :: "AgentSession \<Rightarrow> AgentSession" where
  "stopBegin a = a\<lparr>ag_ctxDone := (ag_cancel a \<or> ag_ctxDone a), ag_cancel := False, ag_stopping := True\<rparr>"

definition stopEnd :: "bool \<Rightarrow> AgentSession \<Rightarrow> agent_result" where
  "stopEnd destroy a =
     (let (out, a) = setState StateIdle (a\<lparr>ag_stopping := False\<rparr>) in
      (out, if destroy then a\<lparr>ag_closed := True\<rparr> else a))"

inductive agent_step :: "AgentSession \<Rightarrow> AgentOut list \<Rightarrow> AgentSession \<Rightarrow> bool" where
  feed: "agent_step a [] (FeedAudio audio a)"
| start: "\<not> ag_stopping a \<Longrightarrow> agentStart a = (e, out, a') \<Longrightarrow> agent_step a out a'"
| stop: "\<not> ag_stopping a \<Longrightarrow> agent_step a [] (stopBegin a)"
| stopped: "ag_stopping a \<Longrightarrow> ag_pc a = PNone \<Longrightarrow> stopEnd destroy a = (out, a') \<Longrightarrow> agent_step a out a'"
| run: "agentRun m a = Some (out, a') \<Longrightarrow> agent_step a out a'"

inductive agent_reach :: "AgentSession \<Rightarrow> AgentOut list \<Rightarrow> bool" where
  new: "agent_reach (NewAgentSession config sink) []"
| step: "agent_reach a tr \<Longrightarrow> agent_step a out a' \<Longrightarrow> agent_reach a' (tr @ out)"

text \<open>A run given by the calls of the application and the moves of the goroutine.\<close>

datatype AgentDo = DoFeed "sample list" | DoStart | DoMove AgentMove

fun agentDo :: "AgentDo \<Rightarrow> AgentSession \<times> AgentOut list \<Rightarrow> (AgentSession \<times> AgentOut list) option" where
  "agentDo (DoFeed audio) (a, tr) = Some (FeedAudio audio a, tr)"
| "agentDo DoStart (a, tr) =
     (if ag_stopping a then None else (case agentStart a of (e, out, a) \<Rightarrow> Some (a, tr @ out)))"
| "agentDo (DoMove m) (a, tr) = (case agentRun m a of None \<Rightarrow> None | Some (out, a) \<Rightarrow> Some (a, tr @ out))"

fun agentDos :: "AgentDo list \<Rightarrow> AgentSession \<times> AgentOut list \<Rightarrow> (AgentSession \<times> AgentOut list) option" where
  "agentDos [] x = Some x"
| "agentDos (d # ds) x = Option.bind (agentDo d x) (agentDos ds)"

text \<open>A session that reacts to one frame of speech and one of silence, and plays frames of one sample.\<close>

definition quick_session :: AgentSession where
  "quick_session = NewAgentSession
     \<lparr>sc_SampleRate = 1000, sc_Channels = 1, sc_FrameMs = 1,
      sc_TurnConfig = \<lparr>tc_SpeechStartFrames = 1, tc_SilenceEndFrames = 1, tc_MinTurnDuration = 1, tc_MaxTurnDuration = 1000\<rparr>\<rparr> True"

definition quick_turn :: "AgentDo list" where
  "quick_turn =
     [DoStart, DoFeed [1], DoMove (SelAudio 0 (Some (True, True))), DoFeed [2],
      DoMove (SelAudio 5 (Some (False, False))), DoMove SelSpeechEnd, DoMove (Recognized (Some ''hi'')),
      DoMove (Generated (Some ''hello'')), DoMove (Synthesized (Some [7, 8])), DoMove (Sent True)]"

section \<open>Specification\<close>

text \<open>A conversation as the client sees it; while the agent speaks, with the audio played so far.\<close>

datatype View = VIdle | VListening | VThinking | VHeard | VReplied | VSpeaking "sample list"

fun view_step :: "View \<Rightarrow> AgentOut \<Rightarrow> View option" where
  "view_step VIdle (OutState StateIdle StateListening) = Some VListening"
| "view_step VListening (OutState StateListening StateIdle) = Some VIdle"
| "view_step VListening (OutState StateListening StateThinking) = Some VThinking"
| "view_step VThinking (OutState StateThinking StateListening) = Some VListening"
| "view_step VThinking (OutAsr text) = Some VHeard"
| "view_step VHeard (OutState StateThinking StateListening) = Some VListening"
| "view_step VHeard (OutLlm text) = Some VReplied"
| "view_step VReplied (OutState StateThinking StateListening) = Some VListening"
| "view_step VReplied (OutState StateThinking StateSpeaking) = Some (VSpeaking [])"
| "view_step (VSpeaking played) (OutAudio frame ok) = Some (VSpeaking (played @ frame))"
| "view_step (VSpeaking played) (OutState StateSpeaking StateListening) = Some VListening"
| "view_step _ _ = None"

fun view_steps :: "View \<Rightarrow> AgentOut list \<Rightarrow> View option" where
  "view_steps v [] = Some v"
| "view_steps v (x # xs) = (case view_step v x of None \<Rightarrow> None | Some v \<Rightarrow> view_steps v xs)"

definition agent_view :: "AgentSession \<Rightarrow> View" where
  "agent_view a =
     (case ag_pc a of
        PNone \<Rightarrow> if ag_state a = StateIdle then VIdle else VListening
      | PSelect \<Rightarrow> VListening
      | PASR audio \<Rightarrow> VThinking
      | PLLM text \<Rightarrow> VHeard
      | PTTS text \<Rightarrow> VReplied
      | PSpeak audio offset \<Rightarrow> VSpeaking (take offset audio)
      | PWait audio offset \<Rightarrow> VSpeaking (take offset audio))"

definition pc_state :: "AgentSession \<Rightarrow> bool" where
  "pc_state a \<longleftrightarrow>
     (case ag_pc a of
        PNone \<Rightarrow> ag_state a = StateIdle \<and> \<not> ag_cancel a \<or> ag_state a = StateListening \<and> ag_stopping a
      | PSelect \<Rightarrow> ag_state a = StateListening
      | PSpeak audio offset \<Rightarrow> ag_state a = StateSpeaking
      | PWait audio offset \<Rightarrow> ag_state a = StateSpeaking
      | _ \<Rightarrow> ag_state a = StateThinking)"

definition agent_inv :: "AgentSession \<Rightarrow> bool" where
  "agent_inv a \<longleftrightarrow>
     pc_state a \<and> \<not> ag_bargeInFlag a \<and> \<not> ag_bargeInCh a \<and>
     (ag_pc a \<noteq> PNone \<longrightarrow> ag_cancel a \<or> ag_stopping a \<and> ag_ctxDone a) \<and> (ag_stopping a \<or> ag_ctxDone a \<longrightarrow> \<not> ag_cancel a)"

section \<open>The loop follows the specification\<close>

lemma onTurnEvents_listening:
  "ag_state a \<noteq> StateSpeaking \<Longrightarrow> \<exists>b. onTurnEvents es a = ([], a\<lparr>ag_speechEndCh := b\<rparr>)"
proof (induction es arbitrary: a)
  case Nil
  show ?case by (intro exI [of _ "ag_speechEndCh a"]) simp
next
  case (Cons e es)
  show ?case
  proof (cases e)
    case TurnEventSpeechStart
    then show ?thesis using Cons by auto
  qed (use Cons.IH [of "OnSpeechEnd a"] Cons.prems in \<open>auto simp: OnSpeechEnd_def\<close>)
qed

lemma handleAudioFrame_listening:
  assumes "ag_state a \<noteq> StateSpeaking"
  shows "\<exists>b tm buf. handleAudioFrame now vad audio a = ([], a\<lparr>ag_audioBuffer := buf, ag_turn := tm, ag_speechEndCh := b\<rparr>)"
proof (cases vad)
  case None
  then show ?thesis
    by (intro exI [of _ "ag_speechEndCh a"] exI [of _ "ag_turn a"] exI [of _ "ag_audioBuffer a"]) (simp add: handleAudioFrame_def)
next
  case (Some r)
  obtain speaking loud where r: "r = (speaking, loud)" by (cases r)
  obtain es tm where p: "processLocked now speaking (ag_turn a) = (es, tm)" by (cases "processLocked now speaking (ag_turn a)")
  let ?a = "a\<lparr>ag_audioBuffer := ag_audioBuffer a @ audio, ag_turn := tm\<rparr>"
  obtain b where "onTurnEvents es ?a = ([], ?a\<lparr>ag_speechEndCh := b\<rparr>)"
    using onTurnEvents_listening [of ?a es] assms by auto
  then show ?thesis
    using assms p Some r
    by (intro exI [of _ b] exI [of _ tm] exI [of _ "ag_audioBuffer a @ audio"])
      (simp add: handleAudioFrame_def turnProcess_def appendAudio_def)
qed

lemma frame_taken:
  "take offset audio @ take (min (offset + n) (length audio) - offset) (drop offset audio) = take (offset + n) audio"
  by (cases "offset + n \<le> length audio") (simp_all add: take_add min_def)

definition agent_ok :: "AgentSession \<Rightarrow> AgentOut list \<Rightarrow> AgentSession \<Rightarrow> bool" where
  "agent_ok a out a' \<longleftrightarrow>
     agent_inv a' \<and> ag_sink a' = ag_sink a \<and>
     (ag_sink a \<longrightarrow> view_steps (agent_view a) out = Some (agent_view a')) \<and> OutBargeIn \<notin> set out"

lemma view_steps_append:
  "view_steps v (xs @ ys) = (case view_steps v xs of None \<Rightarrow> None | Some v \<Rightarrow> view_steps v ys)"
  by (induction xs arbitrary: v) (auto split: option.splits)

lemma agent_ok_trans: "agent_ok a out b \<Longrightarrow> agent_ok b out' c \<Longrightarrow> agent_ok a (out @ out') c"
  by (auto simp: agent_ok_def view_steps_append)

lemma agent_inv_fields [simp]:
  "agent_inv (a\<lparr>ag_audioBuffer := x\<rparr>) = agent_inv a" "agent_inv (a\<lparr>ag_speakCancel := b\<rparr>) = agent_inv a"
  "agent_inv (a\<lparr>ag_audioIn := q\<rparr>) = agent_inv a" "agent_inv (a\<lparr>ag_turn := tm\<rparr>) = agent_inv a"
  "agent_inv (a\<lparr>ag_speechEndCh := b\<rparr>) = agent_inv a"
  by (simp_all add: agent_inv_def pc_state_def cong: agent_pc.case_cong)

lemma agent_view_fields [simp]:
  "agent_view (a\<lparr>ag_audioBuffer := x\<rparr>) = agent_view a" "agent_view (a\<lparr>ag_speakCancel := b\<rparr>) = agent_view a"
  "agent_view (a\<lparr>ag_audioIn := q\<rparr>) = agent_view a" "agent_view (a\<lparr>ag_turn := tm\<rparr>) = agent_view a"
  "agent_view (a\<lparr>ag_speechEndCh := b\<rparr>) = agent_view a"
  by (simp_all add: agent_view_def cong: agent_pc.case_cong)

lemma listen_ok:
  assumes "agent_inv a" "ag_pc a \<noteq> PNone" "ag_pc a \<noteq> PSelect"
  shows "agent_ok a (fst (listenAgain a)) (snd (listenAgain a))"
  using assms
  by (cases "ag_pc a") (simp_all add: agent_ok_def agent_inv_def pc_state_def agent_view_def listenAgain_def setState_def emit_def)

lemma busy_flags:
  assumes "agent_inv a"
  shows "\<not> ag_bargeInFlag a" "\<not> ag_bargeInCh a" "a\<lparr>ag_bargeInFlag := False\<rparr> = a"
  using assms by (simp_all add: agent_inv_def)

lemma endSpeak_ok:
  assumes "agent_inv a" "ag_pc a \<noteq> PNone" "ag_pc a \<noteq> PSelect"
  shows "agent_ok a (fst (endSpeak a)) (snd (endSpeak a))"
proof -
  let ?b = "a\<lparr>ag_speakCancel := False, ag_bargeInFlag := False\<rparr>"
  have "agent_inv ?b" using assms(1) by (simp add: agent_inv_def pc_state_def cong: agent_pc.case_cong)
  then have "agent_ok ?b (fst (listenAgain ?b)) (snd (listenAgain ?b))" using assms(2,3) by (intro listen_ok) simp_all
  then show ?thesis by (simp add: endSpeak_def agent_ok_def agent_view_def cong: agent_pc.case_cong)
qed

text \<open>The goroutine moves on inside a turn.\<close>

lemma pc_ok:
  assumes "agent_inv a" "ag_pc a \<noteq> PNone" "pc \<noteq> PNone" "pc_state (a\<lparr>ag_pc := pc\<rparr>)"
    "ag_sink a \<longrightarrow> view_steps (agent_view a) out = Some (agent_view (a\<lparr>ag_pc := pc\<rparr>))" "OutBargeIn \<notin> set out"
  shows "agent_ok a out (a\<lparr>ag_pc := pc\<rparr>)"
  using assms by (simp add: agent_ok_def agent_inv_def)

lemma plugin_ok:
  assumes inv: "agent_inv a"
  shows "ag_pc a = PASR audio \<Longrightarrow> afterASR res a = (out, a') \<Longrightarrow> agent_ok a out a'"
    "ag_pc a = PLLM text \<Longrightarrow> afterLLM res a = (out, a') \<Longrightarrow> agent_ok a out a'"
proof -
  assume p: "ag_pc a = PASR audio" "afterASR res a = (out, a')"
  show "agent_ok a out a'"
  proof (cases res)
    case None
    have "agent_ok (resetAudioBuffer a) (fst (listenAgain (resetAudioBuffer a))) (snd (listenAgain (resetAudioBuffer a)))"
      using inv p(1) by (intro listen_ok) (simp_all add: resetAudioBuffer_def)
    then show ?thesis using None p(2) by (simp add: afterASR_def agent_ok_def resetAudioBuffer_def)
  next
    case (Some x)
    then have "out = emit (OutAsr x) a" "a' = a\<lparr>ag_pc := PLLM x\<rparr>"
      using p(2) busy_flags [OF inv] by (simp_all add: afterASR_def)
    moreover have "agent_ok a (emit (OutAsr x) a) (a\<lparr>ag_pc := PLLM x\<rparr>)"
      using inv p(1) by (intro pc_ok) (simp_all add: agent_inv_def pc_state_def agent_view_def emit_def)
    ultimately show ?thesis by simp
  qed
next
  assume p: "ag_pc a = PLLM text" "afterLLM res a = (out, a')"
  show "agent_ok a out a'"
  proof (cases res)
    case None
    then show ?thesis using listen_ok [OF inv] p by (simp add: afterLLM_def)
  next
    case (Some x)
    then have "out = emit (OutLlm x) a" "a' = a\<lparr>ag_pc := PTTS x\<rparr>"
      using p(2) busy_flags [OF inv] by (simp_all add: afterLLM_def)
    moreover have "agent_ok a (emit (OutLlm x) a) (a\<lparr>ag_pc := PTTS x\<rparr>)"
      using inv p(1) by (intro pc_ok) (simp_all add: agent_inv_def pc_state_def agent_view_def emit_def)
    ultimately show ?thesis by simp
  qed
qed

lemma speak_ok:
  assumes inv: "agent_inv a"
  shows "ag_pc a = PTTS text \<Longrightarrow> afterTTS res a = (out, a') \<Longrightarrow> agent_ok a out a'"
    "ag_pc a = PSpeak audio offset \<Longrightarrow> speakFrame ok audio offset a = (out, a') \<Longrightarrow> agent_ok a out a'"
proof -
  assume p: "ag_pc a = PTTS text" "afterTTS res a = (out, a')"
  show "agent_ok a out a'"
  proof (cases res)
    case None
    then show ?thesis using listen_ok [OF inv] p by (simp add: afterTTS_def)
  next
    case (Some audio)
    let ?b = "a\<lparr>ag_state := StateSpeaking, ag_pc := PSpeak audio 0\<rparr>" and ?o = "fst (setState StateSpeaking a)"
    have st: "ag_state a = StateThinking" using inv p(1) by (simp add: agent_inv_def pc_state_def)
    have 1: "agent_ok a ?o ?b"
      using inv p(1) st by (simp add: agent_ok_def agent_inv_def pc_state_def agent_view_def setState_def emit_def)
    then have b: "agent_inv ?b" by (simp add: agent_ok_def)
    have e: "endSpeak (a\<lparr>ag_state := StateSpeaking\<rparr>) = endSpeak ?b" by (simp add: endSpeak_def listenAgain_def)
    show ?thesis
    proof (cases "audio = []")
      case True
      then have "out = ?o @ fst (endSpeak ?b)" "a' = snd (endSpeak ?b)"
        using p(2) Some e by (auto simp: afterTTS_def setState_def case_prod_unfold Let_def)
      then show ?thesis using agent_ok_trans [OF 1 endSpeak_ok [OF b]] by simp
    next
      case False
      then have "out = ?o" "a' = ?b\<lparr>ag_speakCancel := True\<rparr>" using p(2) Some by (auto simp: afterTTS_def setState_def)
      then show ?thesis using 1 by (simp add: agent_ok_def)
    qed
  qed
next
  assume p: "ag_pc a = PSpeak audio offset" "speakFrame ok audio offset a = (out, a')"
  let ?n = "samplesPerFrame (ag_config a)"
  let ?f = "take (min (offset + ?n) (length audio) - offset) (drop offset audio)" and ?b = "a\<lparr>ag_pc := PWait audio (offset + ?n)\<rparr>"
  have E: "agent_ok a (fst (endSpeak a)) (snd (endSpeak a))" using endSpeak_ok [OF inv] p(1) by simp
  have 1: "agent_ok a (emit (OutAudio ?f ok) a) ?b"
    using inv p(1) by (intro pc_ok) (simp_all add: agent_inv_def pc_state_def agent_view_def emit_def frame_taken)
  then have 2: "agent_ok ?b (fst (endSpeak ?b)) (snd (endSpeak ?b))" by (intro endSpeak_ok) (simp_all add: agent_ok_def)
  have e: "endSpeak ?b = endSpeak a" by (simp add: endSpeak_def listenAgain_def)
  show "agent_ok a out a'"
    using p(2) E 1 agent_ok_trans [OF 1 2] unfolding e speakFrame_def Let_def
    by (auto simp: case_prod_unfold split: if_splits)
qed

lemma agentRun_ok:
  assumes inv: "agent_inv a" and step: "agentRun m a = Some (out, a')"
  shows "agent_ok a out a'"
proof (cases m)
  case SelCtx
  then show ?thesis
    using inv step by (auto simp: agent_ok_def agent_inv_def pc_state_def agent_view_def split: if_splits)
next
  case (SelAudio now vad)
  then obtain audio rest where q: "ag_audioIn a = audio # rest" "ag_pc a = PSelect"
    "handleAudioFrame now vad audio (a\<lparr>ag_audioIn := rest\<rparr>) = (out, a')"
    using step by (auto split: list.splits if_splits)
  have "ag_state (a\<lparr>ag_audioIn := rest\<rparr>) \<noteq> StateSpeaking" using inv q(2) by (simp add: agent_inv_def pc_state_def)
  from handleAudioFrame_listening [OF this, of now vad audio] q(3) inv
  show ?thesis by (auto simp: agent_ok_def)
next
  case SelSpeechEnd
  then have q: "ag_pc a = PSelect" "handleTurn (a\<lparr>ag_speechEndCh := False\<rparr>) = (out, a')" using step by (auto split: if_splits)
  have "ag_state a = StateListening" using inv q(1) by (simp add: agent_inv_def pc_state_def)
  with q inv show ?thesis
    by (auto simp: handleTurn_def drainAudio_def agent_ok_def agent_inv_def pc_state_def agent_view_def setState_def emit_def
        split: if_splits)
next
  case SelBargeIn
  then show ?thesis using step busy_flags [OF inv] by simp
next
  case (Recognized res)
  then show ?thesis using step plugin_ok(1) [OF inv] by (auto split: agent_pc.splits)
next
  case (Generated res)
  then show ?thesis using step plugin_ok(2) [OF inv] by (auto split: agent_pc.splits)
next
  case (Synthesized res)
  then show ?thesis using step speak_ok(1) [OF inv] by (auto split: agent_pc.splits)
next
  case (Sent ok)
  then show ?thesis using step speak_ok(2) [OF inv] by (auto split: agent_pc.splits)
next
  case WaitCtx
  then show ?thesis
    using step endSpeak_ok [OF inv] by (auto split: agent_pc.splits if_splits)
next
  case WaitBargeIn
  then show ?thesis using step busy_flags [OF inv] by (auto split: agent_pc.splits)
next
  case WaitTimer
  then show ?thesis
    using inv step by (auto simp: agent_ok_def agent_inv_def pc_state_def agent_view_def split: agent_pc.splits)
qed

lemma agent_step_ok: "agent_step a out a' \<Longrightarrow> agent_inv a \<Longrightarrow> agent_ok a out a'"
proof (induction rule: agent_step.induct)
  case (feed a audio)
  then show ?case by (simp add: FeedAudio_def loopFeedAudio_def agent_ok_def)
next
  case (start a e out a')
  then show ?case
    by (cases "ag_pc a") (auto simp: agentStart_def agent_ok_def agent_inv_def pc_state_def agent_view_def setState_def emit_def
        split: if_splits)
next
  case (stop a)
  then show ?case
    by (cases "ag_pc a") (auto simp: stopBegin_def agent_ok_def agent_inv_def pc_state_def agent_view_def)
next
  case (stopped a destroy out a')
  then show ?case
    by (auto simp: stopEnd_def agent_ok_def agent_inv_def pc_state_def agent_view_def setState_def emit_def split: if_splits)
next
  case (run m a out a')
  then show ?case by (intro agentRun_ok)
qed

lemma agent_reach_ok:
  "agent_reach a tr \<Longrightarrow> agent_inv a \<and> (ag_sink a \<longrightarrow> view_steps VIdle tr = Some (agent_view a)) \<and> OutBargeIn \<notin> set tr"
proof (induction rule: agent_reach.induct)
  case (new config sink)
  show ?case by (simp add: agent_inv_def pc_state_def agent_view_def NewAgentSession_def)
next
  case (step a tr out a')
  then show ?case using agent_step_ok [of a out a'] by (auto simp: agent_ok_def view_steps_append)
qed

lemma agentDos_reach: "agentDos ds (a, tr) = Some (a', tr') \<Longrightarrow> agent_reach a tr \<Longrightarrow> agent_reach a' tr'"
proof (induction ds arbitrary: a tr)
  case (Cons d ds)
  then obtain b tr1 where d: "agentDo d (a, tr) = Some (b, tr1)" "agentDos ds (b, tr1) = Some (a', tr')"
    by (cases "agentDo d (a, tr)") auto
  have "\<exists>out. tr1 = tr @ out \<and> agent_step a out b"
    using d(1) by (cases d) (auto split: if_splits prod.splits option.splits intro: agent_step.intros)
  then show ?case using Cons.IH [OF d(2)] Cons.prems(2) agent_reach.step by blast
qed simp

lemma quick_reach: "agentDos ds (quick_session, []) = Some (a, tr) \<Longrightarrow> agent_reach a tr"
  using agentDos_reach agent_reach.new unfolding quick_session_def by blast

lemmas quick_eval = quick_session_def quick_turn_def NewAgentSession_def NewTurnManager_def orElse_def agentStart_def
  setState_def emit_def FeedAudio_def loopFeedAudio_def handleAudioFrame_def appendAudio_def turnProcess_def processLocked_def
  processIdle_def processListening_def turnIdle_def time_Sub_def OnSpeechEnd_def handleTurn_def drainAudio_def afterASR_def
  afterLLM_def afterTTS_def speakFrame_def samplesPerFrame_def Let_def

section \<open>What the client can rely on\<close>

text \<open>
  C8. In every run the client sees a well-formed conversation: the agent listens, thinks, sends what it
  heard, then what it answers, then speaks, and returns to listening from each of these; audio is
  sent only while it speaks, and what has been played is at every moment a prefix of the
  synthesised answer, in order and without gaps.
\<close>

theorem agent_contract:
  assumes "agent_reach a tr" "ag_sink a"
  shows "view_steps VIdle tr = Some (agent_view a)"
  using agent_reach_ok [OF assms(1)] assms(2) by blast

theorem agent_contract_witness:
  "\<exists>a. agentDos quick_turn (quick_session, []) =
      Some (a, [OutState StateIdle StateListening, OutState StateListening StateThinking, OutAsr ''hi'', OutLlm ''hello'',
        OutState StateThinking StateSpeaking, OutAudio [7] True]) \<and>
    agent_view a = VSpeaking [7]"
proof -
  let ?tr = "[OutState StateIdle StateListening, OutState StateListening StateThinking, OutAsr ''hi'', OutLlm ''hello'',
    OutState StateThinking StateSpeaking, OutAudio [7] True]"
  obtain a where a: "agentDos quick_turn (quick_session, []) = Some (a, ?tr)"
    "ag_sink a"
    by (simp add: quick_eval)
  then show ?thesis using agent_contract [OF quick_reach [OF a(1)] a(2)] by auto
qed

text \<open>
  C18. The agent cannot be interrupted. Barge-in is checked at every frame of playback, but in no reachable
  state is it pending, and no client is ever told of one: the goroutine that would notice the
  user's voice is the one that plays the answer. So playback ends only at the end of the answer, by
  stopping the session, or when the client fails to take a frame.
\<close>

theorem agent_never_interrupted:
  assumes "agent_reach a tr"
  shows "OutBargeIn \<notin> set tr \<and> \<not> ag_bargeInFlag a \<and> \<not> ag_bargeInCh a \<and>
    (\<forall>m out a' audio offset. agentRun m a = Some (out, a') \<and> ag_pc a \<in> {PSpeak audio offset, PWait audio offset} \<and> ag_pc a' = PSelect
       \<longrightarrow> length audio \<le> offset \<or> ag_ctxDone a \<or> (\<exists>frame. OutAudio frame False \<in> set out))"
proof -
  have inv: "agent_inv a" "OutBargeIn \<notin> set tr" using agent_reach_ok [OF assms] by simp_all
  have "length audio \<le> offset \<or> ag_ctxDone a \<or> (\<exists>frame. OutAudio frame False \<in> set out)"
    if "agentRun m a = Some (out, a')" "ag_pc a \<in> {PSpeak audio offset, PWait audio offset}" "ag_pc a' = PSelect" for m out a' audio offset
    using that busy_flags [OF inv(1)]
    by (cases m) (auto simp: speakFrame_def emit_def Let_def case_prod_unfold split: if_splits list.splits, blast)
  then show ?thesis using inv busy_flags [OF inv(1)] by blast
qed

theorem agent_never_interrupted_witness:
  "\<exists>a. agentDos (quick_turn @ [DoFeed [3]]) (quick_session, []) =
      Some (a, [OutState StateIdle StateListening, OutState StateListening StateThinking, OutAsr ''hi'', OutLlm ''hello'',
        OutState StateThinking StateSpeaking, OutAudio [7] True]) \<and>
    ag_pc a = PWait [7, 8] 1 \<and> \<not> ag_bargeInFlag a \<and> \<not> ag_bargeInCh a"
proof -
  let ?tr = "[OutState StateIdle StateListening, OutState StateListening StateThinking, OutAsr ''hi'', OutLlm ''hello'',
    OutState StateThinking StateSpeaking, OutAudio [7] True]"
  obtain a where a: "agentDos (quick_turn @ [DoFeed [3]]) (quick_session, []) = Some (a, ?tr)"
    "ag_pc a = PWait [7, 8] 1"
    by (simp add: quick_eval)
  then show ?thesis using agent_never_interrupted [OF quick_reach [OF a(1)]] by blast
qed

end
