(* ===== verification/Spec2Isabelle.thy ===== *)
theory Spec2Isabelle
  imports RtmpRelay SrtPacket SrtSessions GbReceiver HlsServer DashServer
    Jitter Mixer G711 Routing Processors Pipeline AgentLoop
begin

text \<open>
  A verification development for LingVoice, a media server in Go that takes live audio and video
  in over several protocols, passes it through a media engine and serves it to players.

  \<^bold>\<open>The program and its parts.\<close> Publishers arrive over RTMP (\<open>pkg/protocol/rtmp\<close>), SRT
  (\<open>pkg/protocol/srt\<close>) and GB28181 (\<open>pkg/protocol/gb28181\<close>). What they send becomes the frames
  and events of \<open>pkg/protocol/common\<close>. Players fetch HLS (\<open>pkg/protocol/hls\<close>) and DASH
  (\<open>pkg/protocol/dash\<close>). A pipeline (\<open>pkg/protocol/pipeline\<close>) hands the frames of one stream to
  several outputs. The media engine (\<open>pkg/media\<close>) buffers, mixes, converts, routes and processes
  audio packets. The control loop of a voice agent (\<open>pkg/control\<close>) holds a spoken conversation.

  \<^bold>\<open>Conventions.\<close> Machine integers are words of their width, Go's \<open>int\<close> is \<open>int\<close> or \<open>nat\<close> where
  no overflow can occur, byte slices are lists of 8-bit words. \<open>None\<close>, or an error constructor
  where the source returns an error, stands for a panic or an error return. Goroutines that a
  lock serialises are sequences of operations; goroutines that race (\<open>Pipeline\<close>, \<open>AgentLoop\<close>) are
  program counters whose steps interleave freely; clock readings, random ids, and the orders in
  which Go ranges over a map are arguments. Floating-point numbers of the HTTP servers and the
  mixer are rationals with the rounding of IEEE double precision (\<open>GoText\<close>), those of AMF0 are bit
  patterns.

  \<^bold>\<open>The theories.\<close>
  \<^item> \<open>Prelude\<close>: words, bytes, lists, the collections of rewrite rules and the locale \<open>fixed_codec\<close>
    of encodings of fixed length. \<open>GoText\<close>: printing and string functions of Go's library.
  \<^item> \<open>ProtoTypes\<close> (\<open>common/types.go\<close>): tracks, frames, codecs, events and commands.
  \<^item> \<open>RtmpAmf\<close> (\<open>rtmp/message.go\<close>) and \<open>RtmpChunk\<close> (\<open>rtmp/chunk.go\<close>, \<open>handshake.go\<close>): the AMF0
    codec, the chunk stream and the handshake. Values and messages that are written are read back,
    readers end and never slice out of range; one theorem isolates the extended time stamp of
    continuation chunks, which is read as payload. Decoded values are typed.
  \<^item> \<open>RtmpPlay\<close> (\<open>rtmp/handler_play.go\<close>), \<open>RtmpConn\<close> (\<open>rtmp/handler.go\<close>) and \<open>RtmpRelay\<close>: the play
    session, the handlers of a connection and two connections back to back. On any input a
    connection ends and reports tracks and frames in a fixed order; what one connection plays
    another one ingests, through every layer of the protocol.
  \<^item> \<open>SrtPacket\<close> (\<open>srt/packet.go\<close>, \<open>handshake.go\<close>) and \<open>SrtSessions\<close> (\<open>srt/server.go\<close>, \<open>session.go\<close>):
    packet formats, and the server as a step relation over its handlers. Every run refines an
    abstract contract per session (announced, track, live, over); the tables are consistent in
    every reachable state; silent sessions are removed.
  \<^item> \<open>NalUnits\<close>, \<open>TSMux\<close> (\<open>hls/ts_muxer.go\<close>), \<open>TSDemux\<close> (\<open>srt/ts_parser.go\<close>): start codes with the
    locale \<open>nal_splitter\<close>, the transport stream muxer and the demultiplexer. What the one writes the
    other delivers, however the bytes are cut into datagrams.
  \<^item> \<open>GbReceiver\<close> (\<open>gb28181/ps_receiver.go\<close>): from datagrams to frames of a program stream.
  \<^item> \<open>SegWindow\<close>, \<open>HlsServer\<close> (\<open>hls/segmenter.go\<close>), \<open>DashInit\<close> (\<open>dash/mp4_init.go\<close>), \<open>DashServer\<close>
    (\<open>dash/segmenter.go\<close>): the locale \<open>segment_window\<close> of a bounded window of numbered segments, with
    both segmenters as its interpretations, the text of playlist and manifest, and the HTTP
    handlers. A player that follows the playlist or the manifest gets the kept segments.
  \<^item> \<open>MediaTypes\<close> (\<open>media/types.go\<close>), \<open>Jitter\<close> (\<open>jitter.go\<close>), \<open>Mixer\<close> (\<open>mixer.go\<close>), \<open>G711\<close>
    (\<open>encoder/g711.go\<close>), \<open>Routing\<close> (\<open>router.go\<close>, \<open>relay.go\<close>), \<open>Processors\<close> (\<open>processor.go\<close>): the
    media engine. Packets of a window are read in sequence order; every participant hears the sum
    of the others; the codec loses only a stated share of a sample; round robin serves every
    connector; processors run in the order of a stable sort by priority.
  \<^item> \<open>Pipeline\<close> (\<open>protocol/pipeline/pipeline.go\<close>): sinks with bounded channels, their goroutines, and
    the calls that write, remove and close, one access to shared memory per step. Every sink gets
    accepted frames in order and is closed at most once; the one panic that can happen, a send on
    a channel closed by another goroutine, is characterised and reached.
  \<^item> \<open>TurnTaking\<close> (\<open>control/turn.go\<close>) and \<open>AgentLoop\<close> (\<open>control/session.go\<close>, \<open>orchestrate.go\<close>): the
    counters that detect the end of a turn agree with a specification over the history of frames;
    the agent's goroutine, started, fed and stopped from outside, shows the client a well-formed
    conversation, which the user can never interrupt.

  \<^bold>\<open>Loops and fuel.\<close> Loops over data are structural or have a termination proof by a measure
  (\<open>feed_loop\<close> and \<open>find_sync\<close> of \<open>TSDemux\<close> among them). Five loops take fuel, one more than the
  bytes they work on: the AMF0 decoder (its values \<open>2 * length r + 1\<close>, for the nesting), the
  message reader of \<open>RtmpChunk\<close>, the read loop of \<open>RtmpConn\<close>, the packet loop \<open>stuffTS\<close> and the
  program stream loop of \<open>GbReceiver\<close>. Each iteration consumes a byte, so this is enough, which is
  proved for every input of all but \<open>stuffTS\<close>, and there for every payload but the empty one, on
  which the source loops for ever.

  \<^bold>\<open>Not modelled.\<close> Sockets, timers and HTTP listeners (\<open>Start\<close>, \<open>Close\<close>, read and ticker loops);
  the signalling of GB28181; the protocols built on third-party
  packages (WebRTC, WHIP, WHEP, RTSP, MoQ, MQTT, SIP); the session orchestration, resampling,
  filters and the remaining codecs of \<open>pkg/media\<close>; speech and model services, model relay, stores, the web
  application, generated code and the parts in other languages. The first group is I/O; the others
  rest on external services or libraries or are left for later.
\<close>

end
